(* ===== verification/Prelude.thy ===== *)
theory Prelude
  imports Main "HOL-Library.Word"
begin

unbundle bit_operations_syntax

section \<open>Shared vocabulary of the development\<close>

text \<open>
  Machine integers, the ways kernel code can stop, the error codes of
  \<^verbatim>\<open>kernel/src/util/except.h\<close>, the bit and alignment macros of
  \<^verbatim>\<open>kernel/src/util/defs.h\<close> and the byte memory the kernel copies in and out of.
  The lemmas about them that several components use are declared into the collections below,
  or as simplification rules.
\<close>

named_theorems run_simps \<open>rewriting of sequenced kernel operations\<close>
named_theorems mem_simps \<open>reads of the byte memory after writes\<close>

subsection \<open>Machine integers\<close>

type_synonym u8 = "8 word"
type_synonym u16 = "16 word"
type_synonym u32 = "32 word"
type_synonym u64 = "64 word"

text \<open>An object of the kernel heap is named by its address; \<open>0\<close> is \<^verbatim>\<open>NULL\<close>.\<close>

type_synonym ptr = u32

abbreviation (input) NULL :: ptr where "NULL \<equiv> 0"

subsection \<open>How an operation can stop\<close>

text \<open>
  \<^verbatim>\<open>ASSERT\<close> prints and then spins for ever; a loop of the source may have no
  exit; an array index may leave its array. Each is a value, so that a theorem about a result
  is also a theorem that the operation returns.
\<close>

datatype stop =
    Assert_failed string
  | Spin
  | Undefined string

type_synonym 'a run = "stop + 'a"

fun andthen :: "'a run \<Rightarrow> ('a \<Rightarrow> 'b run) \<Rightarrow> 'b run" where
  "andthen (Inl e) f = Inl e"
| "andthen (Inr x) f = f x"

definition ASSERT :: "bool \<Rightarrow> string \<Rightarrow> unit run" where
  "ASSERT check msg = (if check then Inr () else Inl (Assert_failed msg))"

text \<open>The result of a loop that may not end: \<^const>\<open>None\<close> is a loop that never exits.\<close>

definition loop_result :: "'a option \<Rightarrow> 'a run" where
  "loop_result r = (case r of None \<Rightarrow> Inl Spin | Some x \<Rightarrow> Inr x)"

lemma andthen_eq_Inr [run_simps]: "andthen m f = Inr y \<longleftrightarrow> (\<exists>x. m = Inr x \<and> f x = Inr y)"
  by (cases m) auto

lemma andthen_eq_Inl [run_simps]:
  "andthen m f = Inl e \<longleftrightarrow> m = Inl e \<or> (\<exists>x. m = Inr x \<and> f x = Inl e)"
  by (cases m) auto

lemma andthen_assoc: "andthen (andthen m f) g = andthen m (\<lambda>x. andthen (f x) g)"
  by (cases m) auto

lemma andthen_cong [fundef_cong]:
  "m = m' \<Longrightarrow> (\<And>x. m' = Inr x \<Longrightarrow> f x = f' x) \<Longrightarrow> andthen m f = andthen m' f'"
  by (cases m') auto

lemma ASSERT_eq_Inr [run_simps]: "ASSERT b m = Inr u \<longleftrightarrow> b"
  by (simp add: ASSERT_def)

lemma ASSERT_True [simp]: "b \<Longrightarrow> ASSERT b m = Inr ()"
  by (simp add: ASSERT_def)

lemma ASSERT_False [simp]: "\<not> b \<Longrightarrow> ASSERT b m = Inl (Assert_failed m)"
  by (simp add: ASSERT_def)

lemma loop_result_Some [simp]: "loop_result (Some x) = Inr x"
  by (simp add: loop_result_def)

lemma loop_result_None [simp]: "loop_result None = Inl Spin"
  by (simp add: loop_result_def)

lemma loop_result_eq_Inr [run_simps]: "loop_result r = Inr x \<longleftrightarrow> r = Some x"
  by (simp add: loop_result_def split: option.split)

subsection \<open>Error codes\<close>

datatype err_t =
    NO_ERROR
  | ERROR_CHECK_FAILED
  | ERROR_OUT_OF_RESOURCES
  | ERROR_INVALID_PTR
  | ERROR_INVALID_SYSCALL

fun err_code :: "err_t \<Rightarrow> u32" where
  "err_code NO_ERROR = 0"
| "err_code ERROR_CHECK_FAILED = 1"
| "err_code ERROR_OUT_OF_RESOURCES = 2"
| "err_code ERROR_INVALID_PTR = 3"
| "err_code ERROR_INVALID_SYSCALL = 4"

definition IS_ERROR :: "err_t \<Rightarrow> bool" where
  "IS_ERROR x \<longleftrightarrow> err_code x \<noteq> 0"

lemma IS_ERROR_iff [simp]: "IS_ERROR x \<longleftrightarrow> x \<noteq> NO_ERROR"
  by (cases x) (simp_all add: IS_ERROR_def)

lemma err_code_inject [simp]: "err_code x = err_code y \<longleftrightarrow> x = y"
  by (cases x; cases y) simp_all

subsection \<open>Bit sets and find-first-set\<close>

definition bits_of :: "'a::len word \<Rightarrow> nat set" where
  "bits_of w = {i. bit w i}"

text \<open>\<^verbatim>\<open>__builtin_ffs\<close>: one plus the index of the lowest set bit, \<open>0\<close> for \<open>0\<close>.\<close>

definition ffs :: "'a::len word \<Rightarrow> nat" where
  "ffs w = (case List.find (\<lambda>i. bit w i) [0..<LENGTH('a)] of None \<Rightarrow> 0 | Some i \<Rightarrow> Suc i)"

lemma bits_of_bound: "i \<in> bits_of (w :: 'a::len word) \<Longrightarrow> i < LENGTH('a)"
  by (simp add: bits_of_def bit_imp_le_length)

lemma finite_bits_of [simp]: "finite (bits_of w)"
  by (rule finite_subset [of _ "{..<LENGTH('a)}"]) (auto dest: bits_of_bound)

lemma bits_of_eq_empty [simp]: "bits_of w = {} \<longleftrightarrow> w = 0"
  by (auto simp: bits_of_def bit_eq_iff dest: bit_imp_le_length)

lemma bits_of_ucast [simp]:
  "LENGTH('a::len) \<le> LENGTH('b::len) \<Longrightarrow> bits_of (ucast (w :: 'a word) :: 'b word) = bits_of w"
  by (auto simp: bits_of_def bit_simps dest: bit_imp_le_length)

lemma ffs_zero [simp]: "ffs 0 = 0"
  by (simp add: ffs_def find_None_iff split: option.split)

lemma ffs_eq_Suc_Min:
  fixes w :: "'a::len word"
  assumes "w \<noteq> 0"
  shows "ffs w = Suc (Min (bits_of w))"
proof -
  let ?P = "\<lambda>i. bit w i"
  obtain j where j: "j \<in> bits_of w" using assms bits_of_eq_empty by blast
  obtain i where i: "List.find ?P [0..<LENGTH('a)] = Some i"
    using j bits_of_bound [OF j]
    by (cases "List.find ?P [0..<LENGTH('a)]") (auto simp: find_None_iff bits_of_def)
  then obtain k where k: "k < LENGTH('a)" "i = [0..<LENGTH('a)] ! k" "?P i"
      "\<forall>l<k. \<not> ?P ([0..<LENGTH('a)] ! l)"
    by (auto simp: find_Some_iff)
  have "Min (bits_of w) = i"
  proof (rule Min_eqI)
    fix y assume "y \<in> bits_of w"
    then have "y < LENGTH('a)" "?P y" using bits_of_bound by (auto simp: bits_of_def)
    with k show "i \<le> y" by (cases "y < i") auto
  qed (use k in \<open>auto simp: bits_of_def\<close>)
  with i show ?thesis by (simp add: ffs_def)
qed

text \<open>
  Simplification turns \<^verbatim>\<open>1 << n\<close>, written \<open>push_bit n 1\<close>, into \<open>2 ^ n\<close>; the
  rules below are in that form.
\<close>

lemma bits_of_and_not_bit [simp]:
  "bits_of (w AND NOT (2 ^ n)) = bits_of w - {n}" for w :: "'a::len word"
  by (auto simp: bits_of_def bit_simps dest: bit_imp_le_length)

lemma bits_of_or_bit [simp]:
  "n < LENGTH('a) \<Longrightarrow> bits_of (w OR 2 ^ n) = insert n (bits_of w)" for w :: "'a::len word"
  by (auto simp: bits_of_def bit_simps)

lemma bits_of_ucast_take:
  "bits_of (ucast (w :: 'a::len word) :: 'b::len word) = {i \<in> bits_of w. i < LENGTH('b)}"
  by (auto simp: bits_of_def bit_simps dest: bit_imp_le_length)

lemma bits_of_u16_bound: "i \<in> bits_of (w :: u16) \<Longrightarrow> i < 16"
  using bits_of_bound [of i w] by simp

lemma bits_of_mask: "bits_of (mask n :: 'a::len word) = {..<min n LENGTH('a)}"
  by (auto simp: bits_of_def bit_mask_iff)

lemma bits_of_inject: "bits_of v = bits_of w \<longleftrightarrow> v = w"
  by (auto simp: bits_of_def bit_eq_iff set_eq_iff dest: bit_imp_le_length)

subsection \<open>Alignment and minimum\<close>

definition ALIGN_UP :: "u32 \<Rightarrow> u32 \<Rightarrow> u32" where
  "ALIGN_UP x align = (x + (align - 1)) AND NOT (align - 1)"

definition ALIGN_DOWN :: "u32 \<Rightarrow> u32 \<Rightarrow> u32" where
  "ALIGN_DOWN x align = x - (x AND (align - 1))"

text \<open>The \<^verbatim>\<open>MINU\<close> instruction: the unsigned minimum.\<close>

definition MINU :: "u32 \<Rightarrow> u32 \<Rightarrow> u32" where
  "MINU a b = (if a < b then a else b)"

subsection \<open>Counting up to a word bound\<close>

lemma unat_Suc_less:
  fixes l w :: "'a::len word"
  assumes "l < w"
  shows "unat (l + 1) = Suc (unat l)"
proof -
  have "unat l < unat w" using assms by (simp add: word_less_nat_alt)
  moreover have "unat w < 2 ^ LENGTH('a)" by (rule unsigned_less)
  ultimately have "Suc (unat l) < 2 ^ LENGTH('a)" by linarith
  then show ?thesis by (simp add: unat_word_ariths)
qed

lemma unat_bound32 [simp]: "unat (w :: u32) < 4294967296"
proof -
  have "unat w < 2 ^ LENGTH(32)" by (rule unsigned_less)
  then show ?thesis by simp
qed

end
