(* ===== verification/Umem.thy ===== *)
theory Umem
  imports Prelude
begin

section \<open>User page allocator\<close>

text \<open>
  \<^verbatim>\<open>kernel/src/mem/umem.c\<close>: two bitmaps of free 8 KB pages, one for code and one for
  data, and the address macros of \<^verbatim>\<open>umem.h\<close>. The locale \<open>page_pool\<close> is what
  the rest of the kernel relies on (pages handed out are free, distinct and taken lowest
  first); both bitmaps interpret it.
\<close>

subsection \<open>Page addresses\<close>

definition USER_CODE_BASE :: u32 where "USER_CODE_BASE = 0x40080000"
definition USER_DATA_BASE :: u32 where "USER_DATA_BASE = 0x3FFC0000"
definition USER_PAGE_SIZE :: u32 where "USER_PAGE_SIZE = 0x2000"
definition VDSO_PAGE_INDEX :: nat where "VDSO_PAGE_INDEX = 15"
definition UCTX_PAGE_INDEX :: nat where "UCTX_PAGE_INDEX = 15"

definition CODE_PAGE_INDEX :: "u32 \<Rightarrow> u32" where
  "CODE_PAGE_INDEX x = (x - USER_CODE_BASE) div USER_PAGE_SIZE"

definition DATA_PAGE_INDEX :: "u32 \<Rightarrow> u32" where
  "DATA_PAGE_INDEX x = (x - USER_DATA_BASE) div USER_PAGE_SIZE"

definition CODE_PAGE_ADDR :: "u32 \<Rightarrow> u32" where
  "CODE_PAGE_ADDR x = x * USER_PAGE_SIZE + USER_CODE_BASE"

definition DATA_PAGE_ADDR :: "u32 \<Rightarrow> u32" where
  "DATA_PAGE_ADDR x = x * USER_PAGE_SIZE + USER_DATA_BASE"

definition INVALID_PAGE :: int where "INVALID_PAGE = -1"

subsection \<open>The allocator state and its four operations\<close>

record umem =
  m_code_pages :: u16
  m_data_pages :: u16

definition umem_init :: umem where
  "umem_init = \<lparr>m_code_pages = 0x7fff, m_data_pages = 0xFFFF\<rparr>"

text \<open>
  The 16-bit maps are promoted to \<^verbatim>\<open>int\<close> for \<^verbatim>\<open>__builtin_ffs\<close>
  and for the mask, and truncated again by the assignment.
\<close>

definition umem_alloc_code_page :: "umem \<Rightarrow> int \<times> umem" where
  "umem_alloc_code_page u =
     (if m_code_pages u = 0 then (INVALID_PAGE, u)
      else let index = ffs (ucast (m_code_pages u) :: u32) - 1
           in (int index,
               u\<lparr>m_code_pages := ucast ((ucast (m_code_pages u) :: u32) AND NOT (push_bit index 1))\<rparr>))"

definition umem_alloc_data_page :: "umem \<Rightarrow> int \<times> umem" where
  "umem_alloc_data_page u =
     (if m_data_pages u = 0 then (INVALID_PAGE, u)
      else let index = ffs (ucast (m_data_pages u) :: u32) - 1
           in (int index,
               u\<lparr>m_data_pages := ucast ((ucast (m_data_pages u) :: u32) AND NOT (push_bit index 1))\<rparr>))"

text \<open>\<^verbatim>\<open>1 << index\<close> is undefined for a negative or too large shift.\<close>

definition umem_free_code_page :: "int \<Rightarrow> umem \<Rightarrow> umem run" where
  "umem_free_code_page index u =
     (if 0 \<le> index \<and> index < 32
      then Inr (u\<lparr>m_code_pages := ucast ((ucast (m_code_pages u) :: u32) OR push_bit (nat index) 1)\<rparr>)
      else Inl (Undefined ''shift''))"

definition umem_free_data_page :: "int \<Rightarrow> umem \<Rightarrow> umem run" where
  "umem_free_data_page index u =
     (if 0 \<le> index \<and> index < 32
      then Inr (u\<lparr>m_data_pages := ucast ((ucast (m_data_pages u) :: u32) OR push_bit (nat index) 1)\<rparr>)
      else Inl (Undefined ''shift''))"

definition code_free :: "umem \<Rightarrow> nat set" where "code_free u = bits_of (m_code_pages u)"
definition data_free :: "umem \<Rightarrow> nat set" where "data_free u = bits_of (m_data_pages u)"

text \<open>\<open>n\<close> allocations in a row, the way the program loader makes them.\<close>

fun alloc_pages :: "('s \<Rightarrow> int \<times> 's) \<Rightarrow> nat \<Rightarrow> 's \<Rightarrow> int list \<times> 's" where
  "alloc_pages alloc 0 s = ([], s)"
| "alloc_pages alloc (Suc n) s =
     (let (p, s1) = alloc s; (ps, s2) = alloc_pages alloc n s1 in (p # ps, s2))"

subsection \<open>The contract of a pool of pages\<close>

locale page_pool =
  fixes alloc :: "'s \<Rightarrow> int \<times> 's"
    and free :: "int \<Rightarrow> 's \<Rightarrow> 's run"
    and avail :: "'s \<Rightarrow> nat set"
    and cap :: nat
  assumes finite_avail: "finite (avail s)"
    and avail_bound: "p \<in> avail s \<Longrightarrow> p < cap"
    and alloc_empty: "avail s = {} \<Longrightarrow> alloc s = (INVALID_PAGE, s)"
    and alloc_page: "avail s \<noteq> {} \<Longrightarrow> fst (alloc s) = int (Min (avail s))"
    and alloc_avail: "avail s \<noteq> {} \<Longrightarrow> avail (snd (alloc s)) = avail s - {Min (avail s)}"
    and free_page: "p < cap \<Longrightarrow> \<exists>s'. free (int p) s = Inr s' \<and> avail s' = insert p (avail s)"
begin

lemma alloc_success_iff: "fst (alloc s) \<noteq> INVALID_PAGE \<longleftrightarrow> avail s \<noteq> {}"
  using alloc_empty [of s] alloc_page [of s] by (cases "avail s = {}") (auto simp: INVALID_PAGE_def)

lemma alloc_taken:
  assumes "fst (alloc s) \<noteq> INVALID_PAGE"
  obtains p where "fst (alloc s) = int p" "p \<in> avail s" "p < cap"
    "avail (snd (alloc s)) = avail s - {p}"
  using assms alloc_page [of s] alloc_avail [of s] Min_in [OF finite_avail, of s]
    avail_bound [of _ s] alloc_success_iff [of s] that by auto

lemma card_alloc:
  assumes "avail s \<noteq> {}"
  shows "card (avail (snd (alloc s))) = card (avail s) - 1"
  using assms by (simp add: alloc_avail Min_in [OF finite_avail] finite_avail)

lemma alloc_free_roundtrip:
  assumes "avail s \<noteq> {}"
  shows "\<exists>s'. free (fst (alloc s)) (snd (alloc s)) = Inr s' \<and> avail s' = avail s"
proof -
  have p: "Min (avail s) \<in> avail s" by (rule Min_in [OF finite_avail assms])
  then obtain s' where "free (int (Min (avail s))) (snd (alloc s)) = Inr s'"
    and "avail s' = insert (Min (avail s)) (avail (snd (alloc s)))"
    using free_page avail_bound by blast
  with p assms show ?thesis by (auto simp: alloc_page alloc_avail)
qed

text \<open>Enough free pages: every request succeeds and the pages are pairwise distinct.\<close>

lemma alloc_pages_distinct:
  assumes "n \<le> card (avail s)" and "alloc_pages alloc n s = (ps, s')"
  shows "distinct ps \<and> length ps = n \<and> set ps \<subseteq> int ` avail s \<and>
    int ` avail s' = int ` avail s - set ps"
  using assms
proof (induction n arbitrary: s ps)
  case 0
  then show ?case by simp
next
  case (Suc n)
  let ?m = "Min (avail s)"
  from Suc.prems have ne: "avail s \<noteq> {}" by auto
  then have m: "?m \<in> avail s" by (rule Min_in [OF finite_avail])
  obtain qs where qs: "alloc_pages alloc n (snd (alloc s)) = (qs, s')" and ps: "ps = int ?m # qs"
    using Suc.prems(2) alloc_page [OF ne] by (auto split: prod.splits)
  have "n \<le> card (avail (snd (alloc s)))" using Suc.prems(1) card_alloc [OF ne] by simp
  from Suc.IH [OF this qs] ps m show ?case by (auto simp: alloc_avail [OF ne])
qed

text \<open>Exhaustion: the request after the last free page reports failure and changes nothing.\<close>

lemma alloc_pages_exhaust:
  assumes "alloc_pages alloc (card (avail s)) s = (ps, s')"
  shows "avail s' = {} \<and> alloc s' = (INVALID_PAGE, s')"
proof -
  from alloc_pages_distinct [OF order_refl assms]
  have d: "distinct ps" "length ps = card (avail s)" "set ps \<subseteq> int ` avail s"
    and s': "int ` avail s' = int ` avail s - set ps" by auto
  have "card (set ps) = card (int ` avail s)"
    using d by (simp add: distinct_card card_image)
  with d finite_avail have "set ps = int ` avail s"
    by (intro card_subset_eq) auto
  with s' have "avail s' = {}" by auto
  then show ?thesis by (simp add: alloc_empty)
qed

end

subsection \<open>Both bitmaps are pools of sixteen pages\<close>

lemma clear_promoted:
  "bits_of (ucast ((ucast (w :: u16) :: u32) AND NOT (2 ^ n)) :: u16) = bits_of w - {n}"
  by (auto simp: bits_of_ucast_take dest: bits_of_u16_bound)

lemma set_promoted:
  "n < 16 \<Longrightarrow> bits_of (ucast ((ucast (w :: u16) :: u32) OR 2 ^ n) :: u16) = insert n (bits_of w)"
  by (auto simp: bits_of_ucast_take dest: bits_of_u16_bound)

lemma ffs_promoted:
  "(w :: u16) \<noteq> 0 \<Longrightarrow> ffs (ucast w :: u32) - Suc 0 = Min (bits_of w)"
  using ffs_eq_Suc_Min [of "ucast w :: u32"] bits_of_eq_empty [of w]
    bits_of_eq_empty [of "ucast w :: u32"] by simp

interpretation code_pool: page_pool umem_alloc_code_page umem_free_code_page code_free 16
proof (unfold_locales, goal_cases)
  case (2 p s) then show ?case
    using bits_of_bound [of p "m_code_pages s"] by (simp add: code_free_def)
qed (auto simp: code_free_def umem_alloc_code_page_def umem_free_code_page_def Let_def
  ffs_promoted clear_promoted set_promoted)

interpretation data_pool: page_pool umem_alloc_data_page umem_free_data_page data_free 16
proof (unfold_locales, goal_cases)
  case (2 p s) then show ?case
    using bits_of_bound [of p "m_data_pages s"] by (simp add: data_free_def)
qed (auto simp: data_free_def umem_alloc_data_page_def umem_free_data_page_def Let_def
  ffs_promoted clear_promoted set_promoted)

lemma code_free_init: "code_free umem_init = {..<15}"
  using bits_of_mask [of 15, where 'a = 16] by (simp add: code_free_def umem_init_def mask_eq_exp_minus_1)

lemma data_free_init: "data_free umem_init = {..<16}"
  using bits_of_mask [of 16, where 'a = 16] by (simp add: data_free_def umem_init_def mask_eq_exp_minus_1)

end
