(* ===== verification/Kernel_State.thy ===== *)
theory Kernel_State
  imports Umem
begin

section \<open>The state the kernel keeps\<close>

text \<open>
  One record per struct of the source: the page table and \<^verbatim>\<open>mmu_t\<close> of
  \<^verbatim>\<open>drivers/dport.h\<close>, \<^verbatim>\<open>pid_binding_t\<close> of
  \<^verbatim>\<open>drivers/pid.h\<close>, \<^verbatim>\<open>per_cpu_context_t\<close> of \<^verbatim>\<open>arch/cpu.h\<close>,
  \<^verbatim>\<open>task_t\<close> of \<^verbatim>\<open>task/task.h\<close>, the memory-mapped registers the drivers write, and
  the kernel's static variables. \<^verbatim>\<open>task_t\<close> objects of the kernel heap are a map from
  addresses; the bytes of every other buffer, user pages included, are in \<open>mem\<close>.
\<close>

subsection \<open>Address spaces\<close>

datatype page_entry_type = PAGE_UNMAPPED | PAGE_MAPPED | PAGE_SWAPPED

record page_entry =
  phys :: u8
  entry_type :: page_entry_type

record mmu_space =
  entries :: "nat \<Rightarrow> page_entry"

text \<open>A \<^verbatim>\<open>pid_binding_t*\<close> names a slot of a core's array: (core, index).\<close>

type_synonym binding_ref = "nat \<times> nat"

record mmu =
  immu :: mmu_space
  dmmu :: mmu_space
  mpu_peripheral :: u64
  binding :: "binding_ref option"

definition MAX_PAGE_COUNT :: nat where "MAX_PAGE_COUNT = 16"

datatype mmu_space_type = MMU_SPACE_CODE | MMU_SPACE_DATA

definition PAGE_ENTRY :: "u8 \<Rightarrow> page_entry" where
  "PAGE_ENTRY page = \<lparr>phys = page, entry_type = PAGE_MAPPED\<rparr>"

text \<open>What \<^verbatim>\<open>memset(task, 0, ...)\<close> leaves in the embedded \<^verbatim>\<open>mmu_t\<close>.\<close>

definition zero_entry :: page_entry where
  "zero_entry = \<lparr>phys = 0, entry_type = PAGE_UNMAPPED\<rparr>"

definition zero_mmu :: mmu where
  "zero_mmu = \<lparr>immu = \<lparr>entries = (\<lambda>_. zero_entry)\<rparr>, dmmu = \<lparr>entries = (\<lambda>_. zero_entry)\<rparr>,
     mpu_peripheral = 0, binding = None\<rparr>"

subsection \<open>PID bindings and the per-core context\<close>

definition PID_BINDING_COUNT :: nat where "PID_BINDING_COUNT = 6"
definition CPU_COUNT :: nat where "CPU_COUNT = 2"

record pid_binding =
  primary_stamp :: u64
  bound_space :: ptr
  pid :: u8

record per_cpu_context =
  next_stamp :: u64
  pid_bindings :: "nat \<Rightarrow> pid_binding"
  primary_binding :: "binding_ref option"
  preempt_disable_depth :: u32
  current_task :: ptr
  park_callback :: ptr
  park_arg :: ptr

subsection \<open>Tasks\<close>

type_synonym task_status = u32

abbreviation (input) TASK_STATUS_IDLE :: task_status where "TASK_STATUS_IDLE \<equiv> 0"
abbreviation (input) TASK_STATUS_RUNNABLE :: task_status where "TASK_STATUS_RUNNABLE \<equiv> 1"
abbreviation (input) TASK_STATUS_RUNNING :: task_status where "TASK_STATUS_RUNNING \<equiv> 2"
abbreviation (input) TASK_STATUS_WAITING :: task_status where "TASK_STATUS_WAITING \<equiv> 3"
abbreviation (input) TASK_STATUS_PREEMPTED :: task_status where "TASK_STATUS_PREEMPTED \<equiv> 4"
abbreviation (input) TASK_STATUS_DEAD :: task_status where "TASK_STATUS_DEAD \<equiv> 5"
abbreviation (input) TASK_SUSPEND :: task_status where "TASK_SUSPEND \<equiv> 0x1000"

record task =
  task_pid :: u8
  task_mmu :: mmu
  status :: task_status
  sched_link :: ptr
  ucontext :: u32

text \<open>
  \<^verbatim>\<open>task_regs_t\<close>: the saved register file. The 64 address registers are a list; a
  well-formed value has exactly 64 of them.
\<close>

record task_regs =
  ar :: "u32 list"
  sar :: u32
  lbeg :: u32
  lend :: u32
  lcount :: u32
  pc :: u32
  ps :: u32
  windowbase :: u32
  windowstart :: u32
  windowmask :: u16
  windowsize :: u16

subsection \<open>Memory-mapped registers\<close>

record mmu_table_reg =
  address :: "4 word"
  access_rights :: "3 word"
  mmu_reserved :: "25 word"

record dport =
  DPORT_PRO_BOOT_REMAP_CTRL :: u32
  DPORT_APP_BOOT_REMAP_CTRL :: u32
  DPORT_CACHE_MUX_MODE :: u32
  DPORT_INTR_FROM_CPU :: "nat \<Rightarrow> u32"
  DPORT_PRO_INTR_STATUS :: "nat \<Rightarrow> u32"
  DPORT_PRO_INT_MAP :: "nat \<Rightarrow> u32"
  DPORT_APP_INT_MAP :: "nat \<Rightarrow> u32"
  DPORT_PRO_CACHE_CTRL :: u32
  DPORT_APP_CACHE_CTRL :: u32
  DPORT_IMMU_PAGE_MODE :: u32
  DPORT_DMMU_PAGE_MODE :: u32
  DPORT_AHB_MPU_TABLE :: "nat \<Rightarrow> u32"
  DPORT_AHBLITE_MPU_TABLE :: "nat \<Rightarrow> u32"
  DPORT_IMMU_TABLE :: "nat \<Rightarrow> mmu_table_reg"
  DPORT_DMMU_TABLE :: "nat \<Rightarrow> mmu_table_reg"
  DPORT_PRO_VECBASE_CTRL_REG :: u32
  DPORT_PRO_VECBASE_SET_REG :: u32
  DPORT_APP_VECBASE_CTRL_REG :: u32
  DPORT_APP_VECBASE_SET_REG :: u32
  m_free_peripheral_interrupt :: u32

record pidctrl =
  PIDCTRL_INTERRUPT_ENABLE :: u32
  PIDCTRL_INTERRUPT_ADDR :: "nat \<Rightarrow> u32"
  PIDCTRL_PID_DELAY :: u32
  PIDCTRL_LEVEL :: u32
  PIDCTRL_FROM :: "nat \<Rightarrow> u32"
  PIDCTRL_PID_NEW_REG :: u32

text \<open>
  The timer group's registers, with the writes made to them in order: what the watchdog's
  write protection lets through depends on that order.
\<close>

datatype timg_reg =
    TIMG0_WDTCONFIG | TIMG0_WDTCONFIG1 | TIMG0_WDTCONFIG2 | TIMG0_WDTCONFIG3
  | TIMG0_WDTFEED | TIMG0_WDTWPROTECT | TIMG0_INT_ENA | TIMG0_INT_ST | TIMG0_INT_CLR

record timg =
  timg_regs :: "timg_reg \<Rightarrow> u32"
  timg_writes :: "(timg_reg \<times> u32) list"

record task_queue =
  head :: ptr
  tail :: ptr

subsection \<open>The whole kernel\<close>

record kernel =
  prid :: u32
  dport :: dport
  pidctrl :: pidctrl
  timg :: timg
  g_per_cpu_context :: "nat \<Rightarrow> per_cpu_context"
  tasks :: "ptr \<rightharpoonup> task"
  mem :: "u32 \<Rightarrow> u8"
  m_global_run_queue :: task_queue
  m_global_run_queue_size :: u32
  umem :: umem
  m_pid_gen :: u8
  console :: string

text \<open>\<^verbatim>\<open>arch/cpu.c\<close>: the core number comes from bit 13 of \<^verbatim>\<open>PRID\<close>.\<close>

definition get_cpu_index :: "kernel \<Rightarrow> nat" where
  "get_cpu_index s = unat (drop_bit 13 (prid s) AND 1)"

definition get_cpu_context :: "kernel \<Rightarrow> per_cpu_context" where
  "get_cpu_context s = g_per_cpu_context s (get_cpu_index s)"

definition set_cpu_context :: "per_cpu_context \<Rightarrow> kernel \<Rightarrow> kernel" where
  "set_cpu_context c s = s\<lparr>g_per_cpu_context := (g_per_cpu_context s)(get_cpu_index s := c)\<rparr>"

text \<open>A field of a task written through a pointer to it.\<close>

definition update_task :: "ptr \<Rightarrow> (task \<Rightarrow> task) \<Rightarrow> kernel \<Rightarrow> kernel run" where
  "update_task p f s = (case tasks s p of
       None \<Rightarrow> Inl (Undefined ''bad pointer'')
     | Some t \<Rightarrow> Inr (s\<lparr>tasks := (tasks s)(p \<mapsto> f t)\<rparr>))"

definition read_task :: "ptr \<Rightarrow> kernel \<Rightarrow> task run" where
  "read_task p s = (case tasks s p of None \<Rightarrow> Inl (Undefined ''bad pointer'') | Some t \<Rightarrow> Inr t)"

lemma get_cpu_index_less: "get_cpu_index s < CPU_COUNT"
proof -
  have "drop_bit 13 (prid s) AND 1 \<le> 1" by (rule word_and_le1)
  then show ?thesis by (simp add: get_cpu_index_def CPU_COUNT_def word_le_nat_alt)
qed

lemma get_set_cpu_context [simp]:
  "get_cpu_context (set_cpu_context c s) = c"
  "get_cpu_index (set_cpu_context c s) = get_cpu_index s"
  "set_cpu_context c (set_cpu_context c' s) = set_cpu_context c s"
  by (simp_all add: get_cpu_context_def set_cpu_context_def get_cpu_index_def)

lemma set_cpu_context_frame [simp]:
  "tasks (set_cpu_context c s) = tasks s"
  "dport (set_cpu_context c s) = dport s"
  "pidctrl (set_cpu_context c s) = pidctrl s"
  "timg (set_cpu_context c s) = timg s"
  "mem (set_cpu_context c s) = mem s"
  "m_global_run_queue (set_cpu_context c s) = m_global_run_queue s"
  "m_global_run_queue_size (set_cpu_context c s) = m_global_run_queue_size s"
  "umem (set_cpu_context c s) = umem s"
  "prid (set_cpu_context c s) = prid s"
  "m_pid_gen (set_cpu_context c s) = m_pid_gen s"
  "console (set_cpu_context c s) = console s"
  by (simp_all add: set_cpu_context_def)

lemma cpu_frame [simp]:
  "get_cpu_index (s\<lparr>tasks := ts\<rparr>) = get_cpu_index s"
  "get_cpu_index (s\<lparr>dport := d\<rparr>) = get_cpu_index s"
  "get_cpu_index (s\<lparr>pidctrl := x\<rparr>) = get_cpu_index s"
  "get_cpu_index (s\<lparr>timg := t\<rparr>) = get_cpu_index s"
  "get_cpu_index (s\<lparr>mem := m\<rparr>) = get_cpu_index s"
  "get_cpu_index (s\<lparr>m_global_run_queue := q\<rparr>) = get_cpu_index s"
  "get_cpu_index (s\<lparr>m_global_run_queue_size := n\<rparr>) = get_cpu_index s"
  "get_cpu_index (s\<lparr>umem := u\<rparr>) = get_cpu_index s"
  "get_cpu_index (s\<lparr>m_pid_gen := g\<rparr>) = get_cpu_index s"
  "get_cpu_index (s\<lparr>console := cs\<rparr>) = get_cpu_index s"
  "get_cpu_context (s\<lparr>tasks := ts\<rparr>) = get_cpu_context s"
  "get_cpu_context (s\<lparr>dport := d\<rparr>) = get_cpu_context s"
  "get_cpu_context (s\<lparr>pidctrl := x\<rparr>) = get_cpu_context s"
  "get_cpu_context (s\<lparr>timg := t\<rparr>) = get_cpu_context s"
  "get_cpu_context (s\<lparr>mem := m\<rparr>) = get_cpu_context s"
  "get_cpu_context (s\<lparr>m_global_run_queue := q\<rparr>) = get_cpu_context s"
  "get_cpu_context (s\<lparr>m_global_run_queue_size := n\<rparr>) = get_cpu_context s"
  "get_cpu_context (s\<lparr>umem := u\<rparr>) = get_cpu_context s"
  "get_cpu_context (s\<lparr>m_pid_gen := g\<rparr>) = get_cpu_context s"
  "get_cpu_context (s\<lparr>console := cs\<rparr>) = get_cpu_context s"
  by (simp_all add: get_cpu_index_def get_cpu_context_def)

lemma update_task_eq_Inr [run_simps]:
  "update_task p f s = Inr s' \<longleftrightarrow>
     (\<exists>t. tasks s p = Some t \<and> s' = s\<lparr>tasks := (tasks s)(p \<mapsto> f t)\<rparr>)"
  by (auto simp: update_task_def split: option.splits)

lemma read_task_eq_Inr [run_simps]: "read_task p s = Inr t \<longleftrightarrow> tasks s p = Some t"
  by (auto simp: read_task_def split: option.splits)

lemma update_task_Some [simp]:
  "tasks s p = Some t \<Longrightarrow> update_task p f s = Inr (s\<lparr>tasks := (tasks s)(p \<mapsto> f t)\<rparr>)"
  by (simp add: update_task_def)

lemma read_task_Some [simp]: "tasks s p = Some t \<Longrightarrow> read_task p s = Inr t"
  by (simp add: read_task_def)

end
