(* ===== verification/Printf.thy ===== *)
theory Printf
  imports Prelude
begin

section \<open>Formatted output\<close>

text \<open>
  \<^verbatim>\<open>util/printf.c\<close>: the formatter behind \<^verbatim>\<open>TRACE\<close>, \<^verbatim>\<open>vsnprintf\<close> and the
  log system call. The output function is a parameter, as in the code: it takes the character,
  the buffer, the index and the limit, and returns the buffer's new state. A format string and
  a \<^verbatim>\<open>%s\<close> argument are the characters before the terminating zero. On this target
  \<^verbatim>\<open>int\<close>, \<^verbatim>\<open>long\<close>, \<^verbatim>\<open>size_t\<close> and pointers have 32 bits and plain
  \<^verbatim>\<open>char\<close> is unsigned.
\<close>

subsection \<open>Flags, arguments, output functions\<close>

definition FLAGS_ZEROPAD :: u32 where "FLAGS_ZEROPAD = 1"
definition FLAGS_LEFT :: u32 where "FLAGS_LEFT = 2"
definition FLAGS_PLUS :: u32 where "FLAGS_PLUS = 4"
definition FLAGS_SPACE :: u32 where "FLAGS_SPACE = 8"
definition FLAGS_HASH :: u32 where "FLAGS_HASH = 16"
definition FLAGS_UPPERCASE :: u32 where "FLAGS_UPPERCASE = 32"
definition FLAGS_CHAR :: u32 where "FLAGS_CHAR = 64"
definition FLAGS_SHORT :: u32 where "FLAGS_SHORT = 128"
definition FLAGS_LONG :: u32 where "FLAGS_LONG = 256"
definition FLAGS_LONG_LONG :: u32 where "FLAGS_LONG_LONG = 512"
definition FLAGS_PRECISION :: u32 where "FLAGS_PRECISION = 1024"

lemmas FLAGS_defs = FLAGS_ZEROPAD_def FLAGS_LEFT_def FLAGS_PLUS_def FLAGS_SPACE_def FLAGS_HASH_def
  FLAGS_UPPERCASE_def FLAGS_CHAR_def FLAGS_SHORT_def FLAGS_LONG_def FLAGS_LONG_LONG_def
  FLAGS_PRECISION_def

definition has :: "u32 \<Rightarrow> u32 \<Rightarrow> bool" where
  "has flags f \<longleftrightarrow> flags AND f \<noteq> 0"

definition PRINTF_NTOA_BUFFER_SIZE :: nat where "PRINTF_NTOA_BUFFER_SIZE = 65"

datatype va = VInt u32 | VLongLong u64 | VStr "string option"

type_synonym 'b out_fct = "char \<Rightarrow> 'b \<Rightarrow> u32 \<Rightarrow> u32 \<Rightarrow> 'b"

abbreviation NUL :: char where "NUL \<equiv> CHR 0x00"

text \<open>\<^verbatim>\<open>_out_buffer\<close> writes to memory at \<open>base\<close>; \<^verbatim>\<open>_out_char\<close> appends to the console.\<close>

definition out_buffer :: "u32 \<Rightarrow> (u32 \<Rightarrow> u8) out_fct" where
  "out_buffer base character m idx maxlen =
     (if idx < maxlen then m(base + idx := of_char character) else m)"

definition out_null :: "'b out_fct" where
  "out_null character b idx maxlen = b"

definition out_char :: "string out_fct" where
  "out_char character con idx maxlen = (if character \<noteq> NUL then con @ [character] else con)"

definition out_fct :: "(char \<Rightarrow> 'b \<Rightarrow> 'b) \<Rightarrow> 'b out_fct" where
  "out_fct fct character b idx maxlen = (if character \<noteq> NUL then fct character b else b)"

text \<open>\<^verbatim>\<open>out(c, buffer, idx++, maxlen)\<close> on the pair of buffer and index.\<close>

definition emit :: "'b out_fct \<Rightarrow> u32 \<Rightarrow> char \<Rightarrow> 'b \<times> u32 \<Rightarrow> 'b \<times> u32" where
  "emit out maxlen c st = (out c (fst st) (snd st) maxlen, snd st + 1)"

subsection \<open>Strings\<close>

definition is_digit :: "char \<Rightarrow> bool" where
  "is_digit ch \<longleftrightarrow> (of_char ch :: nat) \<ge> 48 \<and> (of_char ch :: nat) \<le> 57"

text \<open>\<^verbatim>\<open>_strnlen_s\<close>: the length up to the terminator, at most \<^verbatim>\<open>maxsize\<close>.\<close>

fun strnlen_s :: "string \<Rightarrow> u32 \<Rightarrow> u32" where
  "strnlen_s [] maxsize = 0"
| "strnlen_s (c # s) maxsize =
     (if c \<noteq> NUL \<and> maxsize \<noteq> 0 then strnlen_s s (maxsize - 1) + 1 else 0)"

fun atoi :: "string \<Rightarrow> u32 \<Rightarrow> u32 \<times> string" where
  "atoi [] i = (i, [])"
| "atoi (c # s) i = (if is_digit c then atoi s (i * 10 + (of_nat (of_char c) - 48)) else (i, c # s))"

subsection \<open>Numbers\<close>

text \<open>The loop \<^verbatim>\<open>while (l < width) { out(' ', ...); l++; }\<close> in its three spellings.\<close>

function pad_spaces :: "'b out_fct \<Rightarrow> u32 \<Rightarrow> u32 \<Rightarrow> u32 \<Rightarrow> 'b \<times> u32 \<Rightarrow> 'b \<times> u32" where
  "pad_spaces out maxlen l width st =
     (if l < width then pad_spaces out maxlen (l + 1) width (emit out maxlen CHR '' '' st) else st)"
  by pat_completeness auto
termination
proof (relation "measure (\<lambda>(out, maxlen, l, width, st). unat width - unat l)", simp, goal_cases)
  case (1 out maxlen l width st)
  then have "unat l < unat width" by (simp add: word_less_nat_alt)
  with 1 show ?case by (simp add: unat_Suc_less)
qed

declare pad_spaces.simps [simp del]

text \<open>The number buffer is the list of its first \<^verbatim>\<open>len\<close> characters, lowest digit first.\<close>

fun out_reverse :: "'b out_fct \<Rightarrow> u32 \<Rightarrow> string \<Rightarrow> 'b \<times> u32 \<Rightarrow> 'b \<times> u32" where
  "out_reverse out maxlen [] st = st"
| "out_reverse out maxlen (c # buf) st = emit out maxlen c (out_reverse out maxlen buf st)"

definition out_rev :: "'b out_fct \<Rightarrow> u32 \<Rightarrow> string \<Rightarrow> u32 \<Rightarrow> u32 \<Rightarrow> 'b \<times> u32 \<Rightarrow> 'b \<times> u32" where
  "out_rev out maxlen buf width flags st =
     (let start_idx = snd st;
          st1 = (if \<not> has flags FLAGS_LEFT \<and> \<not> has flags FLAGS_ZEROPAD
                 then pad_spaces out maxlen (of_nat (length buf)) width st else st);
          st2 = out_reverse out maxlen buf st1
      in if has flags FLAGS_LEFT then pad_spaces out maxlen (snd st2 - start_idx) width st2 else st2)"

text \<open>The two zero-padding loops of \<^verbatim>\<open>_ntoa_format\<close>.\<close>

function zero_pad :: "u32 \<Rightarrow> string \<Rightarrow> string" where
  "zero_pad n buf = (if of_nat (length buf) < n \<and> length buf < PRINTF_NTOA_BUFFER_SIZE
     then zero_pad n (buf @ ''0'') else buf)"
  by pat_completeness auto
termination
  by (relation "measure (\<lambda>(n, buf). PRINTF_NTOA_BUFFER_SIZE - length buf)") auto

declare zero_pad.simps [simp del]

definition push_char :: "char \<Rightarrow> string \<Rightarrow> string" where
  "push_char c buf = (if length buf < PRINTF_NTOA_BUFFER_SIZE then buf @ [c] else buf)"

definition hash_prefix :: "u32 \<Rightarrow> u32 \<Rightarrow> u32 \<Rightarrow> u32 \<Rightarrow> string \<Rightarrow> string" where
  "hash_prefix base prec width flags buf =
     (let len = of_nat (length buf) :: u32;
          buf1 = (if \<not> has flags FLAGS_PRECISION \<and> len \<noteq> 0 \<and> (len = prec \<or> len = width)
                  then let b = butlast buf in if b \<noteq> [] \<and> base = 16 then butlast b else b
                  else buf);
          buf2 = (if base = 16 \<and> \<not> has flags FLAGS_UPPERCASE then push_char CHR ''x'' buf1
                  else if base = 16 \<and> has flags FLAGS_UPPERCASE then push_char CHR ''X'' buf1
                  else if base = 2 then push_char CHR ''b'' buf1 else buf1)
      in push_char CHR ''0'' buf2)"

text \<open>The buffer \<^verbatim>\<open>_ntoa_format\<close> builds, and the width it hands on.\<close>

definition ntoa_buffer :: "string \<Rightarrow> bool \<Rightarrow> u32 \<Rightarrow> u32 \<Rightarrow> u32 \<Rightarrow> u32 \<Rightarrow> string \<times> u32" where
  "ntoa_buffer buf negative base prec width flags =
     (let width1 = (if \<not> has flags FLAGS_LEFT \<and> width \<noteq> 0 \<and> has flags FLAGS_ZEROPAD \<and>
                       (negative \<or> has flags (FLAGS_PLUS OR FLAGS_SPACE)) then width - 1 else width);
          buf1 = (if \<not> has flags FLAGS_LEFT
                  then let b = zero_pad prec buf in
                       if has flags FLAGS_ZEROPAD then zero_pad width1 b else b
                  else buf);
          buf2 = (if has flags FLAGS_HASH then hash_prefix base prec width1 flags buf1 else buf1);
          buf3 = (if negative then push_char CHR ''-'' buf2
                  else if has flags FLAGS_PLUS then push_char CHR ''+'' buf2
                  else if has flags FLAGS_SPACE then push_char CHR '' '' buf2 else buf2)
      in (buf3, width1))"

definition ntoa_format :: "'b out_fct \<Rightarrow> u32 \<Rightarrow> string \<Rightarrow> bool \<Rightarrow> u32 \<Rightarrow> u32 \<Rightarrow> u32 \<Rightarrow> u32 \<Rightarrow> 'b \<times> u32 \<Rightarrow> 'b \<times> u32" where
  "ntoa_format out maxlen buf negative base prec width flags st =
     (let (buf', width') = ntoa_buffer buf negative base prec width flags
      in out_rev out maxlen buf' width' flags st)"

definition digit_char :: "u32 \<Rightarrow> nat \<Rightarrow> char" where
  "digit_char flags digit = char_of (if digit < 10 then 48 + digit
     else (if has flags FLAGS_UPPERCASE then 65 else 97) + digit - 10)"

text \<open>
  The conversion loop, for either width of \<^verbatim>\<open>value\<close>: \<^verbatim>\<open>_ntoa_long\<close> and
  \<^verbatim>\<open>_ntoa_long_long\<close> are the same text at 32 and at 64 bits.
\<close>

function ntoa_loop :: "'a::len word \<Rightarrow> 'a word \<Rightarrow> u32 \<Rightarrow> string \<Rightarrow> string" where
  "ntoa_loop value base flags buf =
     (let buf' = buf @ [digit_char flags (unat (value mod base))];
          value' = value div base
      in if value' \<noteq> 0 \<and> length buf' < PRINTF_NTOA_BUFFER_SIZE
         then ntoa_loop value' base flags buf' else buf')"
  by pat_completeness auto
termination
  by (relation "measure (\<lambda>(value, base, flags, buf). PRINTF_NTOA_BUFFER_SIZE - length buf)") auto

declare ntoa_loop.simps [simp del]

definition ntoa_digits :: "'a::len word \<Rightarrow> 'a word \<Rightarrow> u32 \<Rightarrow> string" where
  "ntoa_digits value base flags =
     (if \<not> has flags FLAGS_PRECISION \<or> value \<noteq> 0 then ntoa_loop value base flags [] else [])"

definition ntoa_long :: "'b out_fct \<Rightarrow> u32 \<Rightarrow> u32 \<Rightarrow> bool \<Rightarrow> u32 \<Rightarrow> u32 \<Rightarrow> u32 \<Rightarrow> u32 \<Rightarrow> 'b \<times> u32 \<Rightarrow> 'b \<times> u32" where
  "ntoa_long out maxlen value negative base prec width flags st =
     (let flags1 = (if value = 0 then flags AND NOT FLAGS_HASH else flags)
      in ntoa_format out maxlen (ntoa_digits value base flags1) negative base prec width flags1 st)"

definition ntoa_long_long :: "'b out_fct \<Rightarrow> u32 \<Rightarrow> u64 \<Rightarrow> bool \<Rightarrow> u64 \<Rightarrow> u32 \<Rightarrow> u32 \<Rightarrow> u32 \<Rightarrow> 'b \<times> u32 \<Rightarrow> 'b \<times> u32" where
  "ntoa_long_long out maxlen value negative base prec width flags st =
     (let flags1 = (if value = 0 then flags AND NOT FLAGS_HASH else flags)
      in ntoa_format out maxlen (ntoa_digits value base flags1) negative (ucast base) prec width flags1 st)"

subsection \<open>Conversion specifications\<close>

fun va_int :: "va list \<Rightarrow> (u32 \<times> va list) run" where
  "va_int (VInt w # va) = Inr (w, va)"
| "va_int _ = Inl (Undefined ''va_arg'')"

fun va_long_long :: "va list \<Rightarrow> (u64 \<times> va list) run" where
  "va_long_long (VLongLong w # va) = Inr (w, va)"
| "va_long_long _ = Inl (Undefined ''va_arg'')"

fun va_str :: "va list \<Rightarrow> (string option \<times> va list) run" where
  "va_str (VStr s # va) = Inr (s, va)"
| "va_str _ = Inl (Undefined ''va_arg'')"

fun parse_flags :: "string \<Rightarrow> u32 \<Rightarrow> u32 \<times> string" where
  "parse_flags [] flags = (flags, [])"
| "parse_flags (c # fmt) flags =
     (if c = CHR ''0'' then parse_flags fmt (flags OR FLAGS_ZEROPAD)
      else if c = CHR ''-'' then parse_flags fmt (flags OR FLAGS_LEFT)
      else if c = CHR ''+'' then parse_flags fmt (flags OR FLAGS_PLUS)
      else if c = CHR '' '' then parse_flags fmt (flags OR FLAGS_SPACE)
      else if c = CHR ''#'' then parse_flags fmt (flags OR FLAGS_HASH)
      else (flags, c # fmt))"

text \<open>\<^verbatim>\<open>*format\<close>: the terminating zero when the string is used up.\<close>

fun peek :: "string \<Rightarrow> char" where
  "peek [] = NUL"
| "peek (c # s) = c"

definition parse_width :: "string \<Rightarrow> u32 \<Rightarrow> va list \<Rightarrow> (u32 \<times> u32 \<times> string \<times> va list) run" where
  "parse_width fmt flags va =
     (if is_digit (peek fmt) then let (w, rest) = atoi fmt 0 in Inr (flags, w, rest, va)
      else if peek fmt = CHR ''*'' then
        andthen (va_int va) (\<lambda>(w, va').
          if sint w < 0 then Inr (flags OR FLAGS_LEFT, - w, tl fmt, va')
          else Inr (flags, w, tl fmt, va'))
      else Inr (flags, 0, fmt, va))"

definition parse_precision :: "string \<Rightarrow> u32 \<Rightarrow> va list \<Rightarrow> (u32 \<times> u32 \<times> string \<times> va list) run" where
  "parse_precision fmt flags va =
     (if peek fmt = CHR ''.'' then
        let flags1 = flags OR FLAGS_PRECISION; fmt1 = tl fmt in
        if is_digit (peek fmt1) then let (p, rest) = atoi fmt1 0 in Inr (flags1, p, rest, va)
        else if peek fmt1 = CHR ''*'' then
          andthen (va_int va) (\<lambda>(p, va').
            Inr (flags1, if sint p > 0 then p else 0, tl fmt1, va'))
        else Inr (flags1, 0, fmt1, va)
      else Inr (flags, 0, fmt, va))"

text \<open>\<^verbatim>\<open>ptrdiff_t\<close> and \<^verbatim>\<open>size_t\<close> are as wide as \<^verbatim>\<open>long\<close>, \<^verbatim>\<open>intmax_t\<close> is not.\<close>

definition parse_length :: "string \<Rightarrow> u32 \<Rightarrow> u32 \<times> string" where
  "parse_length fmt flags =
     (if peek fmt = CHR ''l'' then
        (if peek (tl fmt) = CHR ''l'' then (flags OR FLAGS_LONG OR FLAGS_LONG_LONG, tl (tl fmt))
         else (flags OR FLAGS_LONG, tl fmt))
      else if peek fmt = CHR ''h'' then
        (if peek (tl fmt) = CHR ''h'' then (flags OR FLAGS_SHORT OR FLAGS_CHAR, tl (tl fmt))
         else (flags OR FLAGS_SHORT, tl fmt))
      else if peek fmt = CHR ''t'' then (flags OR FLAGS_LONG, tl fmt)
      else if peek fmt = CHR ''j'' then (flags OR FLAGS_LONG_LONG, tl fmt)
      else if peek fmt = CHR ''z'' then (flags OR FLAGS_LONG, tl fmt)
      else (flags, fmt))"

definition parse_spec :: "string \<Rightarrow> va list \<Rightarrow> (u32 \<times> u32 \<times> u32 \<times> string \<times> va list) run" where
  "parse_spec fmt va =
     (let (flags, fmt1) = parse_flags fmt 0 in
      andthen (parse_width fmt1 flags va) (\<lambda>(flags, width, fmt2, va1).
      andthen (parse_precision fmt2 flags va1) (\<lambda>(flags, precision, fmt3, va2).
      let (flags, fmt4) = parse_length fmt3 flags in
      Inr (flags, width, precision, fmt4, va2))))"

subsection \<open>Conversions\<close>

definition absolute :: "'a::len word \<Rightarrow> 'a word" where
  "absolute v = (if sint v > 0 then v else 0 - v)"

text \<open>The integer specifiers. \<open>d\<close> is the specifier character.\<close>

definition int_base :: "char \<Rightarrow> u32" where
  "int_base d = (if d = CHR ''x'' \<or> d = CHR ''X'' then 16
     else if d = CHR ''o'' then 8 else if d = CHR ''b'' then 2 else 10)"

definition int_flags :: "char \<Rightarrow> u32 \<Rightarrow> u32" where
  "int_flags d flags =
     (let f1 = (if int_base d = 10 then flags AND NOT FLAGS_HASH else flags);
          f2 = (if d = CHR ''X'' then f1 OR FLAGS_UPPERCASE else f1);
          f3 = (if d \<noteq> CHR ''i'' \<and> d \<noteq> CHR ''d'' then f2 AND NOT (FLAGS_PLUS OR FLAGS_SPACE) else f2)
      in if has f3 FLAGS_PRECISION then f3 AND NOT FLAGS_ZEROPAD else f3)"

definition convert_int ::
    "'b out_fct \<Rightarrow> u32 \<Rightarrow> char \<Rightarrow> u32 \<Rightarrow> u32 \<Rightarrow> u32 \<Rightarrow> va list \<Rightarrow> 'b \<times> u32 \<Rightarrow> (va list \<times> 'b \<times> u32) run" where
  "convert_int out maxlen d flags width precision va st =
     (let base = int_base d; flags = int_flags d flags in
      if d = CHR ''i'' \<or> d = CHR ''d'' then
        (if has flags FLAGS_LONG_LONG then
           andthen (va_long_long va) (\<lambda>(value, va').
             Inr (va', ntoa_long_long out maxlen (absolute value) (sint value < 0) (ucast base)
                         precision width flags st))
         else andthen (va_int va) (\<lambda>(arg, va').
           let value = (if has flags FLAGS_LONG then arg
                        else if has flags FLAGS_CHAR then ucast (ucast arg :: u8)
                        else if has flags FLAGS_SHORT then scast (ucast arg :: u16) else arg)
           in Inr (va', ntoa_long out maxlen (absolute value) (sint value < 0) base
                          precision width flags st)))
      else
        (if has flags FLAGS_LONG_LONG then
           andthen (va_long_long va) (\<lambda>(value, va').
             Inr (va', ntoa_long_long out maxlen value False (ucast base) precision width flags st))
         else andthen (va_int va) (\<lambda>(arg, va').
           let value = (if has flags FLAGS_LONG then arg
                        else if has flags FLAGS_CHAR then ucast (ucast arg :: u8)
                        else if has flags FLAGS_SHORT then ucast (ucast arg :: u16) else arg)
           in Inr (va', ntoa_long out maxlen value False base precision width flags st))))"

text \<open>
  The copying loop of \<^verbatim>\<open>%s\<close>, \<^verbatim>\<open>%R\<close> and \<^verbatim>\<open>%S\<close>:
  \<^verbatim>\<open>while (*p != 0 && (!(flags & FLAGS_PRECISION) || precision--))\<close>.
\<close>

fun out_string :: "'b out_fct \<Rightarrow> u32 \<Rightarrow> string \<Rightarrow> u32 \<Rightarrow> u32 \<Rightarrow> 'b \<times> u32 \<Rightarrow> 'b \<times> u32" where
  "out_string out maxlen [] flags precision st = st"
| "out_string out maxlen (c # p) flags precision st =
     (if c \<noteq> NUL \<and> (\<not> has flags FLAGS_PRECISION \<or> precision \<noteq> 0)
      then out_string out maxlen p flags
             (if has flags FLAGS_PRECISION then precision - 1 else precision) (emit out maxlen c st)
      else st)"

definition convert_string ::
    "'b out_fct \<Rightarrow> u32 \<Rightarrow> string \<Rightarrow> u32 \<Rightarrow> u32 \<Rightarrow> u32 \<Rightarrow> 'b \<times> u32 \<Rightarrow> 'b \<times> u32" where
  "convert_string out maxlen p flags width precision st =
     (let l0 = strnlen_s p (if precision \<noteq> 0 then precision else - 1);
          l = (if has flags FLAGS_PRECISION then (if l0 < precision then l0 else precision) else l0);
          st1 = (if \<not> has flags FLAGS_LEFT then pad_spaces out maxlen l width st else st);
          st2 = out_string out maxlen p flags precision st1
      in if has flags FLAGS_LEFT then pad_spaces out maxlen l width st2 else st2)"

definition convert_char :: "'b out_fct \<Rightarrow> u32 \<Rightarrow> char \<Rightarrow> u32 \<Rightarrow> u32 \<Rightarrow> 'b \<times> u32 \<Rightarrow> 'b \<times> u32" where
  "convert_char out maxlen c flags width st =
     (let st1 = (if \<not> has flags FLAGS_LEFT then pad_spaces out maxlen 1 width st else st);
          st2 = emit out maxlen c st1
      in if has flags FLAGS_LEFT then pad_spaces out maxlen 1 width st2 else st2)"

text \<open>
  \<^verbatim>\<open>%S\<close>, a size. \<open>size_scale\<close> is its division loop on \<open>(i, div, rem)\<close>; the index into
  \<^verbatim>\<open>sizes\<close> is checked. The part after the point is printed from \<open>i\<close>, as the code does.
\<close>

definition size_units :: "string list" where
  "size_units = [''B'', ''KB'', ''MB'', ''GB'', ''TB'']"

function size_scale :: "u32 \<Rightarrow> nat \<Rightarrow> u32 \<Rightarrow> u32 \<times> nat \<times> u32" where
  "size_scale i dv rem =
     (if i \<ge> 1024 \<and> dv < length size_units
      then size_scale (i div 1024) (Suc dv) (i mod 1024) else (i, dv, rem))"
  by pat_completeness auto
termination by (relation "measure (\<lambda>(i, dv, rem). length size_units - dv)") auto

declare size_scale.simps [simp del]

definition convert_size :: "'b out_fct \<Rightarrow> u32 \<Rightarrow> u32 \<Rightarrow> u32 \<Rightarrow> u32 \<Rightarrow> u32 \<Rightarrow> 'b \<times> u32 \<Rightarrow> ('b \<times> u32) run" where
  "convert_size out maxlen n flags width precision st =
     (let (i, dv, rem) = size_scale n 0 0;
          st1 = ntoa_long out maxlen i False 10 precision width flags st;
          st2 = (if rem * 100 div 1024 \<noteq> 0
                 then ntoa_long out maxlen i False 10 precision width flags (emit out maxlen CHR ''.'' st1)
                 else st1)
      in if dv < length size_units
         then Inr (out_string out maxlen (size_units ! dv) flags precision st2)
         else Inl (Undefined ''sizes index''))"

definition err_name :: "u32 \<Rightarrow> string" where
  "err_name e = (if e = err_code ERROR_CHECK_FAILED then ''ERROR_CHECK_FAILED'' else ''(unknown error)'')"

definition convert ::
    "'b out_fct \<Rightarrow> u32 \<Rightarrow> char \<Rightarrow> u32 \<Rightarrow> u32 \<Rightarrow> u32 \<Rightarrow> va list \<Rightarrow> 'b \<times> u32 \<Rightarrow> (va list \<times> 'b \<times> u32) run" where
  "convert out maxlen d flags width precision va st =
     (if d \<in> {CHR ''d'', CHR ''i'', CHR ''u'', CHR ''x'', CHR ''X'', CHR ''o'', CHR ''b''}
      then convert_int out maxlen d flags width precision va st
      else if d = CHR ''c'' then andthen (va_int va) (\<lambda>(c, va').
        Inr (va', convert_char out maxlen (char_of (unat c)) flags width st))
      else if d = CHR ''S'' then andthen (va_int va) (\<lambda>(n, va').
        andthen (convert_size out maxlen n flags width precision st) (\<lambda>st'. Inr (va', st')))
      else if d = CHR ''R'' then andthen (va_int va) (\<lambda>(e, va').
        Inr (va', convert_string out maxlen (err_name e) flags width precision st))
      else if d = CHR ''s'' then andthen (va_str va) (\<lambda>(p, va').
        Inr (va', convert_string out maxlen (case p of None \<Rightarrow> ''(null)'' | Some s \<Rightarrow> s)
                    flags width precision st))
      else if d = CHR ''p'' then andthen (va_int va) (\<lambda>(p, va').
        Inr (va', ntoa_long out maxlen p False 16 precision 8
                    (flags OR FLAGS_ZEROPAD OR FLAGS_UPPERCASE) st))
      else Inr (va, emit out maxlen d st))"

subsection \<open>The main loop\<close>

lemma length_atoi: "length (snd (atoi s i)) \<le> length s"
  by (induction s i rule: atoi.induct) auto

lemma length_parse_flags: "length (snd (parse_flags s f)) \<le> length s"
  by (induction s f rule: parse_flags.induct) auto

lemma length_parse_width:
  "parse_width s f va = Inr (f', w, s', va') \<Longrightarrow> length s' \<le> length s"
  using length_atoi [of s 0]
  by (auto simp: parse_width_def andthen_eq_Inr split: if_splits prod.splits)

lemma length_parse_precision:
  "parse_precision s f va = Inr (f', p, s', va') \<Longrightarrow> length s' \<le> length s"
  using length_atoi [of "tl s" 0]
  by (fastforce simp: parse_precision_def andthen_eq_Inr Let_def split: if_splits prod.splits)

lemma length_parse_length: "length (snd (parse_length s f)) \<le> length s"
  by (simp add: parse_length_def)

lemma length_parse_spec:
  assumes "parse_spec s va = Inr (f, w, p, s', va')"
  shows "length s' \<le> length s"
proof -
  obtain f1 s1 where 1: "parse_flags s 0 = (f1, s1)" by fastforce
  from assms obtain f2 w2 s2 va2 f3 p3 s3 va3
    where 2: "parse_width s1 f1 va = Inr (f2, w2, s2, va2)"
      and 3: "parse_precision s2 f2 va2 = Inr (f3, p3, s3, va3)"
      and 4: "s' = snd (parse_length s3 f3)"
    by (auto simp: parse_spec_def 1 andthen_eq_Inr split: prod.splits) (metis prod.collapse)
  from 1 have "length s1 \<le> length s" using length_parse_flags [of s 0] by simp
  with length_parse_width [OF 2] length_parse_precision [OF 3] length_parse_length [of s3 f3] 4
  show ?thesis by simp
qed

text \<open>
  A \<^verbatim>\<open>%\<close> whose specification is cut off by the end of the format reads past it.
\<close>

function format_loop :: "'b out_fct \<Rightarrow> u32 \<Rightarrow> string \<Rightarrow> va list \<Rightarrow> 'b \<times> u32 \<Rightarrow> ('b \<times> u32) run" where
  "format_loop out maxlen [] va st = Inr st"
| "format_loop out maxlen (c # fmt) va st =
     (if c \<noteq> CHR ''%'' then format_loop out maxlen fmt va (emit out maxlen c st)
      else andthen (parse_spec fmt va) (\<lambda>(flags, width, precision, fmt', va').
        case fmt' of
          [] \<Rightarrow> Inl (Undefined ''format'')
        | d # fmt'' \<Rightarrow> andthen (convert out maxlen d flags width precision va' st)
            (\<lambda>(va'', st'). format_loop out maxlen fmt'' va'' st')))"
  by pat_completeness auto
termination
  by (relation "measure (\<lambda>(out, maxlen, fmt, va, st). length fmt)")
    (auto dest: length_parse_spec)

definition vsnprintf_core :: "'b out_fct \<Rightarrow> bool \<Rightarrow> 'b \<Rightarrow> u32 \<Rightarrow> string \<Rightarrow> va list \<Rightarrow> ('b \<times> u32) run" where
  "vsnprintf_core out buffer_is_null b maxlen fmt va =
     (let out1 = (if buffer_is_null then out_null else out)
      in andthen (format_loop out1 maxlen fmt va (b, 0)) (\<lambda>(b1, idx).
         Inr (out1 NUL b1 (if idx < maxlen then idx else maxlen - 1) maxlen, idx)))"

definition printf :: "string \<Rightarrow> va list \<Rightarrow> string \<Rightarrow> (string \<times> u32) run" where
  "printf fmt va con = vsnprintf_core out_char False con (- 1) fmt va"

definition vsnprintf :: "u32 \<Rightarrow> u32 \<Rightarrow> string \<Rightarrow> va list \<Rightarrow> (u32 \<Rightarrow> u8) \<Rightarrow> ((u32 \<Rightarrow> u8) \<times> u32) run" where
  "vsnprintf buffer count fmt va m = vsnprintf_core (out_buffer buffer) (buffer = 0) m count fmt va"

definition sprintf :: "u32 \<Rightarrow> string \<Rightarrow> va list \<Rightarrow> (u32 \<Rightarrow> u8) \<Rightarrow> ((u32 \<Rightarrow> u8) \<times> u32) run" where
  "sprintf buffer fmt va m = vsnprintf_core (out_buffer buffer) (buffer = 0) m (- 1) fmt va"

definition vfctprintf :: "(char \<Rightarrow> 'b \<Rightarrow> 'b) \<Rightarrow> string \<Rightarrow> va list \<Rightarrow> 'b \<Rightarrow> ('b \<times> u32) run" where
  "vfctprintf fct fmt va b = vsnprintf_core (out_fct fct) False b (- 1) fmt va"

definition snprintf :: "u32 \<Rightarrow> u32 \<Rightarrow> string \<Rightarrow> va list \<Rightarrow> (u32 \<Rightarrow> u8) \<Rightarrow> ((u32 \<Rightarrow> u8) \<times> u32) run" where
  "snprintf buffer count fmt va m = vsnprintf_core (out_buffer buffer) (buffer = 0) m count fmt va"

definition vprintf :: "string \<Rightarrow> va list \<Rightarrow> string \<Rightarrow> (string \<times> u32) run" where
  "vprintf fmt va con = vsnprintf_core out_char False con (- 1) fmt va"

definition fctprintf :: "(char \<Rightarrow> 'b \<Rightarrow> 'b) \<Rightarrow> string \<Rightarrow> va list \<Rightarrow> 'b \<Rightarrow> ('b \<times> u32) run" where
  "fctprintf fct fmt va b = vfctprintf fct fmt va b"

end
