(* ===== verification/Memory.thy ===== *)
theory Memory
  imports Prelude
begin

section \<open>Byte memory\<close>

text \<open>
  The flat 32-bit address space the kernel copies in, little endian. \<open>store_bytes\<close> and
  \<open>load_bytes\<close> are \<^verbatim>\<open>memcpy\<close>'s two halves; addresses wrap around as pointers do. The
  one fact every proof about memory uses is \<open>store_bytes_at\<close>: what an address holds after a
  store, by its offset from the store's start.
\<close>

type_synonym memory = "u32 \<Rightarrow> u8"

fun store_bytes :: "u32 \<Rightarrow> u8 list \<Rightarrow> memory \<Rightarrow> memory" where
  "store_bytes a [] m = m"
| "store_bytes a (b # bs) m = store_bytes (a + 1) bs (m(a := b))"

definition load_bytes :: "memory \<Rightarrow> u32 \<Rightarrow> nat \<Rightarrow> u8 list" where
  "load_bytes m a n = map (\<lambda>i. m (a + of_nat i)) [0..<n]"

definition memcpy :: "u32 \<Rightarrow> u32 \<Rightarrow> u32 \<Rightarrow> memory \<Rightarrow> memory" where
  "memcpy dst src n m = store_bytes dst (load_bytes m src (unat n)) m"

definition memset :: "u32 \<Rightarrow> u8 \<Rightarrow> nat \<Rightarrow> memory \<Rightarrow> memory" where
  "memset a v n m = store_bytes a (replicate n v) m"

definition bytes_of_word :: "u32 \<Rightarrow> u8 list" where
  "bytes_of_word w = [ucast w, ucast (drop_bit 8 w), ucast (drop_bit 16 w), ucast (drop_bit 24 w)]"

definition word_of_bytes :: "u8 list \<Rightarrow> u32" where
  "word_of_bytes bs = ucast (bs ! 0) OR push_bit 8 (ucast (bs ! 1)) OR
     push_bit 16 (ucast (bs ! 2)) OR push_bit 24 (ucast (bs ! 3))"

definition store32 :: "u32 \<Rightarrow> u32 \<Rightarrow> memory \<Rightarrow> memory" where
  "store32 a w m = store_bytes a (bytes_of_word w) m"

definition load32 :: "memory \<Rightarrow> u32 \<Rightarrow> u32" where
  "load32 m a = word_of_bytes (load_bytes m a 4)"

fun store_words :: "u32 \<Rightarrow> u32 list \<Rightarrow> memory \<Rightarrow> memory" where
  "store_words a [] m = m"
| "store_words a (w # ws) m = store_words (a + 4) ws (store32 a w m)"

definition load_words :: "memory \<Rightarrow> u32 \<Rightarrow> nat \<Rightarrow> u32 list" where
  "load_words m a n = map (\<lambda>i. load32 m (a + 4 * of_nat i)) [0..<n]"

text \<open>The \<open>n\<close> bytes from \<open>a\<close> on.\<close>

definition region :: "u32 \<Rightarrow> nat \<Rightarrow> u32 set" where
  "region a n = {x. unat (x - a) < n}"

subsection \<open>Loads after stores\<close>

lemma unat_of_nat_small [simp]: "n < 4294967296 \<Longrightarrow> unat (of_nat n :: u32) = n"
  by (simp add: unat_of_nat)

lemma store_bytes_at:
  "length bs \<le> 4294967296 \<Longrightarrow>
   store_bytes a bs m x = (if unat (x - a) < length bs then bs ! unat (x - a) else m x)"
proof (induction bs arbitrary: a m)
  case Nil
  show ?case by simp
next
  case (Cons b bs)
  have e: "x - (a + 1) = x - a - 1" by simp
  show ?case
  proof (cases "x = a")
    case True
    have "unat (- 1 :: u32) = 4294967295" by (simp add: unsigned_minus_1_eq_mask mask_eq_exp_minus_1)
    with True Cons show ?thesis by simp
  next
    case False
    then have "x - a \<noteq> 0" by simp
    then have "unat (x - a - 1) = unat (x - a) - 1" and "0 < unat (x - a)"
      by (simp_all add: unat_minus_one unat_gt_0)
    then show ?thesis using Cons.IH [of "a + 1"] Cons.prems False by (auto simp: e nth_Cons')
  qed
qed

lemma store_bytes_other [mem_simps]:
  "length bs \<le> 4294967296 \<Longrightarrow> x \<notin> region a (length bs) \<Longrightarrow> store_bytes a bs m x = m x"
  by (simp add: store_bytes_at region_def)

lemma load_store_bytes [mem_simps]:
  "length bs \<le> 4294967296 \<Longrightarrow> n = length bs \<Longrightarrow> load_bytes (store_bytes a bs m) a n = bs"
  by (auto simp: load_bytes_def store_bytes_at intro!: nth_equalityI)

lemma load_bytes_cong:
  "(\<And>x. x \<in> region a n \<Longrightarrow> m x = m' x) \<Longrightarrow> n \<le> 4294967296 \<Longrightarrow> load_bytes m a n = load_bytes m' a n"
  by (auto simp: load_bytes_def region_def)

lemma length_load_bytes [simp]: "length (load_bytes m a n) = n"
  by (simp add: load_bytes_def)

lemma nth_load_bytes [simp]: "i < n \<Longrightarrow> load_bytes m a n ! i = m (a + of_nat i)"
  by (simp add: load_bytes_def)

lemma length_bytes_of_word [simp]: "length (bytes_of_word w) = 4"
  by (simp add: bytes_of_word_def)

lemma word_of_bytes_of_word [simp]: "word_of_bytes (bytes_of_word w) = w"
proof (rule bit_word_eqI)
  fix n assume "n < LENGTH(32)"
  then have "n < 8 \<or> (8 \<le> n \<and> n < 16) \<or> (16 \<le> n \<and> n < 24) \<or> (24 \<le> n \<and> n < 32)" by auto
  then show "bit (word_of_bytes (bytes_of_word w)) n \<longleftrightarrow> bit w n"
    by (auto simp: word_of_bytes_def bytes_of_word_def bit_simps)
qed

lemma load_store32 [mem_simps]: "load32 (store32 a w m) a = w"
  by (simp add: load32_def store32_def load_store_bytes)

lemma store32_other [mem_simps]: "x \<notin> region a 4 \<Longrightarrow> store32 a w m x = m x"
  by (simp add: store32_def store_bytes_other)

lemma load32_cong: "(\<And>x. x \<in> region a 4 \<Longrightarrow> m x = m' x) \<Longrightarrow> load32 m a = load32 m' a"
  unfolding load32_def by (rule arg_cong, rule load_bytes_cong) auto

lemma store_bytes_append:
  "store_bytes a (bs @ cs) m = store_bytes (a + of_nat (length bs)) cs (store_bytes a bs m)"
  by (induction bs arbitrary: a m) (simp_all add: algebra_simps)

lemma store_words_bytes: "store_words a ws m = store_bytes a (concat (map bytes_of_word ws)) m"
  by (induction ws arbitrary: a m) (simp_all add: store32_def store_bytes_append)

lemma length_concat_bytes [simp]: "length (concat (map bytes_of_word ws)) = 4 * length ws"
  by (induction ws) simp_all

lemma nth_concat_bytes:
  "i < length ws \<Longrightarrow> j < 4 \<Longrightarrow> concat (map bytes_of_word ws) ! (4 * i + j) = bytes_of_word (ws ! i) ! j"
proof (induction ws arbitrary: i)
  case (Cons w ws)
  then show ?case by (cases i) (simp_all add: nth_append)
qed simp

lemma store_words_other [mem_simps]:
  "4 * length ws \<le> 4294967296 \<Longrightarrow> x \<notin> region a (4 * length ws) \<Longrightarrow> store_words a ws m x = m x"
  by (simp add: store_words_bytes store_bytes_other)

lemma load_store_words [mem_simps]:
  assumes "4 * length ws \<le> 4294967296"
  shows "load_words (store_words a ws m) a (length ws) = ws"
proof (rule nth_equalityI)
  fix i assume i: "i < length (load_words (store_words a ws m) a (length ws))"
  then have i: "i < length ws" by (simp add: load_words_def)
  let ?m = "store_words a ws m"
  have "load_bytes ?m (a + 4 * of_nat i) 4 = bytes_of_word (ws ! i)"
  proof (rule nth_equalityI)
    fix j assume "j < length (load_bytes ?m (a + 4 * of_nat i) 4)"
    then have j: "j < 4" by simp
    have "a + 4 * of_nat i + of_nat j - a = (of_nat (4 * i + j) :: u32)" by simp
    moreover have "4 * i + j < 4 * length ws" using i j by simp
    ultimately have "?m (a + 4 * of_nat i + of_nat j) = concat (map bytes_of_word ws) ! (4 * i + j)"
      using assms unfolding store_words_bytes
      by (subst store_bytes_at) (simp_all del: of_nat_add of_nat_mult)
    then show "load_bytes ?m (a + 4 * of_nat i) 4 ! j = bytes_of_word (ws ! i) ! j"
      using j i by (simp add: nth_concat_bytes)
  qed simp
  then show "load_words ?m a (length ws) ! i = ws ! i"
    using i by (simp add: load_words_def load32_def)
qed (simp add: load_words_def)

lemma load_words_cong:
  assumes "\<And>x. x \<in> region a (4 * n) \<Longrightarrow> m x = m' x" "4 * n \<le> 4294967296"
  shows "load_words m a n = load_words m' a n"
  unfolding load_words_def
proof (rule map_cong [OF refl])
  fix i assume "i \<in> set [0..<n]"
  then have i: "i < n" by simp
  show "load32 m (a + 4 * of_nat i) = load32 m' (a + 4 * of_nat i)"
  proof (rule load32_cong)
    fix x assume "x \<in> region (a + 4 * of_nat i) 4"
    then have d: "unat (x - (a + 4 * of_nat i)) < 4" by (simp add: region_def)
    let ?d = "unat (x - (a + 4 * of_nat i))"
    have "x - a = of_nat (4 * i + ?d)" by simp
    moreover have "4 * i + ?d < 4 * n" using i d by simp
    ultimately have "unat (x - a) < 4 * n" using assms(2) by (simp del: of_nat_add of_nat_mult)
    then show "m x = m' x" using assms(1) by (simp add: region_def)
  qed
qed

subsection \<open>Strings in memory\<close>

text \<open>The characters before the terminator; the bound is the whole address space.\<close>

fun cstring :: "nat \<Rightarrow> u32 \<Rightarrow> memory \<Rightarrow> string" where
  "cstring n a m = (if n = 0 \<or> m a = 0 then [] else char_of (unat (m a)) # cstring (n - 1) (a + 1) m)"

declare cstring.simps [simp del]

definition c_string :: "u32 \<Rightarrow> memory \<Rightarrow> string" where
  "c_string a m = cstring 4294967296 a m"

subsection \<open>Reading strings\<close>

lemma char_of_byte [simp]: "char_of (unat (of_char c :: u8)) = c"
proof -
  have "(of_char c :: u8) = of_nat (of_char c)" by (simp only: of_nat_of_char)
  moreover have "(of_char c :: nat) < 256" by simp
  ultimately have "unat (of_char c :: u8) = of_char c" by (simp only: unat_of_nat) simp
  then show ?thesis by simp
qed

lemma cstring_at:
  "(\<And>i. i < length cs \<Longrightarrow> m (a + of_nat i) = of_char (cs ! i)) \<Longrightarrow> m (a + of_nat (length cs)) = 0 \<Longrightarrow>
   (\<And>c. c \<in> set cs \<Longrightarrow> (of_char c :: u8) \<noteq> 0) \<Longrightarrow> length cs < n \<Longrightarrow> cstring n a m = cs"
proof (induction cs arbitrary: a n)
  case Nil
  then show ?case by (subst cstring.simps) simp
next
  case (Cons c cs)
  have "cstring (n - 1) (a + 1) m = cs"
  proof (rule Cons.IH)
    show "m (a + 1 + of_nat i) = of_char (cs ! i)" if "i < length cs" for i
      using Cons.prems(1) [of "Suc i"] that by (simp add: add.assoc)
    show "m (a + 1 + of_nat (length cs)) = 0" using Cons.prems(2) by (simp add: add.assoc)
  qed (use Cons.prems(3,4) in auto)
  moreover have "m a = of_char c" using Cons.prems(1) [of 0] by simp
  ultimately show ?case using Cons.prems(3) [of c] Cons.prems(4) by (subst cstring.simps) simp
qed

lemma cstring_take:
  "(\<And>i. i < length cs \<Longrightarrow> m (a + of_nat i) = of_char (cs ! i)) \<Longrightarrow> (\<And>c. c \<in> set cs \<Longrightarrow> (of_char c :: u8) \<noteq> 0) \<Longrightarrow>
   length cs \<le> n \<Longrightarrow> take (length cs) (cstring n a m) = cs"
proof (induction cs arbitrary: a n)
  case (Cons c cs)
  have "take (length cs) (cstring (n - 1) (a + 1) m) = cs"
  proof (rule Cons.IH)
    show "m (a + 1 + of_nat i) = of_char (cs ! i)" if "i < length cs" for i
      using Cons.prems(1) [of "Suc i"] that by (simp add: add.assoc)
  qed (use Cons.prems(2,3) in auto)
  moreover have "m a = of_char c" using Cons.prems(1) [of 0] by simp
  ultimately show ?case using Cons.prems(2) [of c] Cons.prems(3) by (subst cstring.simps) simp
qed simp

lemma cstring_cong:
  "(\<And>i. i < n \<Longrightarrow> m' (a + of_nat i) = m (a + of_nat i)) \<Longrightarrow> cstring n a m' = cstring n a m"
proof (induction n arbitrary: a)
  case 0
  show ?case by (simp add: cstring.simps)
next
  case (Suc n)
  have a: "m' a = m a" using Suc.prems [of 0] by simp
  have "cstring n (a + 1) m' = cstring n (a + 1) m"
  proof (rule Suc.IH)
    show "m' (a + 1 + of_nat i) = m (a + 1 + of_nat i)" if "i < n" for i
      using Suc.prems [of "Suc i"] that by (simp add: add.assoc)
  qed
  then show ?case using a by (subst (1 2) cstring.simps) simp
qed

text \<open>The first characters of a string depend on as many bytes only.\<close>

lemma take_cstring: "k \<le> n \<Longrightarrow> take k (cstring n a m) = cstring k a m"
proof (induction k arbitrary: n a)
  case 0
  show ?case by (subst (2) cstring.simps) simp
next
  case (Suc k)
  have "take k (cstring (n - 1) (a + 1) m) = cstring k (a + 1) m" by (rule Suc.IH) (use Suc.prems in simp)
  then show ?case using Suc.prems by (subst (1 2) cstring.simps) simp
qed

end
