(* ===== verification/Printf_Text.thy ===== *)
theory Printf_Text
  imports Printf Memory
begin

section \<open>The text a format call produces\<close>

text \<open>
  A reference semantics of the formatter with no output function, buffer or index:
  \<open>format_text\<close> is the text of a format string and its arguments. Every routine of
  \<^verbatim>\<open>printf.c\<close> emits its text, whatever the output function, so \<^verbatim>\<open>vsnprintf\<close> writes
  the text cut to the buffer and its terminator, and nothing else.
\<close>

fun emits :: "'b out_fct \<Rightarrow> u32 \<Rightarrow> string \<Rightarrow> 'b \<times> u32 \<Rightarrow> 'b \<times> u32" where
  "emits out maxlen [] st = st"
| "emits out maxlen (c # cs) st = emits out maxlen cs (emit out maxlen c st)"

lemma emits_append [simp]: "emits out m (cs @ ds) st = emits out m ds (emits out m cs st)"
  by (induction cs arbitrary: st) simp_all

lemma snd_emits [simp]: "snd (emits out m cs st) = snd st + of_nat (length cs)"
  by (induction cs arbitrary: st) (simp_all add: emit_def)

subsection \<open>Reference texts\<close>

definition spaces :: "u32 \<Rightarrow> u32 \<Rightarrow> string" where
  "spaces l width = replicate (unat width - unat l) CHR '' ''"

definition rev_text :: "string \<Rightarrow> u32 \<Rightarrow> u32 \<Rightarrow> string" where
  "rev_text buf width flags =
     (if has flags FLAGS_LEFT then rev buf @ spaces (of_nat (length buf)) width
      else if has flags FLAGS_ZEROPAD then rev buf else spaces (of_nat (length buf)) width @ rev buf)"

definition number_text :: "'a::len word \<Rightarrow> 'a word \<Rightarrow> bool \<Rightarrow> u32 \<Rightarrow> u32 \<Rightarrow> u32 \<Rightarrow> u32 \<Rightarrow> string" where
  "number_text value base negative base32 prec width flags =
     (let flags1 = (if value = 0 then flags AND NOT FLAGS_HASH else flags);
          (buf, width1) = ntoa_buffer (ntoa_digits value base flags1) negative base32 prec width flags1
      in rev_text buf width1 flags1)"

definition cut_text :: "string \<Rightarrow> u32 \<Rightarrow> u32 \<Rightarrow> string" where
  "cut_text p flags precision =
     (let s = takeWhile (\<lambda>c. c \<noteq> NUL) p in if has flags FLAGS_PRECISION then take (unat precision) s else s)"

definition string_text :: "string \<Rightarrow> u32 \<Rightarrow> u32 \<Rightarrow> u32 \<Rightarrow> string" where
  "string_text p flags width precision =
     (let l0 = strnlen_s p (if precision \<noteq> 0 then precision else - 1);
          l = (if has flags FLAGS_PRECISION then (if l0 < precision then l0 else precision) else l0);
          s = cut_text p flags precision
      in if has flags FLAGS_LEFT then s @ spaces l width else spaces l width @ s)"

definition char_text :: "char \<Rightarrow> u32 \<Rightarrow> u32 \<Rightarrow> string" where
  "char_text c flags width =
     (if has flags FLAGS_LEFT then c # spaces 1 width else spaces 1 width @ [c])"

definition int_text :: "char \<Rightarrow> u32 \<Rightarrow> u32 \<Rightarrow> u32 \<Rightarrow> va list \<Rightarrow> (va list \<times> string) run" where
  "int_text d flags width precision va =
     (let base = int_base d; flags = int_flags d flags in
      if d = CHR ''i'' \<or> d = CHR ''d'' then
        (if has flags FLAGS_LONG_LONG then
           andthen (va_long_long va) (\<lambda>(value, va').
             Inr (va', number_text (absolute value) (ucast base) (sint value < 0) (ucast (ucast base :: u64))
                         precision width flags))
         else andthen (va_int va) (\<lambda>(arg, va').
           let value = (if has flags FLAGS_LONG then arg
                        else if has flags FLAGS_CHAR then ucast (ucast arg :: u8)
                        else if has flags FLAGS_SHORT then scast (ucast arg :: u16) else arg)
           in Inr (va', number_text (absolute value) base (sint value < 0) base precision width flags)))
      else
        (if has flags FLAGS_LONG_LONG then
           andthen (va_long_long va) (\<lambda>(value, va').
             Inr (va', number_text value (ucast base) False (ucast (ucast base :: u64)) precision width flags))
         else andthen (va_int va) (\<lambda>(arg, va').
           let value = (if has flags FLAGS_LONG then arg
                        else if has flags FLAGS_CHAR then ucast (ucast arg :: u8)
                        else if has flags FLAGS_SHORT then ucast (ucast arg :: u16) else arg)
           in Inr (va', number_text value base False base precision width flags))))"

definition size_text :: "u32 \<Rightarrow> u32 \<Rightarrow> u32 \<Rightarrow> u32 \<Rightarrow> string run" where
  "size_text n flags width precision =
     (let (i, dv, rem) = size_scale n 0 0;
          num = number_text i 10 False 10 precision width flags
      in if dv < length size_units
         then Inr (num @ (if rem * 100 div 1024 \<noteq> 0 then ''.'' @ num else []) @
                   cut_text (size_units ! dv) flags precision)
         else Inl (Undefined ''sizes index''))"

definition convert_text :: "char \<Rightarrow> u32 \<Rightarrow> u32 \<Rightarrow> u32 \<Rightarrow> va list \<Rightarrow> (va list \<times> string) run" where
  "convert_text d flags width precision va =
     (if d \<in> {CHR ''d'', CHR ''i'', CHR ''u'', CHR ''x'', CHR ''X'', CHR ''o'', CHR ''b''}
      then int_text d flags width precision va
      else if d = CHR ''c'' then andthen (va_int va) (\<lambda>(c, va').
        Inr (va', char_text (char_of (unat c)) flags width))
      else if d = CHR ''S'' then andthen (va_int va) (\<lambda>(n, va').
        andthen (size_text n flags width precision) (\<lambda>s. Inr (va', s)))
      else if d = CHR ''R'' then andthen (va_int va) (\<lambda>(e, va').
        Inr (va', string_text (err_name e) flags width precision))
      else if d = CHR ''s'' then andthen (va_str va) (\<lambda>(p, va').
        Inr (va', string_text (case p of None \<Rightarrow> ''(null)'' | Some s \<Rightarrow> s) flags width precision))
      else if d = CHR ''p'' then andthen (va_int va) (\<lambda>(p, va').
        Inr (va', number_text p 16 False 16 precision 8 (flags OR FLAGS_ZEROPAD OR FLAGS_UPPERCASE)))
      else Inr (va, [d]))"

function format_text :: "string \<Rightarrow> va list \<Rightarrow> string run" where
  "format_text [] va = Inr []"
| "format_text (c # fmt) va =
     (if c \<noteq> CHR ''%'' then andthen (format_text fmt va) (\<lambda>s. Inr (c # s))
      else andthen (parse_spec fmt va) (\<lambda>(flags, width, precision, fmt', va').
        case fmt' of
          [] \<Rightarrow> Inl (Undefined ''format'')
        | d # fmt'' \<Rightarrow> andthen (convert_text d flags width precision va') (\<lambda>(va'', s).
            andthen (format_text fmt'' va'') (\<lambda>s'. Inr (s @ s')))))"
  by pat_completeness auto
termination
  by (relation "measure (\<lambda>(fmt, va). length fmt)") (auto dest: length_parse_spec)

subsection \<open>Every routine emits its text\<close>

lemma pad_spaces_text: "pad_spaces out m l width st = emits out m (spaces l width) st"
proof (induction out m l width st rule: pad_spaces.induct)
  case (1 out m l width st)
  show ?case
  proof (cases "l < width")
    case True
    then have "unat width - unat l = Suc (unat width - unat (l + 1))"
      by (simp add: unat_Suc_less word_less_nat_alt)
    with 1 True show ?thesis by (simp add: pad_spaces.simps [of out m l] spaces_def)
  next
    case False
    then show ?thesis by (simp add: pad_spaces.simps [of out m l] spaces_def word_less_nat_alt)
  qed
qed

lemma out_reverse_text: "out_reverse out m buf st = emits out m (rev buf) st"
  by (induction buf) simp_all

lemma out_rev_text: "out_rev out m buf width flags st = emits out m (rev_text buf width flags) st"
  by (simp add: out_rev_def Let_def pad_spaces_text out_reverse_text rev_text_def)

lemma ntoa_long_text:
  "ntoa_long out m value negative base prec width flags st =
     emits out m (number_text value base negative base prec width flags) st"
  by (simp add: ntoa_long_def ntoa_format_def number_text_def out_rev_text Let_def split: prod.split)

lemma ntoa_long_long_text:
  "ntoa_long_long out m value negative base prec width flags st =
     emits out m (number_text value base negative (ucast base) prec width flags) st"
  by (simp add: ntoa_long_long_def ntoa_format_def number_text_def out_rev_text Let_def split: prod.split)

lemma out_string_text: "out_string out m p flags precision st = emits out m (cut_text p flags precision) st"
proof (induction out m p flags precision st rule: out_string.induct)
  case (2 out m c p flags precision st)
  have "unat precision = Suc (unat (precision - 1))" if "precision \<noteq> 0"
    using that by (simp add: unat_minus_one unat_gt_0)
  with 2 show ?case by (auto simp: cut_text_def Let_def)
qed (simp add: cut_text_def)

lemma convert_string_text:
  "convert_string out m p flags width precision st = emits out m (string_text p flags width precision) st"
  by (simp add: convert_string_def string_text_def Let_def pad_spaces_text out_string_text)

lemma convert_char_text: "convert_char out m c flags width st = emits out m (char_text c flags width) st"
  by (simp add: convert_char_def char_text_def Let_def pad_spaces_text)

lemma convert_size_text:
  "convert_size out m n flags width precision st =
     andthen (size_text n flags width precision) (\<lambda>s. Inr (emits out m s st))"
  by (simp add: convert_size_def size_text_def Let_def ntoa_long_text out_string_text split: prod.split)

lemma convert_int_text:
  "convert_int out m d flags width precision va st =
     andthen (int_text d flags width precision va) (\<lambda>(va', s). Inr (va', emits out m s st))"
  by (cases "va_int va"; cases "va_long_long va")
    (auto simp: convert_int_def int_text_def Let_def ntoa_long_text ntoa_long_long_text)

lemma convert_emits:
  "convert out m d flags width precision va st =
     andthen (convert_text d flags width precision va) (\<lambda>(va', s). Inr (va', emits out m s st))"
  by (cases "va_int va"; cases "va_str va")
    (auto simp: convert_def convert_text_def convert_int_text convert_string_text convert_char_text
      convert_size_text ntoa_long_text andthen_assoc intro!: andthen_cong)

theorem format_loop_text:
  "format_loop out m fmt va st = andthen (format_text fmt va) (\<lambda>s. Inr (emits out m s st))"
proof (induction out m fmt va st rule: format_loop.induct)
  case (1 out m va st)
  show ?case by simp
next
  case (2 out m c fmt va st)
  show ?case
  proof (cases "c = CHR ''%''")
    case False
    then show ?thesis using 2 by (cases "format_text fmt va") simp_all
  next
    case True
    show ?thesis
    proof (cases "parse_spec fmt va")
      case (Inr x)
      then obtain f w p s va' where x: "parse_spec fmt va = Inr (f, w, p, s, va')" by (cases x) auto
      show ?thesis
      proof (cases s)
        case Nil
        then show ?thesis by (simp add: True x)
      next
        case (Cons d fmt'')
        show ?thesis
        proof (cases "convert_text d f w p va'")
          case (Inr y)
          then obtain va'' t where y: "convert_text d f w p va' = Inr (va'', t)" by (cases y) auto
          have "format_loop out m fmt'' va'' (emits out m t st) =
              andthen (format_text fmt'' va'') (\<lambda>s. Inr (emits out m s (emits out m t st)))"
            by (rule 2(2) [OF _ x refl refl refl refl Cons _ refl]) (simp_all add: True convert_emits y)
          then show ?thesis
            by (cases "format_text fmt'' va''") (simp_all add: True x Cons convert_emits y)
        qed (simp add: True x Cons convert_emits)
      qed
    qed (simp add: True)
  qed
qed

subsection \<open>Writing to memory\<close>

lemma out_buffer_in [simp]: "idx < maxlen \<Longrightarrow> out_buffer base c m idx maxlen = m(base + idx := of_char c)"
  by (simp add: out_buffer_def)

lemma out_buffer_out [simp]: "\<not> idx < maxlen \<Longrightarrow> out_buffer base c m idx maxlen = m"
  by (simp add: out_buffer_def)

lemma emits_null [simp]: "emits out_null m cs st = (fst st, snd st + of_nat (length cs))"
  by (induction cs arbitrary: st) (simp_all add: emit_def out_null_def)

lemma emits_buffer:
  "unat i + length cs < 4294967296 \<Longrightarrow>
     fst (emits (out_buffer base) maxlen cs (m, i)) =
       store_bytes (base + i) (map of_char (take (unat maxlen - unat i) cs)) m"
proof (induction cs arbitrary: i m)
  case (Cons c cs)
  have i1: "unat (i + 1) = Suc (unat i)"
    using Cons.prems by (simp add: unat_word_ariths)
  show ?case
  proof (cases "i < maxlen")
    case True
    then have "unat maxlen - unat i = Suc (unat maxlen - unat (i + 1))"
      by (simp add: i1 word_less_nat_alt)
    with Cons True i1 show ?thesis by (simp add: emit_def add.assoc fun_upd_def)
  next
    case False
    with Cons i1 show ?thesis by (simp add: emit_def word_less_nat_alt)
  qed
qed simp

lemma emits_buffer_frame:
  "x \<notin> region base (unat maxlen) \<Longrightarrow> fst (emits (out_buffer base) maxlen cs (m, i)) x = m x"
proof (induction cs arbitrary: i m)
  case (Cons c cs)
  have "out_buffer base c m i maxlen x = m x"
    using Cons.prems by (auto simp: out_buffer_def region_def word_less_nat_alt)
  with Cons show ?case by (simp add: emit_def)
qed simp

lemma vsnprintf_emits:
  "vsnprintf buffer count fmt va m = andthen (format_text fmt va) (\<lambda>cs.
     let n = of_nat (length cs) in
     Inr (if buffer = 0 then m
          else out_buffer buffer NUL (fst (emits (out_buffer buffer) count cs (m, 0)))
                 (if n < count then n else count - 1) count, n))"
proof -
  have s: "snd (emits o' k cs (m, 0)) = of_nat (length cs)" for o' :: "(u32 \<Rightarrow> u8) out_fct" and k cs by simp
  show ?thesis
    by (cases "format_text fmt va")
      (simp_all add: vsnprintf_def vsnprintf_core_def Let_def format_loop_text split_beta s out_null_def
        del: snd_emits)
qed

text \<open>\<^verbatim>\<open>vsnprintf\<close> stays inside the buffer, whatever it is given.\<close>

lemma vsnprintf_frame:
  assumes "vsnprintf buffer count fmt va m = Inr (m', n)" "x \<notin> region buffer (unat count)"
  shows "m' x = m x"
proof -
  have nul: "out_buffer buffer NUL m1 (if i < count then i else count - 1) count x = m1 x" for m1 i
    using assms(2) by (auto simp: out_buffer_def region_def word_less_nat_alt)
  obtain cs i where "m' = (if buffer = 0 then m else out_buffer buffer NUL
      (fst (emits (out_buffer buffer) count cs (m, 0))) (if i < count then i else count - 1) count)"
    using assms(1) by (auto simp: vsnprintf_emits run_simps Let_def)
  then show ?thesis using nul emits_buffer_frame [OF assms(2)] by auto
qed

text \<open>The bytes it writes: the text cut to leave room for the terminator; and its result.\<close>

lemma vsnprintf_text:
  assumes ft: "format_text fmt va = Inr cs" and len: "length cs < 4294967296"
    and buf: "buffer \<noteq> 0" and count: "count \<noteq> 0"
  shows "vsnprintf buffer count fmt va m =
    Inr (store_bytes buffer (map of_char (take (unat count - 1) cs) @ [0]) m, of_nat (length cs))"
proof -
  let ?m1 = "store_bytes buffer (map of_char (take (unat count) cs)) m"
  let ?n = "of_nat (length cs) :: u32"
  have m1: "fst (emits (out_buffer buffer) count cs (m, 0)) = ?m1"
    using emits_buffer [of 0 cs buffer count m] len by simp
  have c0: "0 < unat count" using count by (simp add: unat_gt_0)
  have c1: "unat (count - 1) = unat count - 1" using count by (simp add: unat_minus_one)
  have n: "unat ?n = length cs" using len by simp
  have "out_buffer buffer NUL ?m1 (if ?n < count then ?n else count - 1) count =
      store_bytes buffer (map of_char (take (unat count - 1) cs) @ [0]) m"
  proof (cases "?n < count")
    case True
    then have "length cs < unat count" using n by (simp add: word_less_nat_alt)
    then have "take (unat count) cs = cs" "take (unat count - 1) cs = cs" by simp_all
    with True show ?thesis by (simp add: store_bytes_append)
  next
    case False
    then have ge: "unat count \<le> length cs" using n by (simp add: word_less_nat_alt)
    let ?k = "unat count - 1"
    have "take (unat count) cs = take ?k cs @ [cs ! ?k]"
      using ge c0 take_Suc_conv_app_nth [of ?k cs] by simp
    moreover have "count - 1 < count" using c0 c1 by (simp add: word_less_nat_alt)
    moreover have "(of_nat ?k :: u32) = count - 1" using arg_cong [OF c1, of "of_nat :: nat \<Rightarrow> u32"] by simp
    ultimately show ?thesis
      using False ge c0 by (simp add: store_bytes_append)
  qed
  then show ?thesis using buf by (simp add: vsnprintf_emits ft m1 Let_def)
qed

text \<open>\<^verbatim>\<open>printf\<close> appends the text to the console.\<close>

lemma printf_text:
  assumes "format_text fmt va = Inr cs"
  shows "printf fmt va con = Inr (con @ filter (\<lambda>c. c \<noteq> NUL) cs, of_nat (length cs))"
proof -
  have "emits out_char m cs (con, i) = (con @ filter (\<lambda>c. c \<noteq> NUL) cs, i + of_nat (length cs))" for m i
    by (induction cs arbitrary: con i) (simp_all add: emit_def out_char_def)
  with assms show ?thesis
    by (simp add: printf_def vsnprintf_core_def format_loop_text Let_def out_char_def)
qed

text \<open>\<^verbatim>\<open>fctprintf\<close> passes the text to its function, character by character.\<close>

lemma fctprintf_text:
  assumes "format_text fmt va = Inr cs"
  shows "fctprintf fct fmt va b = Inr (fold fct (filter (\<lambda>c. c \<noteq> NUL) cs) b, of_nat (length cs))"
proof -
  have "emits (out_fct fct) m cs (b, i) = (fold fct (filter (\<lambda>c. c \<noteq> NUL) cs) b, i + of_nat (length cs))" for m i
    by (induction cs arbitrary: b i) (simp_all add: emit_def out_fct_def)
  with assms show ?thesis
    by (simp add: fctprintf_def vfctprintf_def vsnprintf_core_def format_loop_text Let_def out_fct_def)
qed

text \<open>A text of characters without formatting stands for itself.\<close>

lemma format_text_plain: "CHR ''%'' \<notin> set fmt \<Longrightarrow> format_text fmt va = Inr fmt"
  by (induction fmt) auto

end
