(* ===== verification/Printf_Numbers.thy ===== *)
theory Printf_Numbers
  imports Printf_Text
begin

section \<open>Printed numbers read back\<close>

text \<open>
  The conversion loop produces the digits of its value in the base, lowest first, never fills
  its 65-character buffer, and the printed text read as a number is the value again.
\<close>

function nat_digits :: "nat \<Rightarrow> nat \<Rightarrow> nat list" where
  "nat_digits b n = (if b < 2 \<or> n div b = 0 then [n mod b] else n mod b # nat_digits b (n div b))"
  by pat_completeness auto
termination
  by (relation "measure snd") (auto simp: div_greater_zero_iff intro!: div_less_dividend)

declare nat_digits.simps [simp del]

definition digit_val :: "char \<Rightarrow> nat" where
  "digit_val c = (let n = of_char c in
     if 48 \<le> n \<and> n \<le> 57 then n - 48 else if 97 \<le> n then n - 87 else n - 55)"

text \<open>Reading a numeral, highest digit first.\<close>

definition parse_num :: "nat \<Rightarrow> string \<Rightarrow> nat" where
  "parse_num b s = foldl (\<lambda>a c. a * b + digit_val c) 0 s"

lemma digit_val_char [simp]: "d < 16 \<Longrightarrow> digit_val (digit_char flags d) = d"
  by (auto simp: digit_val_def digit_char_def Let_def)

lemma nat_digits_less: "2 \<le> b \<Longrightarrow> d \<in> set (nat_digits b n) \<Longrightarrow> d < b"
  by (induction b n rule: nat_digits.induct) (subst (asm) (2) nat_digits.simps, auto split: if_splits)

lemma nat_digits_length: "2 \<le> b \<Longrightarrow> n < b ^ Suc k \<Longrightarrow> length (nat_digits b n) \<le> Suc k"
proof (induction k arbitrary: n)
  case 0
  then show ?case by (subst nat_digits.simps) simp
next
  case (Suc k)
  have "n div b < b ^ Suc k"
    using Suc.prems by (intro less_mult_imp_div_less) (simp add: mult.commute)
  with Suc show ?case by (subst nat_digits.simps) auto
qed

lemma nat_digits_length64:
  assumes "2 \<le> b" "n < 2 ^ 64" shows "length (nat_digits b n) \<le> 64"
proof -
  have "(2 :: nat) ^ 64 \<le> b ^ 64" using assms(1) by (intro power_mono) auto
  then show ?thesis using assms nat_digits_length [of b n 63] by simp
qed

lemma nat_digits_value:
  "2 \<le> b \<Longrightarrow> foldr (\<lambda>d a. a * b + d) (nat_digits b n) 0 = n"
proof (induction b n rule: nat_digits.induct)
  case (1 b n)
  show ?case
  proof (cases "n div b = 0")
    case True
    with 1(2) show ?thesis by (subst nat_digits.simps) (simp add: div_eq_0_iff)
  next
    case False
    with 1 show ?thesis by (subst nat_digits.simps) simp
  qed
qed

lemma nat_digits_last: "2 \<le> b \<Longrightarrow> 0 < n \<Longrightarrow> last (nat_digits b n) \<noteq> 0"
proof (induction b n rule: nat_digits.induct)
  case (1 b n)
  show ?case
  proof (cases "n div b = 0")
    case True
    with 1(2,3) show ?thesis by (subst nat_digits.simps) (simp add: div_eq_0_iff)
  next
    case False
    moreover have "nat_digits b (n div b) \<noteq> []" by (subst nat_digits.simps) simp
    ultimately show ?thesis using 1 by (subst nat_digits.simps) simp
  qed
qed

lemma nat_digits_zero [simp]: "nat_digits b 0 = [0]"
  by (subst nat_digits.simps) simp

lemma nat_digits_nonempty [simp]: "nat_digits b n \<noteq> []"
  by (subst nat_digits.simps) simp

subsection \<open>The loop\<close>

lemma ntoa_loop_digits:
  fixes v base :: "'a::len word"
  assumes "2 \<le> unat base" "length buf + length (nat_digits (unat base) (unat v)) \<le> PRINTF_NTOA_BUFFER_SIZE"
  shows "ntoa_loop v base flags buf = buf @ map (digit_char flags) (nat_digits (unat base) (unat v))"
  using assms
proof (induction v base flags buf rule: ntoa_loop.induct)
  case (1 v base flags buf)
  let ?buf = "buf @ [digit_char flags (unat (v mod base))]"
  have d: "unat (v div base) = unat v div unat base" "unat (v mod base) = unat v mod unat base"
    by (simp_all add: unat_div unat_mod)
  have z: "v div base = 0 \<longleftrightarrow> unat v div unat base = 0" by (simp flip: d(1) add: unat_eq_0)
  show ?case
  proof (cases "v div base = 0")
    case True
    then show ?thesis
      using z by (subst ntoa_loop.simps, subst nat_digits.simps) (simp add: d Let_def)
  next
    case False
    have ds: "nat_digits (unat base) (unat v) =
        unat v mod unat base # nat_digits (unat base) (unat v div unat base)"
      using False z 1(2) by (subst nat_digits.simps) simp
    have "0 < length (nat_digits (unat base) (unat v div unat base))"
      unfolding length_greater_0_conv by (rule nat_digits_nonempty)
    then have len: "length ?buf < PRINTF_NTOA_BUFFER_SIZE"
      using 1(3) unfolding ds by (simp del: length_greater_0_conv)
    have "ntoa_loop (v div base) base flags ?buf =
        ?buf @ map (digit_char flags) (nat_digits (unat base) (unat (v div base)))"
      using 1(3) unfolding ds by (intro 1(1)) (use False len 1(2) in \<open>simp_all add: d\<close>)
    then show ?thesis
      using False len by (subst ntoa_loop.simps) (simp add: Let_def ds d)
  qed
qed

lemma parse_num_digits:
  assumes "\<forall>d \<in> set ds. d < 16"
  shows "parse_num b (rev (map (digit_char flags) ds)) = foldr (\<lambda>d a. a * b + d) ds 0"
proof -
  have "foldl (\<lambda>a c. a * b + digit_val c) 0 (rev (map (digit_char flags) ds)) =
      foldr (\<lambda>c a. a * b + digit_val c) (map (digit_char flags) ds) 0" by (simp add: foldl_conv_foldr)
  also have "\<dots> = foldr (\<lambda>d a. a * b + d) ds 0"
    using assms by (induction ds) simp_all
  finally show ?thesis by (simp add: parse_num_def)
qed

text \<open>A value of at most 64 bits, in a base from 2 to 16.\<close>

lemma ntoa_digits_roundtrip:
  fixes v base :: "'a::len word"
  assumes "LENGTH('a) \<le> 64" "2 \<le> unat base" "unat base \<le> 16" "\<not> has flags FLAGS_PRECISION"
  defines "s \<equiv> rev (ntoa_digits v base flags)"
  shows "parse_num (unat base) s = unat v" "length s \<le> 64" "s \<noteq> []"
    "hd s = CHR ''0'' \<Longrightarrow> s = ''0''"
proof -
  let ?ds = "nat_digits (unat base) (unat v)"
  have "unat v < 2 ^ LENGTH('a)" by (rule unsigned_less)
  also have "\<dots> \<le> (2 :: nat) ^ 64" using assms(1) by (intro power_increasing) auto
  finally have len: "length ?ds \<le> 64" by (rule nat_digits_length64 [OF assms(2)])
  have ls: "\<forall>d \<in> set ?ds. d < 16" using nat_digits_less [OF assms(2)] assms(3) by fastforce
  have s: "s = rev (map (digit_char flags) ?ds)"
    using assms(4) len ntoa_loop_digits [OF assms(2), of "[]" v flags]
    by (simp add: s_def ntoa_digits_def PRINTF_NTOA_BUFFER_SIZE_def)
  show "parse_num (unat base) s = unat v"
    unfolding s using parse_num_digits [OF ls] nat_digits_value [OF assms(2)] by simp
  show "length s \<le> 64" "s \<noteq> []" using len by (simp_all add: s)
  assume "hd s = CHR ''0''"
  then have h: "digit_char flags (last ?ds) = CHR ''0''" by (simp add: s hd_rev last_map)
  have "digit_val (digit_char flags (last ?ds)) = last ?ds" using ls by simp
  then have "last ?ds = 0" by (simp add: h digit_val_def)
  then have "unat v = 0" using nat_digits_last [OF assms(2)] by (cases "unat v = 0") auto
  moreover have "char_of (48 :: nat) = CHR ''0''" by code_simp
  ultimately show "s = ''0''" by (simp add: s digit_char_def)
qed

subsection \<open>The conversions the kernel prints with\<close>

lemma zero_pad_zero [simp]: "zero_pad 0 buf = buf"
  by (subst zero_pad.simps) simp

lemma zero_pad_eq:
  "unat n \<le> PRINTF_NTOA_BUFFER_SIZE \<Longrightarrow> length buf \<le> PRINTF_NTOA_BUFFER_SIZE \<Longrightarrow>
     zero_pad n buf = buf @ replicate (unat n - length buf) CHR ''0''"
proof (induction n buf rule: zero_pad.induct)
  case (1 n buf)
  have b: "unat (of_nat (length buf) :: u32) = length buf"
    using 1(3) by (simp add: PRINTF_NTOA_BUFFER_SIZE_def)
  show ?case
  proof (cases "length buf < unat n")
    case True
    then have "unat n - length buf = Suc (unat n - Suc (length buf))" by simp
    with 1 True show ?thesis by (subst zero_pad.simps) (simp add: word_less_nat_alt b)
  next
    case False
    then show ?thesis by (subst zero_pad.simps) (simp add: word_less_nat_alt b)
  qed
qed

lemma parse_num_zeros: "parse_num b (replicate k CHR ''0'' @ s) = parse_num b s"
proof -
  have "foldl (\<lambda>a c. a * b + digit_val c) 0 (replicate k CHR ''0'') = 0"
    by (induction k) (simp_all add: digit_val_def)
  then show ?thesis by (simp add: parse_num_def)
qed

lemma ntoa_digits_u32:
  fixes v :: u32
  assumes "base \<in> {2, 8, 10, 16}" "\<not> has flags FLAGS_PRECISION"
  shows "parse_num (unat base) (rev (ntoa_digits v base flags)) = unat v"
    "length (ntoa_digits v base flags) \<le> 64"
    "hd (rev (ntoa_digits v base flags)) = CHR ''0'' \<Longrightarrow> rev (ntoa_digits v base flags) = ''0''"
  using assms ntoa_digits_roundtrip [of base flags v] by auto

lemma length_ntoa_u32_hex: "\<not> has flags FLAGS_PRECISION \<Longrightarrow> length (ntoa_digits (v :: u32) 16 flags) \<le> 8"
proof -
  assume f: "\<not> has flags FLAGS_PRECISION"
  have "unat v < 16 ^ Suc 7" using unat_bound32 [of v] by simp
  then have l: "length (nat_digits 16 (unat v)) \<le> 8" using nat_digits_length [of 16 "unat v" 7] by simp
  then show ?thesis
    using f ntoa_loop_digits [of 16 "[]" v flags] by (simp add: ntoa_digits_def PRINTF_NTOA_BUFFER_SIZE_def)
qed

lemmas spec_simps = parse_spec_def parse_width_def parse_precision_def parse_length_def is_digit_def
  convert_text_def int_text_def int_base_def int_flags_def Let_def
lemmas number_simps = has_def FLAGS_defs number_text_def ntoa_buffer_def rev_text_def spaces_def Let_def

lemma uint_word_of_int_u32: "0 \<le> k \<Longrightarrow> k < 4294967296 \<Longrightarrow> uint (word_of_int k :: u32) = k"
  by (simp add: uint_word_of_int)

lemma absolute_sint: "int (unat (absolute w)) = \<bar>sint w\<bar>" for w :: u32
proof -
  have b: "sint w < 2147483648" "- 2147483648 \<le> sint w"
    using sint_lt [of w] sint_ge [of w] by simp_all
  have w: "w = word_of_int (sint w)" by simp
  have w': "- w = word_of_int (- sint w)" by simp
  show ?thesis
  proof (cases "sint w > 0")
    case True
    then have "uint w = sint w" using b uint_word_of_int_u32 [of "sint w"] by simp
    then show ?thesis using True by (simp add: absolute_def)
  next
    case False
    then have "uint (- w) = - sint w" using b uint_word_of_int_u32 [of "- sint w"] by simp
    then show ?thesis using False by (simp add: absolute_def)
  qed
qed

lemma ntoa_digits_dec:
  fixes v :: u32
  shows "parse_num 10 (rev (ntoa_digits v 10 0)) = unat v"
    "length (ntoa_digits v 10 0) < PRINTF_NTOA_BUFFER_SIZE"
    "hd (rev (ntoa_digits v 10 0)) = CHR ''0'' \<longrightarrow> rev (ntoa_digits v 10 0) = ''0''"
proof -
  have nf: "\<not> has 0 FLAGS_PRECISION" by (simp add: has_def)
  have b: "(10 :: u32) \<in> {2, 8, 10, 16}" by simp
  show "parse_num 10 (rev (ntoa_digits v 10 0)) = unat v"
    using ntoa_digits_u32(1) [OF b nf] by simp
  show "length (ntoa_digits v 10 0) < PRINTF_NTOA_BUFFER_SIZE"
    using ntoa_digits_u32(2) [OF b nf, of v] by (simp add: PRINTF_NTOA_BUFFER_SIZE_def)
  show "hd (rev (ntoa_digits v 10 0)) = CHR ''0'' \<longrightarrow> rev (ntoa_digits v 10 0) = ''0''"
    by (rule impI, rule ntoa_digits_u32(3) [OF b nf])
qed

lemma length_ntoa_dec: "length (ntoa_digits (v :: u32) 10 0) \<le> 10"
proof -
  have "(4294967296 :: nat) \<le> 10 ^ Suc 9" by simp
  then have "unat v < 10 ^ Suc 9" using unat_bound32 [of v] by (rule less_le_trans [rotated])
  then have l: "length (nat_digits 10 (unat v)) \<le> 10" using nat_digits_length [of 10 "unat v" 9] by simp
  then show ?thesis
    using ntoa_loop_digits [of 10 "[]" v 0] by (simp add: ntoa_digits_def PRINTF_NTOA_BUFFER_SIZE_def has_def)
qed

text \<open>\<^verbatim>\<open>%d\<close>: an optional minus sign and the decimal numeral of the absolute value.\<close>

lemma print_d:
  "\<exists>ds. format_text ''%d'' [VInt w] = Inr ((if sint w < 0 then ''-'' else []) @ ds) \<and>
     int (parse_num 10 ds) = \<bar>sint w\<bar> \<and> (hd ds = CHR ''0'' \<longrightarrow> ds = ''0'') \<and> length ds \<le> 10"
proof (intro exI conjI)
  show "format_text ''%d'' [VInt w] = Inr ((if sint w < 0 then ''-'' else []) @ rev (ntoa_digits (absolute w) 10 0))"
    using ntoa_digits_dec(2) by (simp add: spec_simps, simp add: number_simps push_char_def)
  show "int (parse_num 10 (rev (ntoa_digits (absolute w) 10 0))) = \<bar>sint w\<bar>"
    unfolding ntoa_digits_dec(1) by (rule absolute_sint)
  show "length (rev (ntoa_digits (absolute w) 10 0)) \<le> 10" using length_ntoa_dec by simp
qed (rule ntoa_digits_dec(3))

text \<open>\<^verbatim>\<open>%u\<close>: the decimal numeral.\<close>

lemma print_u:
  "\<exists>ds. format_text ''%u'' [VInt w] = Inr ds \<and> parse_num 10 ds = unat w \<and>
     (hd ds = CHR ''0'' \<longrightarrow> ds = ''0'')"
proof (intro exI conjI)
  show "format_text ''%u'' [VInt w] = Inr (rev (ntoa_digits w 10 0))"
    by (simp add: spec_simps, simp add: number_simps)
qed (rule ntoa_digits_dec)+

text \<open>\<^verbatim>\<open>%08x\<close>: always eight hexadecimal digits.\<close>

lemma print_08x:
  "\<exists>ds. format_text ''%08x'' [VInt w] = Inr ds \<and> parse_num 16 ds = unat w \<and> length ds = 8"
proof -
  let ?ds = "ntoa_digits w 16 1"
  have nf: "\<not> has 1 FLAGS_PRECISION" by (simp add: has_def FLAGS_defs)
  have d: "parse_num 16 (rev ?ds) = unat w"
    using ntoa_digits_u32(1) [of 16 1 w, OF _ nf] by simp
  have l: "length ?ds \<le> 8" by (rule length_ntoa_u32_hex [OF nf])
  have z: "zero_pad 8 ?ds = ?ds @ replicate (8 - length ?ds) CHR ''0''"
    using l by (subst zero_pad_eq) (simp_all add: PRINTF_NTOA_BUFFER_SIZE_def)
  have "format_text ''%08x'' [VInt w] = Inr (rev (zero_pad 8 ?ds))"
    by (simp add: spec_simps, simp add: number_simps)
  moreover have "parse_num 16 (rev (zero_pad 8 ?ds)) = unat w"
    by (simp only: z rev_append rev_replicate parse_num_zeros d)
  moreover have "length (rev (zero_pad 8 ?ds)) = 8" using l by (simp only: z) simp
  ultimately show ?thesis by blast
qed

text \<open>\<^verbatim>\<open>%S\<close>: the scaling loop ends below 1024, with an index inside the table of units.\<close>

lemma size_scale_bounds: "size_scale n 0 0 = (i, dv, rem) \<Longrightarrow> i < 1024 \<and> dv < length size_units"
proof -
  have bound: "unat n < 1024 ^ k \<Longrightarrow> dv0 + k = 5 \<Longrightarrow> k \<ge> 1 \<Longrightarrow>
      size_scale n dv0 r = (i, dv, rem) \<Longrightarrow> i < 1024 \<and> dv < length size_units" for n dv0 r k
  proof (induction k arbitrary: n dv0 r)
    case (Suc k)
    show ?case
    proof (cases "n \<ge> 1024")
      case False
      then show ?thesis using Suc.prems by (subst (asm) size_scale.simps) (auto simp: size_units_def)
    next
      case True
      then have n: "1024 \<le> unat n" by (simp add: word_le_nat_alt)
      have "unat (n div 1024) < 1024 ^ k"
        using Suc.prems(1) by (simp add: unat_div less_mult_imp_div_less mult.commute)
      moreover have "k \<ge> 1" using n Suc.prems(1) by (cases k) auto
      moreover have "dv0 < length size_units" using Suc.prems(2) by (simp add: size_units_def)
      moreover have "size_scale (n div 1024) (Suc dv0) (n mod 1024) = (i, dv, rem)"
        using Suc.prems(4) True \<open>dv0 < length size_units\<close> by (simp add: size_scale.simps [of n dv0 r])
      ultimately show ?thesis
        using Suc.IH [of "n div 1024" "Suc dv0" "n mod 1024"] Suc.prems(2) by simp
    qed
  qed simp
  assume "size_scale n 0 0 = (i, dv, rem)"
  moreover have "unat n < 1024 ^ 5" by (rule less_trans [OF unat_bound32]) simp
  ultimately show ?thesis using bound [of n 5 0 0] by (simp add: size_units_def)
qed

text \<open>So \<^verbatim>\<open>%S\<close> always has a text.\<close>

lemma size_text_ok: "\<exists>cs. size_text n flags width precision = Inr cs"
proof -
  obtain i dv rem where sc: "size_scale n 0 0 = (i, dv, rem)" by (metis prod_cases3)
  from size_scale_bounds [OF this] show ?thesis by (simp add: size_text_def sc Let_def)
qed

end
