(* ===== verification/Trace.thy ===== *)
theory Trace
  imports Printf_Numbers
begin

section \<open>The console\<close>

text \<open>
  \<^verbatim>\<open>util/trace.h\<close>, \<^verbatim>\<open>util/trace.c\<close> and \<^verbatim>\<open>drivers/uart.c\<close>: the line macros, the
  hex dump, and the serial port that takes the characters one at a time when its transmit FIFO
  has room. Everywhere else the console is the string of characters sent so far.
\<close>

subsection \<open>Lines\<close>

definition CRLF :: string where "CRLF = [CHR 0x0A, CHR 0x0D]"

definition prints :: "string \<Rightarrow> va list \<Rightarrow> string \<Rightarrow> string run" where
  "prints fmt va con = andthen (printf fmt va con) (\<lambda>(con', _). Inr con')"

definition TRACE :: "string \<Rightarrow> va list \<Rightarrow> string \<Rightarrow> string run" where
  "TRACE fmt va con = prints (''[*] '' @ fmt @ CRLF) va con"

definition ERROR :: "string \<Rightarrow> va list \<Rightarrow> string \<Rightarrow> string run" where
  "ERROR fmt va con = prints (''[-] '' @ fmt @ CRLF) va con"

definition WARN :: "string \<Rightarrow> va list \<Rightarrow> string \<Rightarrow> string run" where
  "WARN fmt va con = prints (''[!] '' @ fmt @ CRLF) va con"

definition DEBUG :: "string \<Rightarrow> va list \<Rightarrow> string \<Rightarrow> string run" where
  "DEBUG fmt va con = prints (''[?] '' @ fmt @ CRLF) va con"

subsection \<open>Hex dump\<close>

text \<open>
  The loop body at index \<open>i\<close> of \<open>n\<close>; \<open>ascii\<close> is the 17-byte buffer of the right-hand column,
  printed as a C string.
\<close>

definition ascii_char :: "u8 \<Rightarrow> char" where
  "ascii_char b = (if 0x20 \<le> b \<and> b \<le> 0x7E then char_of (unat b) else CHR ''.'')"

fun prints_n :: "nat \<Rightarrow> string \<Rightarrow> string \<Rightarrow> string run" where
  "prints_n 0 fmt con = Inr con"
| "prints_n (Suc k) fmt con = andthen (prints fmt [] con) (prints_n k fmt)"

definition hex_step :: "u8 list \<Rightarrow> nat \<Rightarrow> string \<times> string \<Rightarrow> (string \<times> string) run" where
  "hex_step bs i = (\<lambda>(ascii, con).
     let n = length bs; b = bs ! i; j = (i + 1) mod 16; ascii1 = ascii[i mod 16 := ascii_char b] in
     andthen (prints ''%02x '' [VInt (ucast b)] con) (\<lambda>con1.
     if (i + 1) mod 8 = 0 \<or> i + 1 = n then
       andthen (prints '' '' [] con1) (\<lambda>con2.
       if j = 0 then
         andthen (prints (''|  %s '' @ CRLF) [VStr (Some ascii1)] con2) (\<lambda>con3.
         andthen (if i + 1 \<noteq> n then prints ''[*] '' [] con3 else Inr con3) (\<lambda>con4.
         Inr (ascii1, con4)))
       else if i + 1 = n then
         let ascii2 = ascii1[j := NUL] in
         andthen (if j \<le> 8 then prints '' '' [] con2 else Inr con2) (\<lambda>con3.
         andthen (prints_n (16 - j) ''   '' con3) (\<lambda>con4.
         andthen (prints (''|  %s '' @ CRLF) [VStr (Some ascii2)] con4) (\<lambda>con5.
         Inr (ascii2, con5))))
       else Inr (ascii1, con2))
     else Inr (ascii1, con1)))"

fun hex_loop :: "u8 list \<Rightarrow> nat list \<Rightarrow> string \<times> string \<Rightarrow> (string \<times> string) run" where
  "hex_loop bs [] st = Inr st"
| "hex_loop bs (i # is) st = andthen (hex_step bs i st) (hex_loop bs is)"

definition trace_hex :: "u8 list \<Rightarrow> string \<Rightarrow> string run" where
  "trace_hex bs con =
     andthen (prints ''[*] '' [] con) (\<lambda>con1.
     andthen (hex_loop bs [0..<length bs] (replicate 17 NUL, con1)) (\<lambda>(_, con2). Inr con2))"

subsection \<open>The serial port\<close>

record uart =
  UART0_INT_ENA :: u32
  uart_fifo_writes :: "u32 list"

definition init_uart :: "uart \<Rightarrow> uart" where
  "init_uart u = u\<lparr>UART0_INT_ENA := 0\<rparr>"

text \<open>
  \<^verbatim>\<open>txfifo_cnt\<close> is bits 16 to 23 of the status register; \<open>rd n\<close> is what its \<open>n\<close>-th read
  returns. The result is the number of reads made.
\<close>

definition txfifo_cnt :: "u32 \<Rightarrow> u32" where
  "txfifo_cnt st = drop_bit 16 st AND 0xFF"

partial_function (option) wait_txfifo :: "(nat \<Rightarrow> u32) \<Rightarrow> nat \<Rightarrow> nat option" where
  "wait_txfifo rd n = (if txfifo_cnt (rd n) \<ge> 128 then wait_txfifo rd (Suc n) else Some (Suc n))"

definition uart_write_char :: "(nat \<Rightarrow> u32) \<Rightarrow> char \<Rightarrow> nat \<times> uart \<Rightarrow> (nat \<times> uart) run" where
  "uart_write_char rd c = (\<lambda>(n, u).
     andthen (loop_result (wait_txfifo rd n)) (\<lambda>n'.
     Inr (n', u\<lparr>uart_fifo_writes := uart_fifo_writes u @ [of_char c]\<rparr>)))"

definition putchar :: "(nat \<Rightarrow> u32) \<Rightarrow> char \<Rightarrow> nat \<times> uart \<Rightarrow> (nat \<times> uart) run" where
  "putchar rd c = uart_write_char rd c"

fun putchars :: "(nat \<Rightarrow> u32) \<Rightarrow> string \<Rightarrow> nat \<times> uart \<Rightarrow> (nat \<times> uart) run" where
  "putchars rd [] st = Inr st"
| "putchars rd (c # cs) st = andthen (putchar rd c st) (putchars rd cs)"

subsection \<open>Lemmas\<close>

lemma prints_text: "format_text fmt va = Inr cs \<Longrightarrow> prints fmt va con = Inr (con @ filter (\<lambda>c. c \<noteq> NUL) cs)"
  by (simp add: prints_def printf_text)

text \<open>Waiting returns exactly when some later read shows room, at the first such read.\<close>

lemma wait_txfifo_first:
  "txfifo_cnt (rd (n + k)) < 128 \<Longrightarrow> (\<And>j. j < k \<Longrightarrow> \<not> txfifo_cnt (rd (n + j)) < 128) \<Longrightarrow>
     wait_txfifo rd n = Some (Suc (n + k))"
proof (induction k arbitrary: n)
  case 0
  then have "\<not> 128 \<le> txfifo_cnt (rd n)" by (simp add: not_le)
  then show ?case by (subst wait_txfifo.simps) simp
next
  case (Suc k)
  have "wait_txfifo rd (Suc n) = Some (Suc (Suc n + k))"
  proof (rule Suc.IH)
    show "\<not> txfifo_cnt (rd (Suc n + j)) < 128" if "j < k" for j using Suc.prems(2) [of "Suc j"] that by simp
  qed (use Suc.prems(1) in simp)
  moreover have "128 \<le> txfifo_cnt (rd n)" using Suc.prems(2) [of 0] by (simp add: not_less)
  ultimately show ?case by (subst wait_txfifo.simps) simp
qed

lemma wait_txfifo_returns: "wait_txfifo rd n = Some m \<Longrightarrow> \<exists>k. m = Suc (n + k) \<and> txfifo_cnt (rd (n + k)) < 128"
proof (erule wait_txfifo.raw_induct [rotated 1])
  fix w rd n y
  assume ih: "\<And>rd n y. w rd n = Some y \<Longrightarrow> \<exists>k. y = Suc (n + k) \<and> txfifo_cnt (rd (n + k)) < 128"
    and y: "(if txfifo_cnt (rd n) \<ge> 128 then w rd (Suc n) else Some (Suc n)) = Some y"
  from y consider "w rd (Suc n) = Some y" | "txfifo_cnt (rd n) < 128" "y = Suc n"
    by (cases "txfifo_cnt (rd n) \<ge> 128") auto
  then show "\<exists>k. y = Suc (n + k) \<and> txfifo_cnt (rd (n + k)) < 128"
  proof cases
    case 1
    then obtain k where "y = Suc (Suc n + k)" "txfifo_cnt (rd (Suc n + k)) < 128" using ih by blast
    then show ?thesis by (intro exI [of _ "Suc k"]) simp
  next
    case 2
    then show ?thesis by (intro exI [of _ 0]) simp
  qed
qed

text \<open>If the FIFO drains again and again, every character is sent, once, in order.\<close>

lemma putchars_all:
  assumes drains: "\<And>n. \<exists>k \<ge> n. txfifo_cnt (rd k) < 128"
  shows "\<exists>n'. putchars rd cs (n, u) = Inr (n', u\<lparr>uart_fifo_writes := uart_fifo_writes u @ map of_char cs\<rparr>)"
proof (induction cs arbitrary: n u)
  case Nil
  show ?case by simp
next
  case (Cons c cs)
  define k where "k = (LEAST k. txfifo_cnt (rd (n + k)) < 128)"
  obtain k0 where "txfifo_cnt (rd (n + k0)) < 128" using drains [of n] le_Suc_ex by blast
  then have "txfifo_cnt (rd (n + k)) < 128" unfolding k_def by (rule LeastI)
  moreover have "\<not> txfifo_cnt (rd (n + j)) < 128" if "j < k" for j
    using that unfolding k_def by (rule not_less_Least)
  ultimately have "wait_txfifo rd n = Some (Suc (n + k))" by (rule wait_txfifo_first)
  then have "putchar rd c (n, u) = Inr (Suc (n + k), u\<lparr>uart_fifo_writes := uart_fifo_writes u @ [of_char c]\<rparr>)"
    by (simp add: putchar_def uart_write_char_def)
  then show ?case using Cons [of "Suc (n + k)" "u\<lparr>uart_fifo_writes := uart_fifo_writes u @ [of_char c]\<rparr>"] by simp
qed

lemma putchars_full:
  assumes "\<And>k. n \<le> k \<Longrightarrow> 128 \<le> txfifo_cnt (rd k)"
  shows "putchars rd (c # cs) (n, u) = Inl Spin"
proof -
  have "wait_txfifo rd n = None"
  proof (cases "wait_txfifo rd n")
    case (Some m)
    then obtain k where "txfifo_cnt (rd (n + k)) < 128" using wait_txfifo_returns by blast
    then show ?thesis using assms [of "n + k"] by (simp add: not_less [symmetric])
  qed
  then show ?thesis by (simp add: putchar_def uart_write_char_def)
qed

end
