(* ===== verification/Diagnostics.thy ===== *)
theory Diagnostics
  imports Kernel_State Trace
begin

section \<open>What the kernel prints about itself\<close>

text \<open>
  The lines of \<^verbatim>\<open>util/except.h\<close>: a failed \<^verbatim>\<open>CHECK\<close> and a rethrown error say where they are in
  the source. \<open>kprint\<close> sends a line to the kernel's console. Lines with literal formats can
  always be printed (\<open>says\<close>), so printing one only extends the console (\<open>say\<close>).
\<close>

definition kprint :: "(string \<Rightarrow> string run) \<Rightarrow> kernel \<Rightarrow> kernel run" where
  "kprint line s = andthen (line (console s)) (\<lambda>con. Inr (s\<lparr>console := con\<rparr>))"

text \<open>\<^verbatim>\<open>CHECK_ERROR\<close> without a message, and \<^verbatim>\<open>CHECK_AND_RETHROW\<close>.\<close>

definition check_failed :: "err_t \<Rightarrow> string \<Rightarrow> string \<Rightarrow> u32 \<Rightarrow> string \<Rightarrow> string run" where
  "check_failed err func file line =
     ERROR ''Check failed with error %d in function %s (%s:%d)''
       [VInt (err_code err), VStr (Some func), VStr (Some file), VInt line]"

definition rethrown :: "string \<Rightarrow> string \<Rightarrow> u32 \<Rightarrow> string \<Rightarrow> string run" where
  "rethrown func file line =
     ERROR (CHR 0x09 # ''rethrown at %s (%s:%d)'') [VStr (Some func), VStr (Some file), VInt line]"

subsection \<open>Every line can be printed\<close>

definition printable :: "string \<Rightarrow> va list \<Rightarrow> bool" where
  "printable fmt va \<longleftrightarrow> (\<exists>cs. format_text fmt va = Inr cs)"

lemma printableE:
  assumes "printable fmt va"
  obtains cs where "\<And>con. prints fmt va con = Inr (con @ cs)"
  using assms prints_text unfolding printable_def by metis

lemma printable_plain: "CHR ''%'' \<notin> set fmt \<Longrightarrow> printable fmt va"
  by (auto simp: printable_def format_text_plain)

definition says :: "(string \<Rightarrow> string run) \<Rightarrow> bool" where
  "says line \<longleftrightarrow> (\<exists>cs. \<forall>con. line con = Inr (con @ cs))"

lemma says_lines:
  "printable (''[*] '' @ fmt @ CRLF) va \<Longrightarrow> says (TRACE fmt va)"
  "printable (''[-] '' @ fmt @ CRLF) va \<Longrightarrow> says (ERROR fmt va)"
  "printable (''[!] '' @ fmt @ CRLF) va \<Longrightarrow> says (WARN fmt va)"
  unfolding says_def TRACE_def ERROR_def WARN_def by (metis printableE)+

lemma says_plain: "CHR ''%'' \<notin> set fmt \<Longrightarrow> says (TRACE fmt va)"
  by (rule says_lines) (simp add: printable_plain CRLF_def)

lemma says_errors [simp]: "says (check_failed e f g n)" "says (rethrown f g n)"
  unfolding check_failed_def rethrown_def
  by (rule says_lines, simp add: printable_def CRLF_def spec_simps, simp add: has_def FLAGS_defs)+

text \<open>The state after a line.\<close>

definition say :: "(string \<Rightarrow> string run) \<Rightarrow> kernel \<Rightarrow> kernel" where
  "say line s = s\<lparr>console := console s @ (case line [] of Inr cs \<Rightarrow> cs | Inl _ \<Rightarrow> [])\<rparr>"

lemma kprint_says [simp]: "says line \<Longrightarrow> kprint line s = Inr (say line s)"
  by (auto simp: says_def kprint_def say_def)

lemma kprint_eq_Inr [run_simps]: "kprint line s = Inr s' \<longleftrightarrow> (\<exists>con. line (console s) = Inr con \<and> s' = s\<lparr>console := con\<rparr>)"
  by (auto simp: kprint_def andthen_eq_Inr)

lemma say_fields [simp]:
  "prid (say line s) = prid s" "dport (say line s) = dport s" "pidctrl (say line s) = pidctrl s"
  "timg (say line s) = timg s" "g_per_cpu_context (say line s) = g_per_cpu_context s"
  "tasks (say line s) = tasks s" "mem (say line s) = mem s"
  "m_global_run_queue (say line s) = m_global_run_queue s"
  "m_global_run_queue_size (say line s) = m_global_run_queue_size s" "umem (say line s) = umem s"
  "m_pid_gen (say line s) = m_pid_gen s"
  "get_cpu_index (say line s) = get_cpu_index s" "get_cpu_context (say line s) = get_cpu_context s"
  by (simp_all add: say_def)

end
