(* ===== verification/Mmu.thy ===== *)
theory Mmu
  imports Diagnostics
begin

section \<open>Address spaces and hardware PIDs\<close>

text \<open>
  \<^verbatim>\<open>drivers/dport.c\<close> from \<^verbatim>\<open>init_mmu\<close> on and \<^verbatim>\<open>drivers/pid.c\<close>. A task's
  \<^verbatim>\<open>mmu_t\<close> is named by the address of its task. Six hardware PIDs (2 to 7) are a cache of
  address spaces: activating a space finds its binding or evicts the least recently primary
  one, which unloads the old space's entries from the two 16-entry page tables and loads the
  new one's. Loading can fail only by writing outside a table or by the macro
  \<^verbatim>\<open>FOR_EACH_BIT\<close>, whose loop has no exit for most masks.
\<close>

subsection \<open>Bindings\<close>

definition pid_binding_at :: "binding_ref \<Rightarrow> kernel \<Rightarrow> pid_binding" where
  "pid_binding_at r s = pid_bindings (g_per_cpu_context s (fst r)) (snd r)"

definition update_binding :: "binding_ref \<Rightarrow> (pid_binding \<Rightarrow> pid_binding) \<Rightarrow> kernel \<Rightarrow> kernel" where
  "update_binding r f s =
     s\<lparr>g_per_cpu_context := (g_per_cpu_context s)(fst r := (g_per_cpu_context s (fst r))
         \<lparr>pid_bindings := (pid_bindings (g_per_cpu_context s (fst r)))(snd r := f (pid_binding_at r s))\<rparr>)\<rparr>"

definition pid_binding_is_primary :: "binding_ref option \<Rightarrow> kernel \<Rightarrow> bool" where
  "pid_binding_is_primary b s \<longleftrightarrow> b \<noteq> None \<and> primary_binding (get_cpu_context s) = b"

text \<open>\<^verbatim>\<open>binding->primary_stamp = context->next_stamp++; context->primary_binding = binding;\<close>\<close>

definition make_primary :: "binding_ref \<Rightarrow> kernel \<Rightarrow> kernel" where
  "make_primary b s =
     (let context = get_cpu_context s;
          stamp = next_stamp context;
          s1 = set_cpu_context (context\<lparr>next_stamp := stamp + 1\<rparr>) s;
          s2 = update_binding b (primary_stamp_update (\<lambda>_. stamp)) s1
      in set_cpu_context ((get_cpu_context s2)\<lparr>primary_binding := Some b\<rparr>) s2)"

definition pid_binding_rebind :: "binding_ref \<Rightarrow> kernel \<Rightarrow> kernel" where
  "pid_binding_rebind b s = make_primary b s"

subsection \<open>FOR_EACH_BIT\<close>

text \<open>
  The macro, with its argument \<^verbatim>\<open>num\<close> as loop state: the index is one-based, the step
  clears the bits of the \<^emph>\<open>index\<close> (\<^verbatim>\<open>num &= ~it\<close>), and \<^verbatim>\<open>num\<close>, a 64-bit
  mask here, is truncated to \<^verbatim>\<open>int\<close> for \<^verbatim>\<open>__builtin_ffs\<close>. The body may stop.
\<close>

partial_function (option) for_each_bit ::
    "(nat \<Rightarrow> 'a \<Rightarrow> 'a run) \<Rightarrow> u64 \<Rightarrow> 'a \<Rightarrow> ('a run) option" where
  "for_each_bit body num x =
     (if num = 0 then Some (Inr x)
      else let it = ffs (ucast num :: u32) in
        (case body it x of
           Inl e \<Rightarrow> Some (Inl e)
         | Inr y \<Rightarrow> for_each_bit body (num AND NOT (of_nat it)) y))"

definition FOR_EACH_BIT :: "u64 \<Rightarrow> (nat \<Rightarrow> 'a \<Rightarrow> 'a run) \<Rightarrow> 'a \<Rightarrow> 'a run" where
  "FOR_EACH_BIT num body x = andthen (loop_result (for_each_bit body num x)) (\<lambda>r. r)"

text \<open>\<^verbatim>\<open>DPORT_AHBLITE_MPU_TABLE\<close> has \<^verbatim>\<open>MPU_LAST\<close> entries.\<close>

definition MPU_LAST :: nat where "MPU_LAST = 47"

definition mpu_write :: "nat \<Rightarrow> (u32 \<Rightarrow> u32) \<Rightarrow> (nat \<Rightarrow> u32) \<Rightarrow> (nat \<Rightarrow> u32) run" where
  "mpu_write i f tbl =
     (if i < MPU_LAST then Inr (tbl(i := f (tbl i))) else Inl (Undefined ''MPU table index''))"

definition mpu_grant :: "nat \<Rightarrow> nat \<Rightarrow> (nat \<Rightarrow> u32) \<Rightarrow> (nat \<Rightarrow> u32) run" where
  "mpu_grant p it tbl = mpu_write (2 ^ it) (\<lambda>_. push_bit p 1) tbl"

definition mpu_revoke :: "nat \<Rightarrow> nat \<Rightarrow> (nat \<Rightarrow> u32) \<Rightarrow> (nat \<Rightarrow> u32) run" where
  "mpu_revoke p it tbl = mpu_write (2 ^ it) (\<lambda>w. w AND NOT (push_bit p 1)) tbl"

subsection \<open>Loading and unloading a space\<close>

text \<open>Both page tables have sixteen registers; the bit fields truncate what they are given.\<close>

definition table_write :: "u8 \<Rightarrow> nat \<Rightarrow> u8 \<Rightarrow> (nat \<Rightarrow> mmu_table_reg) \<Rightarrow> (nat \<Rightarrow> mmu_table_reg) run" where
  "table_write p virt hw tbl =
     (if unat p < 16
      then Inr (tbl(unat p := (tbl (unat p))\<lparr>address := of_nat virt, access_rights := ucast hw\<rparr>))
      else Inl (Undefined ''MMU table index''))"

definition load_entry :: "u8 \<Rightarrow> mmu_space \<Rightarrow> nat \<Rightarrow> (nat \<Rightarrow> mmu_table_reg) \<Rightarrow> (nat \<Rightarrow> mmu_table_reg) run" where
  "load_entry hw space virt tbl =
     (if entry_type (entries space virt) = PAGE_MAPPED
      then table_write (phys (entries space virt)) virt hw tbl else Inr tbl)"

fun mmu_load_entries :: "u8 \<Rightarrow> mmu \<Rightarrow> nat list \<Rightarrow> dport \<Rightarrow> dport run" where
  "mmu_load_entries hw m [] d = Inr d"
| "mmu_load_entries hw m (virt # vs) d =
     andthen (load_entry hw (immu m) virt (DPORT_IMMU_TABLE d)) (\<lambda>it.
     andthen (load_entry hw (dmmu m) virt (DPORT_DMMU_TABLE d)) (\<lambda>dt.
     mmu_load_entries hw m vs (d\<lparr>DPORT_IMMU_TABLE := it, DPORT_DMMU_TABLE := dt\<rparr>)))"

definition clear_rights :: "u8 \<Rightarrow> mmu_table_reg \<Rightarrow> mmu_table_reg" where
  "clear_rights hw r = (if uint (access_rights r) = uint hw then r\<lparr>access_rights := 0\<rparr> else r)"

fun mmu_unload_entries :: "u8 \<Rightarrow> nat list \<Rightarrow> dport \<Rightarrow> dport" where
  "mmu_unload_entries hw [] d = d"
| "mmu_unload_entries hw (i # is) d =
     mmu_unload_entries hw is
       (d\<lparr>DPORT_IMMU_TABLE := (DPORT_IMMU_TABLE d)(i := clear_rights hw (DPORT_IMMU_TABLE d i)),
          DPORT_DMMU_TABLE := (DPORT_DMMU_TABLE d)(i := clear_rights hw (DPORT_DMMU_TABLE d i))\<rparr>)"

text \<open>
  \<^verbatim>\<open>space->binding->pid\<close>. A missing task or binding is a bad pointer. After the
  peripheral loop \<^verbatim>\<open>space->mpu_peripheral\<close>, which the macro uses as its loop variable,
  is zero.
\<close>

definition space_pid :: "ptr \<Rightarrow> kernel \<Rightarrow> u8 run" where
  "space_pid space s = andthen (read_task space s) (\<lambda>t.
     case binding (task_mmu t) of
       None \<Rightarrow> Inl (Undefined ''NULL binding'')
     | Some b \<Rightarrow> Inr (pid (pid_binding_at b s)))"

definition clear_mask :: "task \<Rightarrow> task" where
  "clear_mask t = t\<lparr>task_mmu := (task_mmu t)\<lparr>mpu_peripheral := 0\<rparr>\<rparr>"

definition mmu_load :: "ptr \<Rightarrow> kernel \<Rightarrow> kernel run" where
  "mmu_load space s =
     andthen (read_task space s) (\<lambda>t.
     andthen (space_pid space s) (\<lambda>hw.
     andthen (mmu_load_entries hw (task_mmu t) [0..<16] (dport s)) (\<lambda>d.
     andthen (FOR_EACH_BIT (mpu_peripheral (task_mmu t)) (mpu_grant (unat hw))
                (DPORT_AHBLITE_MPU_TABLE d)) (\<lambda>tbl.
     update_task space clear_mask (s\<lparr>dport := d\<lparr>DPORT_AHBLITE_MPU_TABLE := tbl\<rparr>\<rparr>)))))"

definition mmu_unload :: "ptr \<Rightarrow> kernel \<Rightarrow> kernel run" where
  "mmu_unload space s =
     andthen (read_task space s) (\<lambda>t.
     andthen (space_pid space s) (\<lambda>hw.
     let d = mmu_unload_entries hw [0..<16] (dport s) in
     andthen (FOR_EACH_BIT (mpu_peripheral (task_mmu t)) (mpu_revoke (unat hw))
                (DPORT_AHBLITE_MPU_TABLE d)) (\<lambda>tbl.
     update_task space clear_mask (s\<lparr>dport := d\<lparr>DPORT_AHBLITE_MPU_TABLE := tbl\<rparr>\<rparr>))))"

subsection \<open>Binding, unbinding, activating\<close>

definition set_binding :: "binding_ref option \<Rightarrow> task \<Rightarrow> task" where
  "set_binding b t = t\<lparr>task_mmu := (task_mmu t)\<lparr>binding := b\<rparr>\<rparr>"

definition pid_binding_bind :: "binding_ref \<Rightarrow> ptr \<Rightarrow> kernel \<Rightarrow> kernel run" where
  "pid_binding_bind b space s =
     (let unbound_space = bound_space (pid_binding_at b s);
          s1 = update_binding b (bound_space_update (\<lambda>_. space)) s
      in andthen (if unbound_space \<noteq> NULL then mmu_unload unbound_space s1 else Inr s1) (\<lambda>s2.
         andthen (update_task space (set_binding (Some b)) s2) (\<lambda>s3.
         andthen (mmu_load space s3) (\<lambda>s4.
         Inr (make_primary b s4)))))"

definition pid_binding_unbind :: "binding_ref \<Rightarrow> kernel \<Rightarrow> kernel run" where
  "pid_binding_unbind b s =
     (let space = bound_space (pid_binding_at b s)
      in andthen (mmu_unload space s) (\<lambda>s1.
         andthen (update_task space (set_binding None) s1) (\<lambda>s2.
         Inr (update_binding b (bound_space_update (\<lambda>_. NULL)) s2))))"

text \<open>
  The search loop of \<^verbatim>\<open>mmu_activate\<close>: \<open>Inl i\<close> is its early return at the slot that
  holds the space, \<open>Inr lru\<close> the slot with the oldest stamp.
\<close>

fun scan_bindings :: "(nat \<Rightarrow> pid_binding) \<Rightarrow> ptr \<Rightarrow> nat list \<Rightarrow> nat \<Rightarrow> nat + nat" where
  "scan_bindings bs space [] lru_pid = Inr lru_pid"
| "scan_bindings bs space (i # is) lru_pid =
     (if bound_space (bs i) = space then Inl i
      else scan_bindings bs space is
             (if primary_stamp (bs i) < primary_stamp (bs lru_pid) then i else lru_pid))"

definition mmu_activate :: "ptr \<Rightarrow> kernel \<Rightarrow> kernel run" where
  "mmu_activate space s =
     andthen (ASSERT (space \<noteq> NULL) ''space != NULL'') (\<lambda>_.
     let cpu = get_cpu_index s in
     case scan_bindings (pid_bindings (get_cpu_context s)) space [0..<PID_BINDING_COUNT] 0 of
       Inl i \<Rightarrow> (if \<not> pid_binding_is_primary (Some (cpu, i)) s
                then Inr (pid_binding_rebind (cpu, i) s) else Inr s)
     | Inr lru_pid \<Rightarrow> pid_binding_bind (cpu, lru_pid) space s)"

definition mmu_map :: "ptr \<Rightarrow> mmu_space_type \<Rightarrow> u8 \<Rightarrow> page_entry \<Rightarrow> kernel \<Rightarrow> (err_t \<times> kernel) run" where
  "mmu_map space ty virt entry s =
     andthen (read_task space s) (\<lambda>t.
     if \<not> unat virt < MAX_PAGE_COUNT
     then andthen (kprint (check_failed ERROR_CHECK_FAILED ''mmu_map'' ''src/drivers/dport.c'' 284) s)
            (\<lambda>s1. Inr (ERROR_CHECK_FAILED, s1))
     else
       let m = task_mmu t;
           put = entries_update (\<lambda>e. e(unat virt := entry));
           m' = (if ty = MMU_SPACE_CODE then m\<lparr>immu := put (immu m)\<rparr> else m\<lparr>dmmu := put (dmmu m)\<rparr>)
       in andthen (update_task space (task_mmu_update (\<lambda>_. m')) s) (\<lambda>s1.
          case binding m of
            Some b \<Rightarrow>
              (if entry_type entry = PAGE_MAPPED \<and> pid_binding_is_primary (Some b) s1
               then andthen (table_write (phys entry) (unat virt) (pid (pid_binding_at b s1))
                               (DPORT_IMMU_TABLE (dport s1)))
                      (\<lambda>tbl. Inr (NO_ERROR, s1\<lparr>dport := (dport s1)\<lparr>DPORT_IMMU_TABLE := tbl\<rparr>\<rparr>))
               else Inr (NO_ERROR, s1))
          | None \<Rightarrow> Inr (NO_ERROR, s1)))"

subsection \<open>Initialisation\<close>

definition init_mmu :: "kernel \<Rightarrow> err_t \<times> kernel" where
  "init_mmu s =
     (let d = dport s;
          d1 = d\<lparr>DPORT_IMMU_PAGE_MODE := 0, DPORT_DMMU_PAGE_MODE := 0\<rparr>;
          d2 = d1\<lparr>DPORT_IMMU_TABLE := (DPORT_IMMU_TABLE d1)(15 :=
                 (DPORT_IMMU_TABLE d1 15)\<lparr>address := 15, access_rights := 1\<rparr>)\<rparr>;
          d3 = d2\<lparr>DPORT_AHB_MPU_TABLE := fold (\<lambda>i f. f(i := 0)) [0..<2] (DPORT_AHB_MPU_TABLE d2)\<rparr>
      in (NO_ERROR, s\<lparr>dport := d3\<rparr>))"

fun init_bindings :: "nat list \<Rightarrow> (nat \<Rightarrow> pid_binding) \<Rightarrow> (nat \<Rightarrow> pid_binding)" where
  "init_bindings [] bs = bs"
| "init_bindings (i # is) bs = init_bindings is (bs(i := (bs i)\<lparr>pid := of_nat (i + 2)\<rparr>))"

definition init_pid :: "u32 \<Rightarrow> kernel \<Rightarrow> kernel" where
  "init_pid vecbase s =
     (let p = pidctrl s;
          p1 = p\<lparr>PIDCTRL_INTERRUPT_ADDR := (PIDCTRL_INTERRUPT_ADDR p)
                 (0 := vecbase + 0x340, 1 := vecbase + 0x180, 2 := vecbase + 0x1c0,
                  3 := vecbase + 0x200, 4 := vecbase + 0x240, 5 := vecbase + 0x280,
                  6 := vecbase + 0x2c0)\<rparr>;
          p2 = p1\<lparr>PIDCTRL_LEVEL := 0,
                  PIDCTRL_FROM := fold (\<lambda>i f. f(i := 0)) [0..<7] (PIDCTRL_FROM p1)\<rparr>;
          p3 = p2\<lparr>PIDCTRL_INTERRUPT_ENABLE := 0b11111110, PIDCTRL_PID_DELAY := 0\<rparr>;
          s1 = s\<lparr>pidctrl := p3\<rparr>;
          c = get_cpu_context s1
      in set_cpu_context (c\<lparr>pid_bindings := init_bindings [0..<PID_BINDING_COUNT] (pid_bindings c)\<rparr>) s1)"

text \<open>\<^verbatim>\<open>pid_prepare\<close> reads through the primary binding, which must not be \<^verbatim>\<open>NULL\<close>.\<close>

definition pid_prepare :: "kernel \<Rightarrow> kernel run" where
  "pid_prepare s =
     (case primary_binding (get_cpu_context s) of
        None \<Rightarrow> Inl (Undefined ''NULL binding'')
      | Some b \<Rightarrow> Inr (s\<lparr>pidctrl := (pidctrl s)\<lparr>PIDCTRL_PID_NEW_REG := ucast (pid (pid_binding_at b s))\<rparr>\<rparr>))"

subsection \<open>Where FOR\_EACH\_BIT ends\<close>

text \<open>
  The step removes the bits of the index, so it makes progress only if the mask shares a bit
  with the index of its lowest one. Otherwise a body that does not stop at that index runs for ever.
\<close>

lemma clear_disjoint:
  fixes w v :: "'a::len word"
  assumes "w AND v = 0" shows "w AND NOT v = w"
proof (rule bit_eqI)
  fix n show "bit (w AND NOT v) n \<longleftrightarrow> bit w n"
    using arg_cong [OF assms, of "\<lambda>u. bit u n"] by (auto simp: bit_simps dest: bit_imp_le_length)
qed

lemma for_each_bit_returns:
  fixes body :: "nat \<Rightarrow> 'a \<Rightarrow> 'a run"
  assumes "for_each_bit body num x = Some r" "\<And>y. \<exists>y'. body (ffs (ucast num :: u32)) y = Inr y'"
  shows "num = 0 \<or> num AND of_nat (ffs (ucast num :: u32)) \<noteq> 0"
proof -
  let ?P = "\<lambda>(body :: nat \<Rightarrow> 'a \<Rightarrow> 'a run) num (x :: 'a) (r :: 'a run). (\<forall>y. \<exists>y'. body (ffs (ucast num :: u32)) y = Inr y') \<longrightarrow>
    num = (0 :: u64) \<or> num AND of_nat (ffs (ucast num :: u32)) \<noteq> 0"
  have "?P body num x r"
  proof (rule for_each_bit.raw_induct [of ?P "((body, num), x)" r, unfolded prod.case])
    fix fe :: "(nat \<Rightarrow> 'a \<Rightarrow> 'a run) \<Rightarrow> u64 \<Rightarrow> 'a \<Rightarrow> 'a run option"
      and body :: "nat \<Rightarrow> 'a \<Rightarrow> 'a run" and num :: u64 and x :: 'a and r :: "'a run"
    assume IH: "\<And>body num x r. fe body num x = Some r \<Longrightarrow> ?P body num x r"
      and run: "(if num = 0 then Some (Inr x)
        else let it = ffs (ucast num :: u32) in
          (case body it x of Inl e \<Rightarrow> Some (Inl e) | Inr y \<Rightarrow> fe body (num AND NOT (of_nat it)) y)) = Some r"
    show "?P body num x r"
    proof (intro impI, rule ccontr)
      assume ok: "\<forall>y. \<exists>y'. body (ffs (ucast num :: u32)) y = Inr y'"
        and "\<not> (num = 0 \<or> num AND of_nat (ffs (ucast num :: u32)) \<noteq> 0)"
      then have nz: "num \<noteq> 0" and z: "num AND of_nat (ffs (ucast num :: u32)) = 0" by blast+
      obtain y where "body (ffs (ucast num :: u32)) x = Inr y" using ok by blast
      then have "fe body num y = Some r" using run nz clear_disjoint [OF z] by (simp add: Let_def)
      from IH [OF this] nz z ok show False by blast
    qed
  qed (rule assms(1))
  then show ?thesis using assms(2) by blast
qed

lemma for_each_bit_spins:
  assumes "num \<noteq> 0" "num AND of_nat (ffs (ucast num :: u32)) = 0" "\<And>y. \<exists>y'. body (ffs (ucast num :: u32)) y = Inr y'"
  shows "FOR_EACH_BIT num body x = Inl Spin"
proof -
  have "for_each_bit body num x = None"
    using for_each_bit_returns [of body num x] assms by (cases "for_each_bit body num x") blast+
  then show ?thesis by (simp add: FOR_EACH_BIT_def)
qed

end
