(* ===== verification/Mmu_Tables.thy ===== *)
theory Mmu_Tables
  imports Mmu
begin

section \<open>What the two page tables grant\<close>

text \<open>
  A specification of one page table: which space owns each of the six user PIDs, and that a
  register carries a PID exactly when that PID's space maps the page, at the register's virtual
  index (\<open>tbl_ok\<close>). Unloading a space takes its PID's owner away, loading a space with pages
  of its own gives it one. The lemmas are about one table, and serve code and data alike.
\<close>

definition maps_page :: "mmu_space \<Rightarrow> nat \<Rightarrow> nat \<Rightarrow> bool" where
  "maps_page sp virt q \<longleftrightarrow> virt < 16 \<and> entry_type (entries sp virt) = PAGE_MAPPED \<and>
     unat (phys (entries sp virt)) = q"

definition pages_of :: "mmu_space \<Rightarrow> nat set" where
  "pages_of sp = {q. \<exists>virt. maps_page sp virt q}"

definition space_wf :: "nat \<Rightarrow> mmu_space \<Rightarrow> bool" where
  "space_wf n sp \<longleftrightarrow> pages_of sp \<subseteq> {..<n} \<and>
     (\<forall>v v' q. maps_page sp v q \<longrightarrow> maps_page sp v' q \<longrightarrow> v = v')"

definition pid_of_slot :: "nat \<Rightarrow> 'a::len word" where
  "pid_of_slot k = of_nat (k + 2)"

definition tbl_ok :: "(nat \<Rightarrow> mmu_table_reg) \<Rightarrow> (nat \<Rightarrow> mmu_space option) \<Rightarrow> bool" where
  "tbl_ok tbl owner \<longleftrightarrow> (\<forall>q < 16. \<forall>k < 6. \<forall>v.
     access_rights (tbl q) = pid_of_slot k \<and> unat (address (tbl q)) = v \<longleftrightarrow>
     (\<exists>sp. owner k = Some sp \<and> maps_page sp v q))"

subsection \<open>PIDs as numbers\<close>

lemma unat_pid_of_slot [simp]:
  "k < 6 \<Longrightarrow> unat (pid_of_slot k :: u8) = k + 2"
  "k < 6 \<Longrightarrow> unat (pid_of_slot k :: 3 word) = k + 2"
  unfolding pid_of_slot_def unat_of_nat by simp_all

lemma ucast_pid_of_slot [simp]: "k < 6 \<Longrightarrow> ucast (pid_of_slot k :: u8) = (pid_of_slot k :: 3 word)"
  by (simp add: word_unat_eq_iff unsigned_ucast_eq take_bit_eq_mod)

lemma pid_of_slot_inject [simp]:
  "k < 6 \<Longrightarrow> j < 6 \<Longrightarrow> (pid_of_slot k :: 3 word) = pid_of_slot j \<longleftrightarrow> k = j"
  by (simp add: word_unat_eq_iff)

lemma pid_of_slot_not_small [simp]:
  "k < 6 \<Longrightarrow> (pid_of_slot k :: 3 word) \<noteq> 0" "k < 6 \<Longrightarrow> (pid_of_slot k :: 3 word) \<noteq> 1"
  by (simp_all add: word_unat_eq_iff)

lemma uint_eq_pid_of_slot:
  "k < 6 \<Longrightarrow> uint (r :: 3 word) = uint (pid_of_slot k :: u8) \<longleftrightarrow> r = pid_of_slot k"
  by (simp only: uint_nat of_nat_eq_iff word_unat_eq_iff unat_pid_of_slot)

subsection \<open>Unloading\<close>

definition unloaded_at :: "u8 \<Rightarrow> nat set \<Rightarrow> (nat \<Rightarrow> mmu_table_reg) \<Rightarrow> (nat \<Rightarrow> mmu_table_reg)" where
  "unloaded_at hw S tbl = (\<lambda>q. if q \<in> S then clear_rights hw (tbl q) else tbl q)"

lemma clear_rights_idem [simp]: "clear_rights hw (clear_rights hw r) = clear_rights hw r"
  by (simp add: clear_rights_def)

lemma unloaded_at_Cons:
  "unloaded_at hw S (tbl(i := clear_rights hw (tbl i))) = unloaded_at hw (insert i S) tbl"
  by (auto simp: unloaded_at_def fun_eq_iff)

lemma unload_entries_eq:
  "mmu_unload_entries hw is d = d
    \<lparr>DPORT_IMMU_TABLE := unloaded_at hw (set is) (DPORT_IMMU_TABLE d),
     DPORT_DMMU_TABLE := unloaded_at hw (set is) (DPORT_DMMU_TABLE d)\<rparr>"
proof (induction "is" arbitrary: d)
  case Nil
  show ?case by (simp add: unloaded_at_def)
qed (simp add: unloaded_at_Cons)

abbreviation unloaded :: "u8 \<Rightarrow> (nat \<Rightarrow> mmu_table_reg) \<Rightarrow> (nat \<Rightarrow> mmu_table_reg)" where
  "unloaded hw tbl \<equiv> unloaded_at hw {0..<16} tbl"

lemma unloaded_ok:
  assumes "tbl_ok tbl owner" "k < 6"
  shows "tbl_ok (unloaded (pid_of_slot k) tbl) (owner(k := None))"
  unfolding tbl_ok_def
proof (intro allI impI)
  fix q j v :: nat assume q: "q < 16" and j: "j < 6"
  let ?r = "unloaded (pid_of_slot k) tbl q"
  have r: "?r = (if access_rights (tbl q) = pid_of_slot k
      then (tbl q)\<lparr>access_rights := 0\<rparr> else tbl q)"
    using q assms(2) by (simp add: unloaded_at_def clear_rights_def uint_eq_pid_of_slot)
  have own: "access_rights (tbl q) = pid_of_slot i \<and> unat (address (tbl q)) = u \<longleftrightarrow>
      (\<exists>sp. owner i = Some sp \<and> maps_page sp u q)" if "i < 6" for i u
    using assms(1) q that by (simp add: tbl_ok_def)
  show "(access_rights ?r = pid_of_slot j \<and> unat (address ?r) = v) =
      (\<exists>sp. (owner(k := None)) j = Some sp \<and> maps_page sp v q)"
  proof (cases "access_rights (tbl q) = pid_of_slot k")
    case True
    then have "\<not> (\<exists>sp. owner j = Some sp \<and> maps_page sp v q)" if "j \<noteq> k"
      using own [OF j, of v] that assms(2) j by auto
    with True j show ?thesis by (cases "j = k") (auto simp: r)
  next
    case False
    with own [OF j, of v] show ?thesis by (cases "j = k") (auto simp: r)
  qed
qed

subsection \<open>Loading\<close>

text \<open>The table after the entries of the listed virtual indices were loaded, last one winning.\<close>

fun loaded :: "u8 \<Rightarrow> mmu_space \<Rightarrow> nat list \<Rightarrow> (nat \<Rightarrow> mmu_table_reg) \<Rightarrow> (nat \<Rightarrow> mmu_table_reg)" where
  "loaded hw sp [] tbl = tbl"
| "loaded hw sp (v # vs) tbl = loaded hw sp vs
     (if entry_type (entries sp v) = PAGE_MAPPED
      then let q = unat (phys (entries sp v)) in
           tbl(q := (tbl q)\<lparr>address := of_nat v, access_rights := ucast hw\<rparr>) else tbl)"

lemma load_entry_ok:
  "space_wf n sp \<Longrightarrow> n \<le> 16 \<Longrightarrow> v < 16 \<Longrightarrow> load_entry hw sp v tbl = Inr (loaded hw sp [v] tbl)"
  by (auto simp: load_entry_def table_write_def space_wf_def pages_of_def maps_page_def Let_def subset_iff)

lemma mmu_load_entries_ok:
  assumes "space_wf n (immu m)" "n \<le> 16" "space_wf n' (dmmu m)" "n' \<le> 16" "set vs \<subseteq> {..<16}"
  shows "mmu_load_entries hw m vs d = Inr (d
    \<lparr>DPORT_IMMU_TABLE := loaded hw (immu m) vs (DPORT_IMMU_TABLE d),
     DPORT_DMMU_TABLE := loaded hw (dmmu m) vs (DPORT_DMMU_TABLE d)\<rparr>)"
  using assms(5)
proof (induction vs arbitrary: d)
  case Nil
  show ?case by simp
next
  case (Cons v vs)
  then have "v < 16" by simp
  with Cons show ?case
    using load_entry_ok [OF assms(1,2)] load_entry_ok [OF assms(3,4)] by simp
qed

lemma loaded_miss: "(\<And>v. v \<in> set vs \<Longrightarrow> \<not> maps_page sp v q) \<Longrightarrow> set vs \<subseteq> {..<16} \<Longrightarrow>
    loaded hw sp vs tbl q = tbl q"
  by (induction vs arbitrary: tbl) (auto simp: Let_def maps_page_def)

lemma loaded_hit:
  assumes "space_wf n sp" "maps_page sp v q" "v \<in> set vs" "set vs \<subseteq> {..<16}"
  shows "address (loaded hw sp vs tbl q) = of_nat v \<and>
    access_rights (loaded hw sp vs tbl q) = ucast hw"
  using assms(3,4)
proof (induction vs arbitrary: tbl)
  case (Cons w vs)
  show ?case
  proof (cases "v \<in> set vs")
    case True
    with Cons show ?thesis by simp
  next
    case False
    with Cons.prems have w: "w = v" by simp
    have "\<not> maps_page sp u q" if "u \<in> set vs" for u
      using that False assms(1,2) by (auto simp: space_wf_def)
    then have miss: "loaded hw sp vs t q = t q" for t
      using Cons.prems(2) by (intro loaded_miss) auto
    show ?thesis using assms(2) by (simp add: w miss Let_def maps_page_def)
  qed
qed simp

lemma loaded_ok:
  assumes ok: "tbl_ok tbl owner" and k: "k < 6" "owner k = None"
    and wf: "space_wf n sp"
    and disj: "\<And>j sp'. j < 6 \<Longrightarrow> owner j = Some sp' \<Longrightarrow> pages_of sp \<inter> pages_of sp' = {}"
  shows "tbl_ok (loaded (pid_of_slot k) sp [0..<16] tbl) (owner(k := Some sp))"
  unfolding tbl_ok_def
proof (intro allI impI)
  fix q j v :: nat assume q: "q < 16" and j: "j < 6"
  let ?r = "loaded (pid_of_slot k) sp [0..<16] tbl q"
  show "(access_rights ?r = pid_of_slot j \<and> unat (address ?r) = v) =
      (\<exists>sp'. (owner(k := Some sp)) j = Some sp' \<and> maps_page sp' v q)"
  proof (cases "\<exists>u. maps_page sp u q")
    case True
    then obtain u where u: "maps_page sp u q" by blast
    then have u16: "u < 16" by (simp add: maps_page_def)
    have r: "address ?r = of_nat u" "access_rights ?r = pid_of_slot k"
      using loaded_hit [OF wf u, of "[0..<16]" "pid_of_slot k" tbl] u16 k by (auto simp: atLeast0LessThan)
    have "unat (address ?r) = u" using r(1) u16 by (simp add: unat_of_nat)
    moreover have "\<And>sp'. owner j = Some sp' \<Longrightarrow> \<not> maps_page sp' v q"
      using disj [OF j] u unfolding pages_of_def by blast
    ultimately show ?thesis using wf u r(2) k j by (auto simp: space_wf_def)
  next
    case False
    then have "?r = tbl q" by (intro loaded_miss) auto
    with False ok q j k show ?thesis by (cases "j = k") (auto simp: tbl_ok_def)
  qed
qed

text \<open>A page the space does not map keeps its register.\<close>

lemma loaded_other: "q \<notin> pages_of sp \<Longrightarrow> loaded hw sp [0..<16] tbl q = tbl q"
  by (rule loaded_miss) (auto simp: pages_of_def)

lemma unloaded_public: "access_rights (tbl q) = 1 \<Longrightarrow> k < 6 \<Longrightarrow> unloaded (pid_of_slot k) tbl q = tbl q"
  using uint_eq_pid_of_slot [of k "access_rights (tbl q)"] by (auto simp: unloaded_at_def clear_rights_def)

subsection \<open>FOR_EACH_BIT\<close>

lemma FOR_EACH_BIT_zero [simp]: "FOR_EACH_BIT 0 body x = Inr x"
  by (simp add: FOR_EACH_BIT_def for_each_bit.simps)

text \<open>One turn of the loop.\<close>

lemma FOR_EACH_BIT_step:
  "FOR_EACH_BIT num body x = (if num = 0 then Inr x
     else andthen (body (ffs (ucast num :: u32)) x)
       (FOR_EACH_BIT (num AND NOT (of_nat (ffs (ucast num :: u32)))) body))"
  by (cases "body (ffs (ucast num :: u32)) x")
    (simp_all add: FOR_EACH_BIT_def for_each_bit.simps [of body num x] Let_def)

lemma ffs_first: "bit w k \<Longrightarrow> (\<And>i. i < k \<Longrightarrow> \<not> bit w i) \<Longrightarrow> ffs w = Suc k" for w :: "'a::len word"
proof -
  assume k: "bit w k" "\<And>i. i < k \<Longrightarrow> \<not> bit w i"
  have "Min (bits_of w) = k"
    using k by (intro Min_eqI) (auto simp: bits_of_def not_less [symmetric] dest: bit_imp_le_length)
  moreover have "w \<noteq> 0" using k(1) by auto
  ultimately show ?thesis by (simp add: ffs_eq_Suc_Min)
qed

lemma ffs_bit: "ffs w = Suc k \<Longrightarrow> bit w k" for w :: "'a::len word"
  by (auto simp: ffs_def find_Some_iff split: option.splits)

text \<open>
  With an MPU entry as its body the loop goes on only for the two lowest bits, whose one-based indices are
  themselves: it writes entry 2 for bit 0 and entry 4 for bit 1. The index of any higher bit is either one
  whose bits are clear by then, so that the mask stays, or it is 6 or more, and \<open>2 ^ it\<close> is outside the table.
\<close>

definition low_entries :: "(u32 \<Rightarrow> u32) \<Rightarrow> u64 \<Rightarrow> (nat \<Rightarrow> u32) \<Rightarrow> nat \<Rightarrow> u32" where
  "low_entries f num tbl = (\<lambda>i. if i = 2 \<and> bit num 0 \<or> i = 4 \<and> bit num 1 then f (tbl i) else tbl i)"

lemma mpu_loop_high:
  assumes low: "\<not> bit num 0" "\<not> bit num 1"
  shows "FOR_EACH_BIT num (\<lambda>it. mpu_write (2 ^ it) f) tbl =
    (if num = 0 then Inr tbl else if ffs (ucast num :: u32) \<le> 5 then Inl Spin else Inl (Undefined ''MPU table index''))"
proof (cases "num = 0 \<or> 5 < ffs (ucast num :: u32)")
  case True
  have "\<not> 2 ^ ffs (ucast num :: u32) < MPU_LAST" if "5 < ffs (ucast num :: u32)"
    using power_increasing [of 6 "ffs (ucast num :: u32)" "2 :: nat"] that by (simp add: MPU_LAST_def)
  then show ?thesis using True by (auto simp: FOR_EACH_BIT_step [of num] mpu_write_def)
next
  case False
  let ?it = "ffs (ucast num :: u32)"
  have b: "?it = Suc k \<Longrightarrow> bit num k" for k using ffs_bit [of "ucast num :: u32" k] by (simp add: bit_simps)
  have it: "?it = 0 \<or> ?it = 3 \<or> ?it = 4 \<or> ?it = 5"
  proof -
    have "?it \<noteq> 1" "?it \<noteq> 2" using low b [of 0] b [of 1] by auto
    then show ?thesis using False by linarith
  qed
  have before: "\<not> bit num i" if "?it = Suc k" "i < k" for i k
  proof
    assume i: "bit num i"
    have "k < 32" using ffs_bit [OF that(1)] by (auto dest: bit_imp_le_length)
    then have "bit (ucast num :: u32) i" using i that(2) by (simp add: bit_simps)
    then show False using that by (auto simp: ffs_def find_Some_iff split: option.splits)
  qed
  have "num AND of_nat ?it = 0"
  proof (rule bit_word_eqI)
    fix n assume "n < LENGTH(64)"
    have n: "n = 0 \<or> n = 1 \<or> n = 2 \<or> 3 \<le> n" by linarith
    have "\<not> bit v n" if "3 \<le> n" "drop_bit 3 v = 0" for v :: u64
    proof -
      have "bit (drop_bit 3 v) (n - 3) \<longleftrightarrow> bit v n" using that(1) by (simp add: bit_drop_bit_eq)
      then show ?thesis using that(2) by simp
    qed
    note high = this
    have "\<not> bit (5 :: u64) n" "\<not> bit (4 :: u64) n" "\<not> bit (3 :: u64) n" if "3 \<le> n"
      by (rule high [OF that]; simp)+
    then show "bit (num AND of_nat ?it) n = bit 0 n"
      using it n low before [of 3 2] before [of 4 2] by (elim disjE) (auto simp: bit_simps)
  qed
  moreover have "2 ^ ?it < MPU_LAST" using it by (elim disjE) (simp_all add: MPU_LAST_def)
  ultimately have "FOR_EACH_BIT num (\<lambda>it. mpu_write (2 ^ it) f) tbl = Inl Spin"
    using False by (intro for_each_bit_spins) (auto simp: mpu_write_def)
  then show ?thesis using False by simp
qed

lemma mpu_loop:
  "FOR_EACH_BIT num (\<lambda>it. mpu_write (2 ^ it) f) tbl =
    (if num AND NOT 3 = 0 then Inr (low_entries f num tbl)
     else if ffs (ucast (num AND NOT 3) :: u32) \<le> 5 then Inl Spin else Inl (Undefined ''MPU table index''))"
proof -
  let ?loop = "\<lambda>n. FOR_EACH_BIT n (\<lambda>it. mpu_write (2 ^ it) f)"
  have w: "mpu_write i f t = Inr (t(i := f (t i)))" if "i < 47" for i t using that by (simp add: mpu_write_def MPU_LAST_def)
  define m where "m = num AND NOT 1"
  have three: "bit (3 :: u64) n \<longleftrightarrow> n = 0 \<or> n = 1" "bit (2 :: u64) n \<longleftrightarrow> n = 1" for n
  proof -
    have v: "(3 :: u64) = mask 2" "(2 :: u64) = push_bit 1 1" by (simp_all add: mask_eq_exp_minus_1)
    show "bit (3 :: u64) n \<longleftrightarrow> n = 0 \<or> n = 1" unfolding v(1) bit_mask_iff by auto
    show "bit (2 :: u64) n \<longleftrightarrow> n = 1" unfolding v(2) by (auto simp: bit_simps bit_1_iff)
  qed
  have first: "?loop num tbl = ?loop m (if bit num 0 then tbl(2 := f (tbl 2)) else tbl)"
  proof (cases "bit num 0")
    case True
    then have "ffs (ucast num :: u32) = 1" "num \<noteq> 0" using ffs_first [of "ucast num :: u32" 0] by (auto simp: bit_simps)
    then show ?thesis using True by (subst FOR_EACH_BIT_step) (simp add: w m_def)
  next
    case False
    then have "m = num" unfolding m_def by (intro bit_word_eqI) (auto simp: bit_simps bit_1_iff intro!: gr0I)
    then show ?thesis using False by simp
  qed
  have "m AND NOT 2 = num AND NOT 3"
    by (rule bit_word_eqI) (simp only: m_def bit_and_iff bit_not_iff_eq bit_not_iff three bit_1_iff, auto simp: possible_bit_def)
  then have m: "\<not> bit m 0" "bit m 1 = bit num 1" "m AND NOT 2 = num AND NOT 3"
    by (simp_all add: m_def bit_simps bit_1_iff)
  have second: "?loop m t = ?loop (num AND NOT 3) (if bit num 1 then t(4 := f (t 4)) else t)" for t
  proof (cases "bit num 1")
    case True
    then have "ffs (ucast m :: u32) = 2" using ffs_first [of "ucast m :: u32" 1] m by (simp add: bit_simps numeral_2_eq_2)
    moreover have "m \<noteq> 0" using True m(2) by auto
    ultimately show ?thesis using True m(3) by (subst FOR_EACH_BIT_step) (simp add: w)
  next
    case False
    then have "m AND NOT 2 = m" using m(2) by (intro bit_word_eqI) (auto simp: bit_simps three)
    then show ?thesis using False m(3) by simp
  qed
  have "low_entries f num tbl = (let t = if bit num 0 then tbl(2 := f (tbl 2)) else tbl in if bit num 1 then t(4 := f (t 4)) else t)"
    by (auto simp: low_entries_def fun_eq_iff Let_def)
  then show ?thesis
    unfolding first second by (subst mpu_loop_high) (auto simp: bit_simps three Let_def)
qed

end
