(* ===== verification/Mmu_Isolation.thy ===== *)
theory Mmu_Isolation
  imports Mmu_Tables
begin

section \<open>Isolation of address spaces\<close>

text \<open>
  The invariant of the MMU driver (\<open>mmu_inv\<close>): binding \<open>k\<close> has hardware PID \<open>k + 2\<close>; a bound
  space points back at its binding; spaces map pairwise disjoint pages, never the vDSO code
  page; and both page tables grant exactly what the bound spaces map. \<open>mmu_activate\<close> never
  stops under it, keeps it, and makes the requested space the primary one.
\<close>

definition the_binding :: "nat \<Rightarrow> kernel \<Rightarrow> pid_binding" where
  "the_binding k s = pid_bindings (get_cpu_context s) k"

definition owner :: "(mmu \<Rightarrow> mmu_space) \<Rightarrow> kernel \<Rightarrow> nat \<Rightarrow> mmu_space option" where
  "owner sel s k = (let p = bound_space (the_binding k s) in
     if p = NULL then None else map_option (\<lambda>t. sel (task_mmu t)) (tasks s p))"

definition bindings_ok :: "kernel \<Rightarrow> bool" where
  "bindings_ok s \<longleftrightarrow> (\<forall>k < 6. pid (the_binding k s) = pid_of_slot k \<and>
     (bound_space (the_binding k s) \<noteq> NULL \<longrightarrow>
       (\<exists>t. tasks s (bound_space (the_binding k s)) = Some t \<and>
            binding (task_mmu t) = Some (get_cpu_index s, k))))"

definition tasks_ok :: "(ptr \<rightharpoonup> task) \<Rightarrow> bool" where
  "tasks_ok ts \<longleftrightarrow> ts NULL = None \<and>
     (\<forall>p t. ts p = Some t \<longrightarrow> mpu_peripheral (task_mmu t) = 0 \<and>
        space_wf 15 (immu (task_mmu t)) \<and> space_wf 16 (dmmu (task_mmu t))) \<and>
     (\<forall>p p' t t'. ts p = Some t \<longrightarrow> ts p' = Some t' \<longrightarrow> p \<noteq> p' \<longrightarrow>
        pages_of (immu (task_mmu t)) \<inter> pages_of (immu (task_mmu t')) = {} \<and>
        pages_of (dmmu (task_mmu t)) \<inter> pages_of (dmmu (task_mmu t')) = {})"

definition vdso_ok :: "dport \<Rightarrow> bool" where
  "vdso_ok d \<longleftrightarrow> address (DPORT_IMMU_TABLE d 15) = 15 \<and> access_rights (DPORT_IMMU_TABLE d 15) = 1"

definition mmu_inv :: "kernel \<Rightarrow> bool" where
  "mmu_inv s \<longleftrightarrow> bindings_ok s \<and> tasks_ok (tasks s) \<and> vdso_ok (dport s) \<and>
     tbl_ok (DPORT_IMMU_TABLE (dport s)) (owner immu s) \<and>
     tbl_ok (DPORT_DMMU_TABLE (dport s)) (owner dmmu s)"

text \<open>The space the current core would run, and everything the MMU driver leaves alone.\<close>

definition active_space :: "kernel \<Rightarrow> ptr option" where
  "active_space s = (case primary_binding (get_cpu_context s) of
     Some (c, k) \<Rightarrow> if c = get_cpu_index s \<and> k < 6 \<and> bound_space (the_binding k s) \<noteq> NULL
                    then Some (bound_space (the_binding k s)) else None
   | None \<Rightarrow> None)"

definition same_but_mmu :: "kernel \<Rightarrow> kernel \<Rightarrow> bool" where
  "same_but_mmu s s' \<longleftrightarrow>
     prid s' = prid s \<and> pidctrl s' = pidctrl s \<and> timg s' = timg s \<and> mem s' = mem s \<and>
     m_global_run_queue s' = m_global_run_queue s \<and>
     m_global_run_queue_size s' = m_global_run_queue_size s \<and>
     umem s' = umem s \<and> m_pid_gen s' = m_pid_gen s \<and> console s' = console s \<and>
     (\<exists>b. tasks s' = (\<lambda>p. map_option (\<lambda>t. set_binding (b p t) t) (tasks s p))) \<and>
     current_task (get_cpu_context s') = current_task (get_cpu_context s) \<and>
     preempt_disable_depth (get_cpu_context s') = preempt_disable_depth (get_cpu_context s) \<and>
     park_callback (get_cpu_context s') = park_callback (get_cpu_context s) \<and>
     park_arg (get_cpu_context s') = park_arg (get_cpu_context s)"

subsection \<open>Reading bindings through updates\<close>

lemma set_binding_simps [simp]:
  "immu (task_mmu (set_binding b t)) = immu (task_mmu t)"
  "dmmu (task_mmu (set_binding b t)) = dmmu (task_mmu t)"
  "mpu_peripheral (task_mmu (set_binding b t)) = mpu_peripheral (task_mmu t)"
  "binding (task_mmu (set_binding b t)) = b"
  "status (set_binding b t) = status t"
  "sched_link (set_binding b t) = sched_link t"
  "ucontext (set_binding b t) = ucontext t"
  "task_pid (set_binding b t) = task_pid t"
  "set_binding b (set_binding b' t) = set_binding b t"
  by (simp_all add: set_binding_def)

lemma set_binding_id: "set_binding (binding (task_mmu t)) t = t"
  by (simp add: set_binding_def)

lemma clear_mask_id: "mpu_peripheral (task_mmu t) = 0 \<Longrightarrow> clear_mask t = t"
  by (simp add: clear_mask_def)

lemma pid_binding_at_own [simp]: "pid_binding_at (get_cpu_index s, k) s = the_binding k s"
  by (simp add: pid_binding_at_def the_binding_def get_cpu_context_def)

lemma update_binding_frame [simp]:
  "tasks (update_binding r f s) = tasks s" "dport (update_binding r f s) = dport s"
  "pidctrl (update_binding r f s) = pidctrl s" "timg (update_binding r f s) = timg s"
  "mem (update_binding r f s) = mem s" "umem (update_binding r f s) = umem s"
  "m_global_run_queue (update_binding r f s) = m_global_run_queue s"
  "m_global_run_queue_size (update_binding r f s) = m_global_run_queue_size s"
  "prid (update_binding r f s) = prid s" "m_pid_gen (update_binding r f s) = m_pid_gen s"
  "console (update_binding r f s) = console s"
  "get_cpu_index (update_binding r f s) = get_cpu_index s"
  by (simp_all add: update_binding_def get_cpu_index_def)

lemma get_cpu_context_update_binding [simp]:
  "get_cpu_context (update_binding (get_cpu_index s, k) f s) =
     (get_cpu_context s)\<lparr>pid_bindings := (pid_bindings (get_cpu_context s))(k := f (the_binding k s))\<rparr>"
  by (simp add: update_binding_def get_cpu_context_def get_cpu_index_def the_binding_def pid_binding_at_def)

lemma the_binding_update_binding [simp]:
  "the_binding j (update_binding (get_cpu_index s, k) f s) =
     (if j = k then f (the_binding k s) else the_binding j s)"
  by (simp add: the_binding_def)

lemma the_binding_frame [simp]:
  "the_binding k (s\<lparr>tasks := ts\<rparr>) = the_binding k s"
  "the_binding k (s\<lparr>dport := d\<rparr>) = the_binding k s"
  "the_binding k (set_cpu_context c s) = pid_bindings c k"
  by (simp_all add: the_binding_def)

lemma make_primary_simps [simp]:
  "tasks (make_primary b s) = tasks s" "dport (make_primary b s) = dport s"
  "pidctrl (make_primary b s) = pidctrl s" "timg (make_primary b s) = timg s"
  "mem (make_primary b s) = mem s" "umem (make_primary b s) = umem s"
  "m_global_run_queue (make_primary b s) = m_global_run_queue s"
  "m_global_run_queue_size (make_primary b s) = m_global_run_queue_size s"
  "prid (make_primary b s) = prid s" "m_pid_gen (make_primary b s) = m_pid_gen s"
  "console (make_primary b s) = console s"
  "get_cpu_index (make_primary b s) = get_cpu_index s"
  by (simp_all add: make_primary_def Let_def)

lemma make_primary_context:
  "get_cpu_context (make_primary (get_cpu_index s, k) s) =
     (get_cpu_context s)\<lparr>next_stamp := next_stamp (get_cpu_context s) + 1,
        pid_bindings := (pid_bindings (get_cpu_context s))
          (k := (the_binding k s)\<lparr>primary_stamp := next_stamp (get_cpu_context s)\<rparr>),
        primary_binding := Some (get_cpu_index s, k)\<rparr>"
proof -
  let ?s1 = "set_cpu_context ((get_cpu_context s)\<lparr>next_stamp := next_stamp (get_cpu_context s) + 1\<rparr>) s"
  have "get_cpu_index ?s1 = get_cpu_index s" by simp
  then show ?thesis
    using get_cpu_context_update_binding [of ?s1]
    by (simp add: make_primary_def Let_def the_binding_def)
qed

lemma the_binding_make_primary [simp]:
  "the_binding j (make_primary (get_cpu_index s, k) s) =
     (if j = k then (the_binding k s)\<lparr>primary_stamp := next_stamp (get_cpu_context s)\<rparr>
      else the_binding j s)"
  by (simp add: the_binding_def make_primary_context)

lemma owner_make_primary [simp]:
  "owner sel (make_primary (get_cpu_index s, k) s) = owner sel s"
  by (auto simp: owner_def fun_eq_iff Let_def)

subsection \<open>The search for a binding\<close>

lemma scan_Inl:
  "scan_bindings bs space is lru = Inl i \<Longrightarrow> i \<in> set is \<and> bound_space (bs i) = space"
  by (induction "is" arbitrary: lru) (auto split: if_splits)

lemma scan_Inr:
  "scan_bindings bs space is lru = Inr j \<Longrightarrow>
     (\<forall>i \<in> set is. bound_space (bs i) \<noteq> space) \<and> j \<in> insert lru (set is) \<and>
     (\<forall>i \<in> insert lru (set is). primary_stamp (bs j) \<le> primary_stamp (bs i))"
proof (induction "is" arbitrary: lru)
  case (Cons i "is")
  let ?l = "if primary_stamp (bs i) < primary_stamp (bs lru) then i else lru"
  from Cons.prems have ne: "bound_space (bs i) \<noteq> space"
    and rest: "scan_bindings bs space is ?l = Inr j" by (auto split: if_splits)
  from Cons.IH [OF rest] ne show ?case by (auto split: if_splits)
qed auto

subsection \<open>Binding a space\<close>

lemma tasks_okD:
  assumes "tasks_ok ts" "ts p = Some t"
  shows "mpu_peripheral (task_mmu t) = 0" "space_wf 15 (immu (task_mmu t))"
    "space_wf 16 (dmmu (task_mmu t))" "p \<noteq> NULL"
  using assms by (auto simp: tasks_ok_def)

lemma mmu_load_eq:
  assumes "tasks_ok (tasks s)" "tasks s p = Some t" "binding (task_mmu t) = Some b"
  shows "mmu_load p s = Inr (s\<lparr>dport := (dport s)
    \<lparr>DPORT_IMMU_TABLE := loaded (pid (pid_binding_at b s)) (immu (task_mmu t)) [0..<16] (DPORT_IMMU_TABLE (dport s)),
     DPORT_DMMU_TABLE := loaded (pid (pid_binding_at b s)) (dmmu (task_mmu t)) [0..<16] (DPORT_DMMU_TABLE (dport s))\<rparr>\<rparr>)"
proof -
  note ok = tasks_okD [OF assms(1,2)]
  have "mmu_load_entries hw (task_mmu t) [0..<16] (dport s) = Inr ((dport s)
    \<lparr>DPORT_IMMU_TABLE := loaded hw (immu (task_mmu t)) [0..<16] (DPORT_IMMU_TABLE (dport s)),
     DPORT_DMMU_TABLE := loaded hw (dmmu (task_mmu t)) [0..<16] (DPORT_DMMU_TABLE (dport s))\<rparr>)" for hw
    by (rule mmu_load_entries_ok [OF ok(2) _ ok(3)]) auto
  then show ?thesis
    using assms(2,3) ok(1) by (simp add: mmu_load_def space_pid_def clear_mask_id map_upd_triv)
qed

lemma mmu_unload_eq:
  assumes "tasks_ok (tasks s)" "tasks s p = Some t" "binding (task_mmu t) = Some b"
  shows "mmu_unload p s = Inr (s\<lparr>dport := (dport s)
    \<lparr>DPORT_IMMU_TABLE := unloaded (pid (pid_binding_at b s)) (DPORT_IMMU_TABLE (dport s)),
     DPORT_DMMU_TABLE := unloaded (pid (pid_binding_at b s)) (DPORT_DMMU_TABLE (dport s))\<rparr>\<rparr>)"
  using assms(2,3) tasks_okD [OF assms(1,2)]
  by (simp add: mmu_unload_def space_pid_def unload_entries_eq clear_mask_id map_upd_triv Let_def
      del: upt.simps upt_rec_numeral)

text \<open>The tables after \<^verbatim>\<open>pid_binding_bind\<close>: the old space unloaded, the new one loaded.\<close>

definition rebound :: "u8 \<Rightarrow> bool \<Rightarrow> mmu_space \<Rightarrow> (nat \<Rightarrow> mmu_table_reg) \<Rightarrow> (nat \<Rightarrow> mmu_table_reg)" where
  "rebound hw evict sp tbl = loaded hw sp [0..<16] (if evict then unloaded hw tbl else tbl)"

lemma tasks_ok_set_binding:
  assumes "tasks_ok ts" "ts p = Some t"
  shows "tasks_ok (ts(p \<mapsto> set_binding b t))"
  using assms unfolding tasks_ok_def by (auto split: if_splits)

lemma pid_binding_bind_eq:
  assumes inv: "mmu_inv s" and k: "k < 6" and t: "tasks s p = Some t"
    and unbound: "\<forall>j < 6. bound_space (the_binding j s) \<noteq> p"
  shows "pid_binding_bind (get_cpu_index s, k) p s = Inr (make_primary (get_cpu_index s, k)
    ((update_binding (get_cpu_index s, k) (bound_space_update (\<lambda>_. p)) s)
      \<lparr>tasks := (tasks s)(p \<mapsto> set_binding (Some (get_cpu_index s, k)) t),
       dport := (dport s)
         \<lparr>DPORT_IMMU_TABLE := rebound (pid_of_slot k) (bound_space (the_binding k s) \<noteq> NULL)
            (immu (task_mmu t)) (DPORT_IMMU_TABLE (dport s)),
          DPORT_DMMU_TABLE := rebound (pid_of_slot k) (bound_space (the_binding k s) \<noteq> NULL)
            (dmmu (task_mmu t)) (DPORT_DMMU_TABLE (dport s))\<rparr>\<rparr>))"
proof -
  let ?c = "get_cpu_index s"
  let ?old = "bound_space (the_binding k s)"
  let ?s1 = "update_binding (?c, k) (bound_space_update (\<lambda>_. p)) s"
  from inv have bok: "bindings_ok s" and tok: "tasks_ok (tasks s)" by (auto simp: mmu_inv_def)
  have at: "pid (pid_binding_at (?c, k) (?s1\<lparr>tasks := ts, dport := d\<rparr>)) = pid_of_slot k" for ts d
    using bok k by (simp add: pid_binding_at_def update_binding_def bindings_ok_def the_binding_def
        get_cpu_context_def)
  have at': "pid (pid_binding_at (?c, k) ?s1) = pid_of_slot k"
    using bok k by (simp add: pid_binding_at_def update_binding_def bindings_ok_def the_binding_def
        get_cpu_context_def)
  let ?d2 = "(dport s)
    \<lparr>DPORT_IMMU_TABLE := if ?old \<noteq> NULL then unloaded (pid_of_slot k) (DPORT_IMMU_TABLE (dport s)) else DPORT_IMMU_TABLE (dport s),
     DPORT_DMMU_TABLE := if ?old \<noteq> NULL then unloaded (pid_of_slot k) (DPORT_DMMU_TABLE (dport s)) else DPORT_DMMU_TABLE (dport s)\<rparr>"
  have s2: "(if ?old \<noteq> NULL then mmu_unload ?old ?s1 else Inr ?s1) = Inr (?s1\<lparr>dport := ?d2\<rparr>)"
  proof (cases "?old = NULL")
    case False
    then obtain u where "tasks s ?old = Some u" "binding (task_mmu u) = Some (?c, k)"
      using bok k by (auto simp: bindings_ok_def)
    then show ?thesis using False mmu_unload_eq [of ?s1 ?old u "(?c, k)"] tok at' by simp
  qed (simp add: update_binding_def)
  let ?s3 = "?s1\<lparr>tasks := (tasks s)(p \<mapsto> set_binding (Some (?c, k)) t), dport := ?d2\<rparr>"
  have s3: "update_task p (set_binding (Some (?c, k))) (?s1\<lparr>dport := ?d2\<rparr>) = Inr ?s3"
    using t by (simp add: update_task_def)
  have "mmu_load p ?s3 = Inr (?s3\<lparr>dport := (dport s)
         \<lparr>DPORT_IMMU_TABLE := rebound (pid_of_slot k) (?old \<noteq> NULL) (immu (task_mmu t)) (DPORT_IMMU_TABLE (dport s)),
          DPORT_DMMU_TABLE := rebound (pid_of_slot k) (?old \<noteq> NULL) (dmmu (task_mmu t)) (DPORT_DMMU_TABLE (dport s))\<rparr>\<rparr>)"
    using mmu_load_eq [of ?s3 p "set_binding (Some (?c, k)) t" "(?c, k)"]
      tasks_ok_set_binding [OF tok t] at by (simp add: rebound_def)
  then show ?thesis
    by (simp add: pid_binding_bind_def Let_def s2 s3)
qed


lemma rebound_ok:
  assumes "tbl_ok tbl own" "k < 6" "\<not> evict \<Longrightarrow> own k = None" "space_wf n sp"
    and "\<And>j sp'. j < 6 \<Longrightarrow> j \<noteq> k \<Longrightarrow> own j = Some sp' \<Longrightarrow> pages_of sp \<inter> pages_of sp' = {}"
  shows "tbl_ok (rebound (pid_of_slot k) evict sp tbl) (own(k := Some sp))"
proof -
  let ?tbl = "if evict then unloaded (pid_of_slot k) tbl else tbl"
  have "tbl_ok ?tbl (own(k := None))"
    using assms(1-3) unloaded_ok [OF assms(1,2)] by (cases evict) (auto simp: fun_upd_idem)
  then have "tbl_ok (loaded (pid_of_slot k) sp [0..<16] ?tbl) ((own(k := None))(k := Some sp))"
    using assms(2,4,5) by (intro loaded_ok) (auto split: if_splits)
  then show ?thesis by (simp add: rebound_def)
qed

lemma rebound_public:
  assumes "access_rights (tbl q) = 1" "q \<notin> pages_of sp" "k < 6"
  shows "rebound (pid_of_slot k) evict sp tbl q = tbl q"
  using assms unloaded_public [of tbl q k] by (simp add: rebound_def loaded_other)

lemma tasks_ok_disjoint:
  assumes "tasks_ok ts" "ts p = Some t" "ts q = Some u" "p \<noteq> q"
  shows "pages_of (immu (task_mmu t)) \<inter> pages_of (immu (task_mmu u)) = {}"
    and "pages_of (dmmu (task_mmu t)) \<inter> pages_of (dmmu (task_mmu u)) = {}"
  using assms unfolding tasks_ok_def by blast+

lemma owner_disjoint:
  assumes "tasks_ok (tasks s)" "tasks s p = Some t" "bound_space (the_binding j s) \<noteq> p"
  shows "owner immu s j = Some sp \<Longrightarrow> pages_of (immu (task_mmu t)) \<inter> pages_of sp = {}"
    and "owner dmmu s j = Some sp \<Longrightarrow> pages_of (dmmu (task_mmu t)) \<inter> pages_of sp = {}"
  using tasks_ok_disjoint [OF assms(1,2), of "bound_space (the_binding j s)"] assms(3)
  by (auto simp: owner_def Let_def split: if_splits)

lemma pid_binding_bind_inv:
  assumes inv: "mmu_inv s" and k: "k < 6" and t: "tasks s p = Some t"
    and unbound: "\<forall>j < 6. bound_space (the_binding j s) \<noteq> p"
  shows "\<exists>s'. pid_binding_bind (get_cpu_index s, k) p s = Inr s' \<and> mmu_inv s' \<and>
    active_space s' = Some p \<and> same_but_mmu s s'"
proof -
  let ?c = "get_cpu_index s"
  let ?old = "bound_space (the_binding k s)"
  let ?t = "set_binding (Some (?c, k)) t"
  let ?r = "\<lambda>sp. rebound (pid_of_slot k) (?old \<noteq> NULL) sp"
  let ?s1 = "(update_binding (?c, k) (bound_space_update (\<lambda>_. p)) s)
      \<lparr>tasks := (tasks s)(p \<mapsto> ?t),
       dport := (dport s)\<lparr>DPORT_IMMU_TABLE := ?r (immu (task_mmu t)) (DPORT_IMMU_TABLE (dport s)),
                          DPORT_DMMU_TABLE := ?r (dmmu (task_mmu t)) (DPORT_DMMU_TABLE (dport s))\<rparr>\<rparr>"
  let ?s' = "make_primary (?c, k) ?s1"
  from inv have bok: "bindings_ok s" and tok: "tasks_ok (tasks s)" and vd: "vdso_ok (dport s)"
    and ti: "tbl_ok (DPORT_IMMU_TABLE (dport s)) (owner immu s)"
    and td: "tbl_ok (DPORT_DMMU_TABLE (dport s)) (owner dmmu s)" by (auto simp: mmu_inv_def)
  have p: "p \<noteq> NULL" using tasks_okD(4) [OF tok t] .
  have c: "get_cpu_index ?s1 = ?c" by simp
  have bind': "the_binding j ?s' = (if j = k then (the_binding k s)\<lparr>bound_space := p,
      primary_stamp := next_stamp (get_cpu_context s)\<rparr> else the_binding j s)" for j
    using the_binding_make_primary [of j ?s1 k, unfolded c] by simp
  have own': "owner immu ?s' j = ((owner immu s)(k := Some (immu (task_mmu t)))) j"
    "owner dmmu ?s' j = ((owner dmmu s)(k := Some (dmmu (task_mmu t)))) j" if "j < 6" for j
    using p unbound t that k by (auto simp: owner_def bind' Let_def)
  have none: "owner sel s k = None" if "\<not> ?old \<noteq> NULL" for sel
    using that by (simp add: owner_def)
  have disj: "\<And>j sp'. j < 6 \<Longrightarrow> j \<noteq> k \<Longrightarrow> owner immu s j = Some sp' \<Longrightarrow> pages_of (immu (task_mmu t)) \<inter> pages_of sp' = {}"
    "\<And>j sp'. j < 6 \<Longrightarrow> j \<noteq> k \<Longrightarrow> owner dmmu s j = Some sp' \<Longrightarrow> pages_of (dmmu (task_mmu t)) \<inter> pages_of sp' = {}"
    using owner_disjoint [OF tok t] unbound by blast+
  have ti': "tbl_ok (?r (immu (task_mmu t)) (DPORT_IMMU_TABLE (dport s))) ((owner immu s)(k := Some (immu (task_mmu t))))"
    by (rule rebound_ok [OF ti k none tasks_okD(2) [OF tok t]]) (use disj(1) in auto)
  have td': "tbl_ok (?r (dmmu (task_mmu t)) (DPORT_DMMU_TABLE (dport s))) ((owner dmmu s)(k := Some (dmmu (task_mmu t))))"
    by (rule rebound_ok [OF td k none tasks_okD(3) [OF tok t]]) (use disj(2) in auto)
  have "tbl_ok (DPORT_IMMU_TABLE (dport ?s')) (owner immu ?s')"
    "tbl_ok (DPORT_DMMU_TABLE (dport ?s')) (owner dmmu ?s')"
    using ti' td' unfolding tbl_ok_def by (simp_all add: own')
  moreover have "bindings_ok ?s'"
    using bok p unbound t unfolding bindings_ok_def bind' by (auto simp: bind')
  moreover have "15 \<notin> pages_of (immu (task_mmu t))"
    using tasks_okD(2) [OF tok t] by (auto simp: space_wf_def)
  then have "vdso_ok (dport ?s')"
    using vd rebound_public [of "DPORT_IMMU_TABLE (dport s)" 15, OF _ _ k] by (simp add: vdso_ok_def)
  moreover have "tasks_ok (tasks ?s')" using tasks_ok_set_binding [OF tok t] by simp
  ultimately have "mmu_inv ?s'" by (simp add: mmu_inv_def)
  moreover have ctx: "get_cpu_context ?s' = (get_cpu_context ?s1)
      \<lparr>next_stamp := next_stamp (get_cpu_context ?s1) + 1,
        pid_bindings := (pid_bindings (get_cpu_context ?s1))
          (k := (the_binding k ?s1)\<lparr>primary_stamp := next_stamp (get_cpu_context ?s1)\<rparr>),
        primary_binding := Some (?c, k)\<rparr>"
    using make_primary_context [of ?s1 k, unfolded c] .
  then have "active_space ?s' = Some p"
    using k p bind' by (simp add: active_space_def)
  moreover have "tasks ?s' = (\<lambda>q. map_option (\<lambda>u. set_binding (if q = p then Some (?c, k)
      else binding (task_mmu u)) u) (tasks s q))"
    using t by (auto simp: fun_eq_iff set_binding_id option.map_id [unfolded id_def])
  then have "same_but_mmu s ?s'"
    unfolding same_but_mmu_def ctx by (auto intro: exI)
  ultimately show ?thesis using pid_binding_bind_eq [OF assms] by auto
qed


subsection \<open>Activating a space\<close>

lemma same_but_mmu_refl: "same_but_mmu s s"
proof -
  have "tasks s = (\<lambda>p. map_option (\<lambda>t. set_binding
      ((\<lambda>p. case tasks s p of None \<Rightarrow> None | Some t \<Rightarrow> binding (task_mmu t)) p) t) (tasks s p))"
    by (auto simp: fun_eq_iff set_binding_id split: option.split)
  then show ?thesis unfolding same_but_mmu_def by (auto intro: exI)
qed

lemma make_primary_inv:
  assumes inv: "mmu_inv s" and k: "k < 6" and p: "bound_space (the_binding k s) = p" "p \<noteq> NULL"
  shows "mmu_inv (make_primary (get_cpu_index s, k) s)"
    and "active_space (make_primary (get_cpu_index s, k) s) = Some p"
    and "same_but_mmu s (make_primary (get_cpu_index s, k) s)"
proof -
  let ?s' = "make_primary (get_cpu_index s, k) s"
  show "mmu_inv ?s'" using inv by (auto simp: mmu_inv_def bindings_ok_def)
  show "active_space ?s' = Some p"
    using k p by (simp add: active_space_def make_primary_context)
  show "same_but_mmu s ?s'"
    using same_but_mmu_refl [of s] by (simp add: same_but_mmu_def make_primary_context)
qed

lemma mmu_activate_inv:
  assumes inv: "mmu_inv s" and t: "tasks s p = Some t"
  shows "\<exists>s'. mmu_activate p s = Inr s' \<and> mmu_inv s' \<and> active_space s' = Some p \<and> same_but_mmu s s'"
proof -
  have p: "p \<noteq> NULL" using inv tasks_okD(4) [of "tasks s" p t] t by (simp add: mmu_inv_def)
  show ?thesis
  proof (cases "scan_bindings (pid_bindings (get_cpu_context s)) p [0..<PID_BINDING_COUNT] 0")
    case (Inl i)
    then have i: "i < 6" "bound_space (the_binding i s) = p"
      using scan_Inl [OF Inl] by (auto simp: PID_BINDING_COUNT_def the_binding_def)
    show ?thesis
    proof (cases "primary_binding (get_cpu_context s) = Some (get_cpu_index s, i)")
      case True
      with Inl i p inv same_but_mmu_refl show ?thesis
        by (auto simp: mmu_activate_def pid_binding_is_primary_def active_space_def)
    next
      case False
      with Inl p make_primary_inv [OF inv i p] show ?thesis
        by (simp add: mmu_activate_def pid_binding_is_primary_def pid_binding_rebind_def)
    qed
  next
    case (Inr k)
    have k: "k < 6" and unbound: "\<forall>j < 6. bound_space (the_binding j s) \<noteq> p"
      using scan_Inr [OF Inr] by (auto simp: PID_BINDING_COUNT_def the_binding_def)
    show ?thesis
      using pid_binding_bind_inv [OF inv k t unbound] Inr p by (simp add: mmu_activate_def)
  qed
qed

text \<open>A space without a binding takes the slot with the lowest stamp; the other slots keep their spaces.\<close>

lemma mmu_activate_lru:
  assumes inv: "mmu_inv s" and t: "tasks s p = Some t" and unbound: "\<forall>j < 6. bound_space (the_binding j s) \<noteq> p"
  shows "\<exists>s' k. mmu_activate p s = Inr s' \<and> k < 6 \<and> bound_space (the_binding k s') = p \<and>
    (\<forall>j < 6. primary_stamp (the_binding k s) \<le> primary_stamp (the_binding j s)) \<and>
    (\<forall>j < 6. j \<noteq> k \<longrightarrow> the_binding j s' = the_binding j s)"
proof -
  have p: "p \<noteq> NULL" using inv tasks_okD(4) [of "tasks s" p t] t by (simp add: mmu_inv_def)
  show ?thesis
  proof (cases "scan_bindings (pid_bindings (get_cpu_context s)) p [0..<PID_BINDING_COUNT] 0")
    case (Inl i)
    then show ?thesis
      using scan_Inl [OF Inl] unbound by (auto simp: PID_BINDING_COUNT_def the_binding_def)
  next
    case (Inr k)
    have k: "k < 6" and lru: "\<forall>j < 6. primary_stamp (the_binding k s) \<le> primary_stamp (the_binding j s)"
      using scan_Inr [OF Inr] by (auto simp: PID_BINDING_COUNT_def the_binding_def)
    let ?s1 = "(update_binding (get_cpu_index s, k) (bound_space_update (\<lambda>_. p)) s)
      \<lparr>tasks := (tasks s)(p \<mapsto> set_binding (Some (get_cpu_index s, k)) t),
       dport := (dport s)
         \<lparr>DPORT_IMMU_TABLE := rebound (pid_of_slot k) (bound_space (the_binding k s) \<noteq> NULL)
            (immu (task_mmu t)) (DPORT_IMMU_TABLE (dport s)),
          DPORT_DMMU_TABLE := rebound (pid_of_slot k) (bound_space (the_binding k s) \<noteq> NULL)
            (dmmu (task_mmu t)) (DPORT_DMMU_TABLE (dport s))\<rparr>\<rparr>"
    let ?s' = "make_primary (get_cpu_index s, k) ?s1"
    have cpu: "get_cpu_index ?s1 = get_cpu_index s" by simp
    have bs: "the_binding j ?s' = (if j = k then (the_binding k ?s1)\<lparr>primary_stamp := next_stamp (get_cpu_context ?s1)\<rparr>
        else the_binding j ?s1)" for j
      using the_binding_make_primary [of j ?s1 k] unfolding cpu .
    have b: "the_binding j ?s' = the_binding j s" if "j \<noteq> k" for j
      using bs [of j] that by simp
    have bk: "bound_space (the_binding k ?s') = p"
      using bs [of k] by simp
    have "mmu_activate p s = Inr ?s'"
      using p Inr pid_binding_bind_eq [OF inv k t unbound] by (simp add: mmu_activate_def)
    then show ?thesis using k lru b bk by blast
  qed
qed

end
