(* ===== verification/User_Pages.thy ===== *)
theory User_Pages
  imports Umem Memory
begin

section \<open>The memory of a user page\<close>

text \<open>
  The bytes of physical page \<open>q\<close> of the data and of the code region. An address lies in the
  page its index macro names, so pages with different indices share no byte.
\<close>

definition data_page :: "nat \<Rightarrow> u32 set" where
  "data_page q = region (DATA_PAGE_ADDR (of_nat q)) 8192"

definition code_page :: "nat \<Rightarrow> u32 set" where
  "code_page q = region (CODE_PAGE_ADDR (of_nat q)) 8192"

lemma region_offset:
  assumes "x \<in> region (a + of_nat i) n" "i + n \<le> m" "m \<le> 4294967296"
  shows "x \<in> region a m"
proof -
  let ?d = "unat (x - (a + of_nat i))"
  have d: "?d < n" using assms(1) by (simp add: region_def)
  have "x - a = of_nat (i + ?d)" by simp
  then have "unat (x - a) = i + ?d" using d assms(2,3) by (simp del: of_nat_add)
  then show ?thesis using d assms(2) by (simp add: region_def)
qed

lemma page_index:
  assumes "unat (x - (of_nat q * 0x2000 + base)) < 8192" "q < 16"
  shows "unat ((x - base) div (0x2000 :: u32)) = q"
proof -
  let ?d = "unat (x - (of_nat q * 0x2000 + base))"
  have "x - base = of_nat (q * 8192 + ?d)" by simp
  moreover have "q * 8192 + ?d < 4294967296" using assms by simp
  ultimately have "unat (x - base) = q * 8192 + ?d" by (simp del: of_nat_add of_nat_mult)
  then show ?thesis using assms(1) by (simp add: unat_div)
qed

lemma data_page_index: "x \<in> data_page q \<Longrightarrow> q < 16 \<Longrightarrow> unat (DATA_PAGE_INDEX x) = q"
  unfolding data_page_def region_def DATA_PAGE_ADDR_def DATA_PAGE_INDEX_def USER_PAGE_SIZE_def
  by (rule page_index) auto

lemma code_page_index: "x \<in> code_page q \<Longrightarrow> q < 16 \<Longrightarrow> unat (CODE_PAGE_INDEX x) = q"
  unfolding code_page_def region_def CODE_PAGE_ADDR_def CODE_PAGE_INDEX_def USER_PAGE_SIZE_def
  by (rule page_index) auto

lemma data_pages_disjoint: "q < 16 \<Longrightarrow> r < 16 \<Longrightarrow> q \<noteq> r \<Longrightarrow> data_page q \<inter> data_page r = {}"
  using data_page_index by blast

lemma code_pages_disjoint: "q < 16 \<Longrightarrow> r < 16 \<Longrightarrow> q \<noteq> r \<Longrightarrow> code_page q \<inter> code_page r = {}"
  using code_page_index by blast

text \<open>The two regions do not meet: data ends at \<open>0x3FFE0000\<close>, code starts at \<open>0x40080000\<close>.\<close>

lemma page_bounds:
  fixes x base :: u32
  assumes "unat (x - (of_nat q * 0x2000 + base)) < 8192" "q < 16" "unat base + 131072 \<le> 4294967296"
  shows "unat base \<le> unat x \<and> unat x < unat base + 131072"
proof -
  let ?d = "unat (x - (of_nat q * 0x2000 + base))"
  have x: "x = of_nat (unat base + (q * 8192 + ?d))" by simp
  have "unat base + (q * 8192 + ?d) < 4294967296" using assms by simp
  then have "unat x = unat base + (q * 8192 + ?d)"
    using arg_cong [OF x, of unat] by (simp only: unat_of_nat_small)
  then show ?thesis using assms by simp
qed

lemma data_page_bounds: "x \<in> data_page q \<Longrightarrow> q < 16 \<Longrightarrow> 0x3FFC0000 \<le> unat x \<and> unat x < 0x3FFE0000"
  using page_bounds [of x q USER_DATA_BASE]
  by (simp add: data_page_def region_def DATA_PAGE_ADDR_def USER_PAGE_SIZE_def USER_DATA_BASE_def)

lemma code_page_bounds: "x \<in> code_page q \<Longrightarrow> q < 16 \<Longrightarrow> 0x40080000 \<le> unat x \<and> unat x < 0x400A0000"
  using page_bounds [of x q USER_CODE_BASE]
  by (simp add: code_page_def region_def CODE_PAGE_ADDR_def USER_PAGE_SIZE_def USER_CODE_BASE_def)

lemma code_data_disjoint: "q < 16 \<Longrightarrow> r < 16 \<Longrightarrow> code_page q \<inter> data_page r = {}"
  using code_page_bounds data_page_bounds by fastforce

end
