(* ===== verification/Task.thy ===== *)
theory Task
  imports Mmu_Isolation User_Pages Printf
begin

section \<open>Tasks\<close>

text \<open>
  \<^verbatim>\<open>task/task.c\<close>: the saved register file and its layout in a task's user context page,
  status changes, creating a task, and saving and restoring a context. The heap
  (\<^verbatim>\<open>umm_malloc\<close>), the address of the vDSO entry and the size of \<^verbatim>\<open>task_t\<close> are not in the
  sources: they are fields of a \<open>platform\<close>, an argument of the operations that use them.
\<close>

record platform =
  umm_malloc :: "u32 \<Rightarrow> memory \<Rightarrow> ptr \<times> memory"
  umm_free :: "ptr \<Rightarrow> memory \<Rightarrow> memory"
  umm_init :: "u32 \<Rightarrow> u32 \<Rightarrow> memory \<Rightarrow> memory"
  task_trampoline :: u32
  sizeof_task_t :: u32
  park_call :: "ptr \<Rightarrow> ptr \<Rightarrow> kernel \<Rightarrow> kernel run"

subsection \<open>The register file in memory\<close>

definition TASK_REGS_SAR :: u32 where "TASK_REGS_SAR = 256"
definition TASK_REGS_PC :: u32 where "TASK_REGS_PC = 272"
definition TASK_REGS_PS :: u32 where "TASK_REGS_PS = 276"
definition TASK_REGS_WINDOWMASK :: u32 where "TASK_REGS_WINDOWMASK = 288"
definition TASK_REGS_SIZE :: nat where "TASK_REGS_SIZE = 292"

definition STACK_SIZE :: nat where "STACK_SIZE = 4096"
definition TASK_NAME_SIZE :: nat where "TASK_NAME_SIZE = 64"
definition UCONTEXT_NAME :: u32 where "UCONTEXT_NAME = 4096"
definition UCONTEXT_REGS :: u32 where "UCONTEXT_REGS = 4160"
definition UCONTEXT_SIZE :: nat where "UCONTEXT_SIZE = STACK_SIZE + TASK_NAME_SIZE + TASK_REGS_SIZE"

definition regs_words :: "task_regs \<Rightarrow> u32 list" where
  "regs_words r = ar r @ [sar r, lbeg r, lend r, lcount r, pc r, ps r, windowbase r, windowstart r,
     ucast (windowmask r) OR push_bit 16 (ucast (windowsize r))]"

definition words_regs :: "u32 list \<Rightarrow> task_regs" where
  "words_regs ws = \<lparr>ar = take 64 ws, sar = ws ! 64, lbeg = ws ! 65, lend = ws ! 66, lcount = ws ! 67,
     pc = ws ! 68, ps = ws ! 69, windowbase = ws ! 70, windowstart = ws ! 71,
     windowmask = ucast (ws ! 72), windowsize = ucast (drop_bit 16 (ws ! 72))\<rparr>"

definition write_regs :: "u32 \<Rightarrow> task_regs \<Rightarrow> memory \<Rightarrow> memory" where
  "write_regs a r m = store_words a (regs_words r) m"

definition read_regs :: "u32 \<Rightarrow> memory \<Rightarrow> task_regs" where
  "read_regs a m = words_regs (load_words m a 73)"

definition regs_wf :: "task_regs \<Rightarrow> bool" where
  "regs_wf r \<longleftrightarrow> length (ar r) = 64"

subsection \<open>Status\<close>

definition get_task_status :: "ptr \<Rightarrow> kernel \<Rightarrow> task_status run" where
  "get_task_status p s = andthen (read_task p s) (\<lambda>t. Inr (status t))"

text \<open>
  The compare-and-swap loop, on the status it polls. Nothing runs beside the kernel on this
  core, so a status that differs from \<open>old\<close> keeps doing so: the loop then spins for ever, unless
  its diagnostic assertion fires. A spurious failure of the weak exchange only repeats a round.
\<close>

partial_function (option) cas_loop ::
    "task_status \<Rightarrow> task_status \<Rightarrow> task_status \<Rightarrow> (task_status run) option" where
  "cas_loop old new current =
     (if current = old then Some (Inr new)
      else if old = TASK_STATUS_WAITING \<and> current = TASK_STATUS_RUNNABLE
      then Some (Inl (Assert_failed ''Waiting for TASK_STATUS_WAITING but is TASK_STATUS_RUNNABLE''))
      else cas_loop old new current)"

definition cas_task_state :: "ptr \<Rightarrow> task_status \<Rightarrow> task_status \<Rightarrow> kernel \<Rightarrow> kernel run" where
  "cas_task_state p old new s =
     andthen (ASSERT (old AND TASK_SUSPEND = 0) ''(old & TASK_SUSPEND) == 0'') (\<lambda>_.
     andthen (ASSERT (new AND TASK_SUSPEND = 0) ''(new & TASK_SUSPEND) == 0'') (\<lambda>_.
     andthen (ASSERT (old \<noteq> new) ''old != new'') (\<lambda>_.
     andthen (read_task p s) (\<lambda>t.
     andthen (loop_result (cas_loop old new (status t))) (\<lambda>r.
     andthen r (\<lambda>v. update_task p (status_update (\<lambda>_. v)) s))))))"

subsection \<open>Creating and releasing\<close>

text \<open>What \<^verbatim>\<open>memset(task, 0, sizeof(task_t))\<close> and the two assignments after it leave.\<close>

definition new_task :: "u8 \<Rightarrow> task" where
  "new_task g = \<lparr>task_pid = g, task_mmu = zero_mmu, status = TASK_STATUS_DEAD, sched_link = NULL, ucontext = 0\<rparr>"

definition ps_bits :: "u32 \<Rightarrow> bool \<Rightarrow> bool \<Rightarrow> bool \<Rightarrow> u32" where
  "ps_bits intlevel excm um woe = intlevel OR push_bit 4 (of_bool excm) OR
     push_bit 5 (of_bool um) OR push_bit 18 (of_bool woe)"

text \<open>The user context: zeroed, then \<^verbatim>\<open>ps\<close>, \<^verbatim>\<open>pc\<close>, \<^verbatim>\<open>ar[2]\<close> and \<^verbatim>\<open>ar[1]\<close>.\<close>

definition init_ucontext :: "platform \<Rightarrow> u32 \<Rightarrow> u32 \<Rightarrow> memory \<Rightarrow> memory" where
  "init_ucontext pf uctx entry m =
     (let regs = uctx + UCONTEXT_REGS;
          m1 = memset uctx 0 UCONTEXT_SIZE m;
          m2 = store32 (regs + TASK_REGS_PS) (ps_bits 0 False True True) m1;
          m3 = store32 (regs + TASK_REGS_PC) (task_trampoline pf) m2;
          m4 = store32 (regs + 4 * 2) entry m3
      in store32 (regs + 4 * 1)
           (DATA_PAGE_ADDR (of_nat UCTX_PAGE_INDEX) + of_nat STACK_SIZE) m4)"

definition create_task :: "platform \<Rightarrow> u32 \<Rightarrow> string \<Rightarrow> va list \<Rightarrow> kernel \<Rightarrow> (ptr \<times> kernel) run" where
  "create_task pf entry fmt va s =
     (let (p, m) = umm_malloc pf (sizeof_task_t pf) (mem s)
      in if p = NULL then Inr (NULL, s\<lparr>mem := m\<rparr>)
         else
           let s1 = s\<lparr>mem := m, tasks := (tasks s)(p \<mapsto> new_task (m_pid_gen s)), m_pid_gen := m_pid_gen s + 1\<rparr>;
               (uctx_page, u) = umem_alloc_data_page (umem s1);
               s2 = s1\<lparr>umem := u\<rparr>
           in if uctx_page = -1
              then Inr (NULL, s2\<lparr>mem := umm_free pf p (mem s2), tasks := (tasks s2)(p := None)\<rparr>)
              else
                andthen (mmu_map p MMU_SPACE_DATA (of_nat UCTX_PAGE_INDEX) (PAGE_ENTRY (of_int uctx_page)) s2) (\<lambda>(_, s3).
                let uctx = DATA_PAGE_ADDR (of_int uctx_page) in
                andthen (update_task p (ucontext_update (\<lambda>_. uctx)) s3) (\<lambda>s4.
                let s5 = s4\<lparr>mem := init_ucontext pf uctx entry (mem s4)\<rparr> in
                andthen (vsnprintf (uctx + UCONTEXT_NAME) (of_nat TASK_NAME_SIZE) fmt va (mem s5)) (\<lambda>(m', _).
                andthen (cas_task_state p TASK_STATUS_DEAD TASK_STATUS_WAITING (s5\<lparr>mem := m'\<rparr>)) (\<lambda>s6.
                Inr (p, s6))))))"

definition release_task :: "ptr \<Rightarrow> kernel \<Rightarrow> kernel run" where
  "release_task p s = andthen (ASSERT False ''TODO: release_task'') (\<lambda>_. Inr s)"

subsection \<open>Saving and restoring a context\<close>

definition save_task_context :: "ptr \<Rightarrow> task_regs \<Rightarrow> kernel \<Rightarrow> kernel run" where
  "save_task_context p regs s =
     andthen (read_task p s) (\<lambda>t. Inr (s\<lparr>mem := write_regs (ucontext t + UCONTEXT_REGS) regs (mem s)\<rparr>))"

definition restore_task_context :: "ptr \<Rightarrow> kernel \<Rightarrow> (task_regs \<times> kernel) run" where
  "restore_task_context p s =
     andthen (read_task p s) (\<lambda>t.
     let regs = read_regs (ucontext t + UCONTEXT_REGS) (mem s) in
     andthen (mmu_activate p s) (\<lambda>s'. Inr (regs, s')))"

subsection \<open>Register files survive memory\<close>

lemma length_regs_words [simp]: "regs_wf r \<Longrightarrow> length (regs_words r) = 73"
  by (simp add: regs_words_def regs_wf_def)

lemma windowmask_low [simp]: "ucast ((ucast (a :: u16) :: u32) OR push_bit 16 (ucast (b :: u16))) = a"
  by (rule bit_word_eqI) (auto simp: bit_simps)

lemma windowsize_high [simp]:
  "ucast (drop_bit 16 (ucast (a :: u16) :: u32) OR drop_bit 16 (push_bit 16 (ucast (b :: u16)))) = b"
  by (rule bit_word_eqI) (auto simp: bit_simps dest: bit_imp_le_length)

lemma words_regs_words [simp]: "regs_wf r \<Longrightarrow> words_regs (regs_words r) = r"
  by (cases r) (simp add: words_regs_def regs_words_def regs_wf_def nth_append)

lemma words_regs_wf: "length ws = 73 \<Longrightarrow> regs_wf (words_regs ws)"
  by (simp add: regs_wf_def words_regs_def)

lemma read_regs_wf [simp]: "regs_wf (read_regs a m)"
  unfolding read_regs_def by (rule words_regs_wf) (simp add: load_words_def)

lemma read_write_regs [mem_simps]: "regs_wf r \<Longrightarrow> read_regs a (write_regs a r m) = r"
  using load_store_words [of "regs_words r" a m] by (simp add: read_regs_def write_regs_def)

lemma write_regs_other [mem_simps]:
  "regs_wf r \<Longrightarrow> x \<notin> region a 292 \<Longrightarrow> write_regs a r m x = m x"
  using store_words_other [of "regs_words r" x a m] by (simp add: write_regs_def)

lemma read_regs_cong: "(\<And>x. x \<in> region a 292 \<Longrightarrow> m x = m' x) \<Longrightarrow> read_regs a m = read_regs a m'"
  unfolding read_regs_def by (rule arg_cong, rule load_words_cong) auto

subsection \<open>Status changes\<close>

lemma cas_loop_same [simp]: "cas_loop old new old = Some (Inr new)"
  by (simp add: cas_loop.simps)

lemma cas_loop_returns:
  "cas_loop old new current = Some r \<Longrightarrow>
     current = old \<or> (old = TASK_STATUS_WAITING \<and> current = TASK_STATUS_RUNNABLE)"
  by (erule cas_loop.raw_induct [rotated 1]) (auto split: if_splits)

lemma cas_loop_spins:
  assumes "current \<noteq> old" "\<not> (old = TASK_STATUS_WAITING \<and> current = TASK_STATUS_RUNNABLE)"
  shows "cas_loop old new current = None"
  using assms cas_loop_returns by (cases "cas_loop old new current") blast+

lemma cas_loop_asserts: "cas_loop TASK_STATUS_WAITING new TASK_STATUS_RUNNABLE =
    Some (Inl (Assert_failed ''Waiting for TASK_STATUS_WAITING but is TASK_STATUS_RUNNABLE''))"
  by (subst cas_loop.simps) simp

text \<open>Each status constant the kernel uses is a legal argument.\<close>

lemma cas_task_state_ok:
  assumes "tasks s p = Some t" "status t = old" "old AND TASK_SUSPEND = 0" "new AND TASK_SUSPEND = 0" "old \<noteq> new"
  shows "cas_task_state p old new s = Inr (s\<lparr>tasks := (tasks s)(p \<mapsto> t\<lparr>status := new\<rparr>)\<rparr>)"
  using assms by (simp add: cas_task_state_def)

lemma cas_task_state_blocks:
  assumes "tasks s p = Some t" "status t \<noteq> old" "cas_task_state p old new s = Inr s'"
  shows False
proof -
  have "cas_loop old new (status t) \<noteq> Some (Inr v)" for v
    using assms(2) cas_loop_spins [of "status t" old new]
    by (cases "old = TASK_STATUS_WAITING \<and> status t = TASK_STATUS_RUNNABLE") (auto simp: cas_loop_asserts)
  with assms show False by (auto simp: cas_task_state_def run_simps)
qed

end
