(* ===== verification/Run_Queue.thy ===== *)
theory Run_Queue
  imports Kernel_State
begin

section \<open>The run queue\<close>

text \<open>
  The queue of \<^verbatim>\<open>task/scheduler.c\<close>: a list threaded through \<^verbatim>\<open>task_t.sched_link\<close>
  with a head and a tail pointer, and the global instance with its size counter. The contract
  its users rely on is the locale \<open>fifo\<close>: what is put comes out in order, once, and an
  empty queue gives the null element. Both layers interpret it.
\<close>

subsection \<open>Operations\<close>

text \<open>A queue operation works on the queue's two pointers and on the heap of tasks.\<close>

type_synonym queue_heap = "task_queue \<times> (ptr \<rightharpoonup> task)"

definition heap_update :: "ptr \<Rightarrow> (task \<Rightarrow> task) \<Rightarrow> (ptr \<rightharpoonup> task) \<Rightarrow> (ptr \<rightharpoonup> task) run" where
  "heap_update p f ts = (case ts p of
       None \<Rightarrow> Inl (Undefined ''bad pointer'') | Some t \<Rightarrow> Inr (ts(p \<mapsto> f t)))"

definition task_queue_push_back :: "ptr \<Rightarrow> queue_heap \<Rightarrow> queue_heap run" where
  "task_queue_push_back thread qh =
     (let (q, ts) = qh in
      andthen (heap_update thread (sched_link_update (\<lambda>_. NULL)) ts) (\<lambda>ts1.
      if tail q \<noteq> NULL
      then andthen (heap_update (tail q) (sched_link_update (\<lambda>_. thread)) ts1) (\<lambda>ts2.
             Inr (q\<lparr>tail := thread\<rparr>, ts2))
      else Inr (q\<lparr>head := thread, tail := thread\<rparr>, ts1)))"

definition task_queue_pop :: "queue_heap \<Rightarrow> (ptr \<times> queue_heap) run" where
  "task_queue_pop qh =
     (let (q, ts) = qh; task = head q in
      if task \<noteq> NULL then
        (case ts task of
           None \<Rightarrow> Inl (Undefined ''bad pointer'')
         | Some t \<Rightarrow>
             let q1 = q\<lparr>head := sched_link t\<rparr>
             in Inr (task, (if head q1 = NULL then q1\<lparr>tail := NULL\<rparr> else q1), ts))
      else Inr (task, q, ts))"

definition global_run_queue_put :: "ptr \<Rightarrow> kernel \<Rightarrow> kernel run" where
  "global_run_queue_put task s =
     andthen (task_queue_push_back task (m_global_run_queue s, tasks s)) (\<lambda>(q, ts).
     Inr (s\<lparr>m_global_run_queue := q, tasks := ts,
            m_global_run_queue_size := m_global_run_queue_size s + 1\<rparr>))"

definition global_run_queue_get :: "kernel \<Rightarrow> (ptr \<times> kernel) run" where
  "global_run_queue_get s =
     (if m_global_run_queue_size s = 0 then Inr (NULL, s)
      else
        let s1 = s\<lparr>m_global_run_queue_size := m_global_run_queue_size s - 1\<rparr> in
        andthen (task_queue_pop (m_global_run_queue s1, tasks s1)) (\<lambda>(task, q, ts).
        Inr (task, s1\<lparr>m_global_run_queue := q, tasks := ts\<rparr>)))"

subsection \<open>The contract\<close>

fun put_all :: "('e \<Rightarrow> 's \<Rightarrow> 's run) \<Rightarrow> 'e list \<Rightarrow> 's \<Rightarrow> 's run" where
  "put_all put [] s = Inr s"
| "put_all put (x # xs) s = andthen (put x s) (put_all put xs)"

fun get_many :: "('s \<Rightarrow> ('e \<times> 's) run) \<Rightarrow> nat \<Rightarrow> 's \<Rightarrow> ('e list \<times> 's) run" where
  "get_many get 0 s = Inr ([], s)"
| "get_many get (Suc n) s = andthen (get s) (\<lambda>(x, s1).
     andthen (get_many get n s1) (\<lambda>(xs, s2). Inr (x # xs, s2)))"

text \<open>Take the first element and put it back at the end.\<close>

fun rotations :: "('e \<Rightarrow> 's \<Rightarrow> 's run) \<Rightarrow> ('s \<Rightarrow> ('e \<times> 's) run) \<Rightarrow> nat \<Rightarrow> 's \<Rightarrow> ('e list \<times> 's) run" where
  "rotations put get 0 s = Inr ([], s)"
| "rotations put get (Suc n) s = andthen (get s) (\<lambda>(x, s1).
     andthen (put x s1) (\<lambda>s2.
     andthen (rotations put get n s2) (\<lambda>(xs, s3). Inr (x # xs, s3))))"

locale fifo =
  fixes put :: "'e \<Rightarrow> 's \<Rightarrow> 's run"
    and get :: "'s \<Rightarrow> ('e \<times> 's) run"
    and rep :: "'s \<Rightarrow> 'e list \<Rightarrow> bool"
    and elem :: "'s \<Rightarrow> 'e \<Rightarrow> bool"
    and null :: 'e
  assumes put_rep: "rep s xs \<Longrightarrow> elem s x \<Longrightarrow> x \<notin> set xs \<Longrightarrow>
      \<exists>s'. put x s = Inr s' \<and> rep s' (xs @ [x]) \<and> elem s' = elem s"
    and get_rep: "rep s (x # xs) \<Longrightarrow> \<exists>s'. get s = Inr (x, s') \<and> rep s' xs \<and> elem s' = elem s"
    and get_empty: "rep s [] \<Longrightarrow> get s = Inr (null, s)"
    and rep_elem: "rep s xs \<Longrightarrow> x \<in> set xs \<Longrightarrow> elem s x"
    and rep_distinct: "rep s xs \<Longrightarrow> distinct xs"
begin

lemma put_all_rep:
  "rep s ys \<Longrightarrow> distinct (ys @ xs) \<Longrightarrow> (\<And>x. x \<in> set xs \<Longrightarrow> elem s x) \<Longrightarrow>
     \<exists>s'. put_all put xs s = Inr s' \<and> rep s' (ys @ xs) \<and> elem s' = elem s"
proof (induction xs arbitrary: s ys)
  case Nil
  then show ?case by simp
next
  case (Cons x xs)
  then obtain s1 where s1: "put x s = Inr s1" "rep s1 (ys @ [x])" "elem s1 = elem s"
    using put_rep [of s ys x] by auto
  with Cons.IH [OF s1(2)] Cons.prems show ?case by auto
qed

lemma get_many_rep:
  "rep s (xs @ ys) \<Longrightarrow> \<exists>s'. get_many get (length xs) s = Inr (xs, s') \<and> rep s' ys \<and> elem s' = elem s"
proof (induction xs arbitrary: s)
  case (Cons x xs)
  then obtain s1 where s1: "get s = Inr (x, s1)" "rep s1 (xs @ ys)" "elem s1 = elem s"
    using get_rep [of s x "xs @ ys"] by auto
  with Cons.IH [OF s1(2)] show ?case by auto
qed simp

text \<open>First in, first out: what was put comes out in the same order, and then nothing.\<close>

theorem put_get:
  assumes "rep s []" "distinct xs" "\<And>x. x \<in> set xs \<Longrightarrow> elem s x"
  shows "\<exists>s' s''. put_all put xs s = Inr s' \<and> get_many get (length xs) s' = Inr (xs, s'') \<and>
    get s'' = Inr (null, s'')"
proof -
  obtain s' where s': "put_all put xs s = Inr s'" "rep s' xs"
    using put_all_rep [OF assms(1), of xs] assms(2,3) by auto
  then obtain s'' where "get_many get (length xs) s' = Inr (xs, s'')" "rep s'' []"
    using get_many_rep [of s' xs "[]"] by auto
  with s' get_empty show ?thesis by blast
qed

text \<open>Rotating serves every waiting element before any element is served twice.\<close>

theorem rotations_rep:
  "rep s (xs @ ys) \<Longrightarrow> \<exists>s'. rotations put get (length xs) s = Inr (xs, s') \<and> rep s' (ys @ xs)"
proof (induction xs arbitrary: s ys)
  case (Cons x xs)
  then have d: "distinct (x # xs @ ys)" and e: "elem s x" using rep_distinct rep_elem by fastforce+
  from Cons.prems obtain s1 where s1: "get s = Inr (x, s1)" "rep s1 (xs @ ys)" "elem s1 = elem s"
    using get_rep [of s x "xs @ ys"] by auto
  obtain s2 where s2: "put x s1 = Inr s2" "rep s2 (xs @ (ys @ [x]))"
    using put_rep [OF s1(2), of x] d e s1(3) by auto
  with Cons.IH [OF s2(2)] s1 show ?case by auto
qed simp

end

subsection \<open>The linked list\<close>

fun links :: "(ptr \<rightharpoonup> task) \<Rightarrow> ptr \<Rightarrow> ptr list \<Rightarrow> bool" where
  "links ts p [] \<longleftrightarrow> p = NULL"
| "links ts p (x # xs) \<longleftrightarrow> p = x \<and> x \<noteq> NULL \<and>
     (case ts x of None \<Rightarrow> False | Some t \<Rightarrow> links ts (sched_link t) xs)"

definition queue_rep :: "queue_heap \<Rightarrow> ptr list \<Rightarrow> bool" where
  "queue_rep qh xs \<longleftrightarrow> links (snd qh) (head (fst qh)) xs \<and> distinct xs \<and>
     tail (fst qh) = (if xs = [] then NULL else last xs)"

definition queue_elem :: "queue_heap \<Rightarrow> ptr \<Rightarrow> bool" where
  "queue_elem qh p \<longleftrightarrow> p \<noteq> NULL \<and> p \<in> dom (snd qh)"

lemma links_elem: "links ts p xs \<Longrightarrow> x \<in> set xs \<Longrightarrow> x \<noteq> NULL \<and> x \<in> dom ts"
  by (induction ts p xs rule: links.induct) (auto split: option.splits)

lemma links_frame:
  "(\<And>x. x \<in> set xs \<Longrightarrow> map_option sched_link (ts' x) = map_option sched_link (ts x)) \<Longrightarrow>
     links ts' p xs = links ts p xs"
proof (induction ts p xs rule: links.induct)
  case (2 ts p x xs)
  have "map_option sched_link (ts' x) = map_option sched_link (ts x)" using 2 by simp
  then show ?case using 2 by (cases "ts x"; cases "ts' x") auto
qed simp

lemma queue_rep_frame:
  assumes "queue_rep (q, ts) xs"
    and "\<And>x. x \<in> set xs \<Longrightarrow> map_option sched_link (ts' x) = map_option sched_link (ts x)"
  shows "queue_rep (q, ts') xs"
proof -
  have "links ts' (head q) xs = links ts (head q) xs" by (rule links_frame) (rule assms(2))
  then show ?thesis using assms(1) by (simp add: queue_rep_def)
qed

lemma links_append:
  assumes "links ts p (xs @ [y])" "distinct (xs @ [y])" "z \<notin> set (xs @ [y])" "z \<noteq> NULL"
    "ts z = Some u" "sched_link u = NULL" "ts y = Some t"
  shows "links (ts(y \<mapsto> t\<lparr>sched_link := z\<rparr>)) p (xs @ [y, z])"
  using assms
proof (induction xs arbitrary: p)
  case (Cons x xs)
  then show ?case by (auto split: option.splits)
qed auto

subsection \<open>Heaps that differ in links only\<close>

definition same_but_links :: "(ptr \<rightharpoonup> task) \<Rightarrow> (ptr \<rightharpoonup> task) \<Rightarrow> bool" where
  "same_but_links ts ts' \<longleftrightarrow> (\<forall>p. map_option (sched_link_update (\<lambda>_. NULL)) (ts' p) =
     map_option (sched_link_update (\<lambda>_. NULL)) (ts p))"

lemma same_but_links_refl [simp]: "same_but_links ts ts"
  by (simp add: same_but_links_def)

lemma same_but_links_trans: "same_but_links ts us \<Longrightarrow> same_but_links us vs \<Longrightarrow> same_but_links ts vs"
  by (simp add: same_but_links_def)

lemma same_but_links_upd: "ts z = Some t \<Longrightarrow> same_but_links ts (ts(z \<mapsto> t\<lparr>sched_link := v\<rparr>))"
  by (simp add: same_but_links_def)

lemma same_but_links_dom: "same_but_links ts ts' \<Longrightarrow> dom ts' = dom ts"
  unfolding same_but_links_def dom_def
  by (metis (no_types, lifting) map_option_is_None)

lemma same_but_links_None: "same_but_links ts ts' \<Longrightarrow> ts' p = None \<longleftrightarrow> ts p = None"
  unfolding same_but_links_def by (metis map_option_is_None)

lemma same_but_linksD:
  assumes "same_but_links ts ts'" "ts' p = Some t'"
  obtains t where "ts p = Some t" "status t' = status t" "task_mmu t' = task_mmu t"
    "ucontext t' = ucontext t" "task_pid t' = task_pid t"
proof -
  have "Some (t'\<lparr>sched_link := NULL\<rparr>) = map_option (sched_link_update (\<lambda>_. NULL)) (ts p)"
    using assms by (metis option.simps(9) same_but_links_def)
  then obtain t where t: "ts p = Some t" and eq: "t'\<lparr>sched_link := NULL\<rparr> = t\<lparr>sched_link := NULL\<rparr>"
    by (cases "ts p") (simp_all del: task.update_convs)
  show ?thesis
  proof (rule that [OF t])
    show "status t' = status t" using arg_cong [OF eq, of status] by simp
    show "task_mmu t' = task_mmu t" using arg_cong [OF eq, of task_mmu] by simp
    show "ucontext t' = ucontext t" using arg_cong [OF eq, of ucontext] by simp
    show "task_pid t' = task_pid t" using arg_cong [OF eq, of task_pid] by simp
  qed
qed

subsection \<open>Pushing and popping\<close>

lemma push_back_rep:
  assumes "queue_rep (q, ts) xs" "queue_elem (q, ts) x" "x \<notin> set xs"
  obtains q' ts' where "task_queue_push_back x (q, ts) = Inr (q', ts')" "queue_rep (q', ts') (xs @ [x])"
    "same_but_links ts ts'"
proof -
  obtain u where u: "ts x = Some u" and x: "x \<noteq> NULL" using assms(2) by (auto simp: queue_elem_def)
  let ?ts1 = "ts(x \<mapsto> u\<lparr>sched_link := NULL\<rparr>)"
  have l1: "links ?ts1 (head q) xs"
    by (subst links_frame [of xs _ ts]) (use assms(1,3) in \<open>auto simp: queue_rep_def\<close>)
  have same: "same_but_links ts ?ts1" using u by (rule same_but_links_upd)
  show ?thesis
  proof (cases xs rule: rev_cases)
    case Nil
    then have "queue_rep (q\<lparr>head := x, tail := x\<rparr>, ?ts1) [x]" using x by (simp add: queue_rep_def)
    with Nil assms(1) u same show ?thesis
      by (intro that) (auto simp: task_queue_push_back_def heap_update_def queue_rep_def)
  next
    case (snoc ys y)
    have y: "y \<noteq> NULL" "y \<in> dom ?ts1" using links_elem [OF l1, of y] snoc by auto
    then obtain t where t: "?ts1 y = Some t" by blast
    have yx: "y \<noteq> x" using assms(3) snoc by auto
    have tl: "tail q = y" using assms(1) snoc by (simp add: queue_rep_def)
    have "links (?ts1(y \<mapsto> t\<lparr>sched_link := x\<rparr>)) (head q) (ys @ [y, x])"
      using l1 assms(1,3) x t snoc by (intro links_append) (auto simp: queue_rep_def)
    then have "queue_rep (q\<lparr>tail := x\<rparr>, ?ts1(y \<mapsto> t\<lparr>sched_link := x\<rparr>)) (xs @ [x])"
      using assms(1,3) snoc yx by (simp add: queue_rep_def)
    moreover have "task_queue_push_back x (q, ts) = Inr (q\<lparr>tail := x\<rparr>, ?ts1(y \<mapsto> t\<lparr>sched_link := x\<rparr>))"
      using u t tl y by (simp add: task_queue_push_back_def heap_update_def)
    moreover have "same_but_links ts (?ts1(y \<mapsto> t\<lparr>sched_link := x\<rparr>))"
      by (rule same_but_links_trans [OF same]) (rule same_but_links_upd, rule t)
    ultimately show ?thesis using that by blast
  qed
qed

lemma pop_rep:
  assumes "queue_rep (q, ts) (x # xs)"
  obtains q' where "task_queue_pop (q, ts) = Inr (x, q', ts)" "queue_rep (q', ts) xs"
proof -
  obtain t where t: "ts x = Some t" "links ts (sched_link t) xs" "head q = x" "x \<noteq> NULL"
    using assms by (auto simp: queue_rep_def split: option.splits)
  then have nil: "sched_link t = NULL \<longleftrightarrow> xs = []" by (cases xs) auto
  show ?thesis
    by (rule that) (use t nil assms in \<open>auto simp: task_queue_pop_def queue_rep_def Let_def\<close>)
qed

interpretation tq: fifo task_queue_push_back task_queue_pop queue_rep queue_elem NULL
proof (unfold_locales, goal_cases)
  case (1 s xs x)
  obtain q ts where [simp]: "s = (q, ts)" by (cases s)
  from 1 obtain q' ts' where r: "task_queue_push_back x s = Inr (q', ts')" "queue_rep (q', ts') (xs @ [x])"
    and d: "same_but_links ts ts'"
    using push_back_rep [of q ts xs x] by auto
  have "dom ts' = dom ts" using d by (rule same_but_links_dom)
  with r show ?case by (auto simp: queue_elem_def fun_eq_iff)
next
  case (2 s x xs)
  then show ?case by (cases s) (auto simp: queue_elem_def fun_eq_iff elim!: pop_rep)
next
  case (3 s)
  then show ?case by (cases s) (auto simp: queue_rep_def task_queue_pop_def)
next
  case (4 s xs x)
  then show ?case using links_elem [of "snd s" "head (fst s)" xs x] by (simp add: queue_rep_def queue_elem_def)
next
  case (5 s xs)
  then show ?case by (simp add: queue_rep_def)
qed

subsection \<open>The global queue\<close>

text \<open>
  The counter is the length of the list. A list of distinct non-null addresses is shorter than
  \<open>2 ^ 32\<close>, so the counter is zero for the empty list only.
\<close>

definition run_queue :: "kernel \<Rightarrow> ptr list \<Rightarrow> bool" where
  "run_queue s xs \<longleftrightarrow> queue_rep (m_global_run_queue s, tasks s) xs \<and>
     m_global_run_queue_size s = of_nat (length xs)"

definition run_queue_elem :: "kernel \<Rightarrow> ptr \<Rightarrow> bool" where
  "run_queue_elem s p \<longleftrightarrow> queue_elem (m_global_run_queue s, tasks s) p"

lemma run_queue_length:
  assumes "queue_rep qh xs" shows "length xs < 2 ^ 32"
proof -
  have "set xs \<subseteq> UNIV - {NULL}"
    using assms links_elem by (auto simp: queue_rep_def)
  then have "card (set xs) \<le> card (UNIV - {NULL} :: ptr set)" by (intro card_mono) auto
  also have "\<dots> = 2 ^ 32 - 1" by (simp add: card_Diff_subset card_word)
  finally show ?thesis using assms by (simp add: queue_rep_def distinct_card)
qed

lemma run_queue_size_zero: "run_queue s xs \<Longrightarrow> m_global_run_queue_size s = 0 \<longleftrightarrow> xs = []"
  using run_queue_length [of "(m_global_run_queue s, tasks s)" xs]
  by (auto simp: run_queue_def word_unat_eq_iff unat_of_nat)

lemma global_put_rep:
  assumes "run_queue s xs" "run_queue_elem s x" "x \<notin> set xs"
  obtains q ts where "global_run_queue_put x s = Inr (s\<lparr>m_global_run_queue := q, tasks := ts,
      m_global_run_queue_size := m_global_run_queue_size s + 1\<rparr>)"
    "queue_rep (q, ts) (xs @ [x])" "same_but_links (tasks s) ts"
proof -
  obtain q ts where "task_queue_push_back x (m_global_run_queue s, tasks s) = Inr (q, ts)"
    "queue_rep (q, ts) (xs @ [x])" "same_but_links (tasks s) ts"
    using assms push_back_rep [of "m_global_run_queue s" "tasks s" xs x]
    unfolding run_queue_def run_queue_elem_def by blast
  then show ?thesis by (intro that) (auto simp: global_run_queue_put_def)
qed

lemma global_get_rep:
  assumes "run_queue s (x # xs)"
  obtains q where "global_run_queue_get s = Inr (x, s\<lparr>m_global_run_queue := q,
      m_global_run_queue_size := of_nat (length xs)\<rparr>)" "queue_rep (q, tasks s) xs"
proof -
  obtain q where "task_queue_pop (m_global_run_queue s, tasks s) = Inr (x, q, tasks s)"
    "queue_rep (q, tasks s) xs"
    using assms pop_rep [of "m_global_run_queue s" "tasks s" x xs] unfolding run_queue_def by blast
  moreover have "m_global_run_queue_size s \<noteq> 0" "m_global_run_queue_size s - 1 = of_nat (length xs)"
    using run_queue_size_zero [OF assms] assms by (simp_all add: run_queue_def)
  ultimately show ?thesis by (intro that) (auto simp: global_run_queue_get_def Let_def)
qed

interpretation grq: fifo global_run_queue_put global_run_queue_get run_queue run_queue_elem NULL
proof (unfold_locales, goal_cases)
  case (1 s xs x)
  then show ?case
    by (elim global_put_rep) (use 1 in \<open>auto simp: run_queue_def run_queue_elem_def queue_elem_def
      fun_eq_iff dest!: same_but_links_dom\<close>)
next
  case (2 s x xs)
  then show ?case
    by (elim global_get_rep) (auto simp: run_queue_def run_queue_elem_def queue_elem_def fun_eq_iff)
next
  case (3 s)
  then show ?case by (simp add: global_run_queue_get_def run_queue_def)
next
  case (4 s xs x)
  then show ?case using tq.rep_elem by (auto simp: run_queue_def run_queue_elem_def)
next
  case (5 s xs)
  then show ?case using tq.rep_distinct by (auto simp: run_queue_def)
qed

end
