(* ===== verification/Dport.thy ===== *)
theory Dport
  imports Mmu
begin

section \<open>Interrupt matrix and DPORT initialisation\<close>

text \<open>
  \<^verbatim>\<open>drivers/dport.c\<close>, \<^verbatim>\<open>init_dport\<close> and \<^verbatim>\<open>dport_map_interrupt\<close>.
  The free peripheral interrupts are a bitmap; a source is routed to the lowest free one of
  the requested trigger kind.
\<close>

subsection \<open>Initialisation\<close>

text \<open>
  The flush polls a volatile register: \<open>rd n\<close> is what its \<open>n\<close>-th read returns. The loop ends at
  the first read with \<^verbatim>\<open>cache_flush_done\<close> (bit 5) set, if there is one.
\<close>

partial_function (option) poll_flush_done :: "(nat \<Rightarrow> u32) \<Rightarrow> nat \<Rightarrow> nat option" where
  "poll_flush_done rd n = (if bit (rd n) 5 then Some (Suc n) else poll_flush_done rd (Suc n))"

text \<open>
  Read 0 is the read-modify-write that sets \<^verbatim>\<open>cache_flush_ena\<close> (bit 4), the reads after it
  are the polls, and the one after the last poll is the read-modify-write that sets
  \<^verbatim>\<open>cache_enable\<close> (bit 3). The values written before that one, 0 and the flush bit, are the device's
  to act on and do not stay in the register: the result is the last value written.
\<close>

definition flushed_and_enabled :: "(nat \<Rightarrow> u32) \<Rightarrow> u32 run" where
  "flushed_and_enabled rd =
     andthen (loop_result (poll_flush_done rd 1)) (\<lambda>n. Inr (rd n OR push_bit 3 1))"

definition init_dport :: "u32 \<Rightarrow> (nat \<Rightarrow> u32) \<Rightarrow> (nat \<Rightarrow> u32) \<Rightarrow> dport \<Rightarrow> dport run" where
  "init_dport vecbase pro_reads app_reads d =
     (let d1 = d\<lparr>DPORT_PRO_BOOT_REMAP_CTRL := 0, DPORT_APP_BOOT_REMAP_CTRL := 0,
                 DPORT_CACHE_MUX_MODE := 0\<rparr>
      in andthen (flushed_and_enabled pro_reads) (\<lambda>pro.
         andthen (flushed_and_enabled app_reads) (\<lambda>app.
         let d2 = d1\<lparr>DPORT_PRO_CACHE_CTRL := pro, DPORT_APP_CACHE_CTRL := app,
               DPORT_PRO_INT_MAP := fold (\<lambda>i f. f(i := 16)) [0..<69] (DPORT_PRO_INT_MAP d1),
               DPORT_APP_INT_MAP := fold (\<lambda>i f. f(i := 16)) [0..<69] (DPORT_APP_INT_MAP d1),
               DPORT_INTR_FROM_CPU := fold (\<lambda>i f. f(i := 0)) [0..<4] (DPORT_INTR_FROM_CPU d1)\<rparr>
         in andthen (ASSERT (vecbase AND (push_bit 10 1 - 1) = 0) ''vecbase alignment'') (\<lambda>_.
            Inr (d2\<lparr>DPORT_PRO_VECBASE_SET_REG := drop_bit 10 vecbase,
                    DPORT_PRO_VECBASE_CTRL_REG := DPORT_PRO_VECBASE_CTRL_REG d2 OR 0b11,
                    DPORT_APP_VECBASE_SET_REG := drop_bit 10 vecbase,
                    DPORT_APP_VECBASE_CTRL_REG := DPORT_APP_VECBASE_CTRL_REG d2 OR 0b11\<rparr>)))))"

subsection \<open>Mapping an interrupt\<close>

definition bits :: "nat list \<Rightarrow> 'a::len word" where
  "bits is = foldr (\<lambda>i w. push_bit i 1 OR w) is 0"

definition PERIPHERALS_EDGE_TRIGGERED :: u32 where
  "PERIPHERALS_EDGE_TRIGGERED = bits [10, 22, 28, 30]"

definition initial_free_interrupts :: u32 where
  "initial_free_interrupts = bits [0, 1, 2, 3, 4, 5, 8, 9, 10, 12, 13, 17, 18]"

definition TG_WDT_LEVEL_INT :: int where "TG_WDT_LEVEL_INT = 16"

text \<open>The free interrupts of the requested trigger kind, as the mask the code builds.\<close>

definition int_candidates :: "bool \<Rightarrow> dport \<Rightarrow> u32" where
  "int_candidates edge_triggered d =
     (if edge_triggered then m_free_peripheral_interrupt d AND PERIPHERALS_EDGE_TRIGGERED
      else m_free_peripheral_interrupt d AND NOT PERIPHERALS_EDGE_TRIGGERED)"

definition dport_map_interrupt :: "int \<Rightarrow> bool \<Rightarrow> kernel \<Rightarrow> (err_t \<times> kernel) run" where
  "dport_map_interrupt source edge_triggered s =
     (let failed = (\<lambda>err line.
        andthen (kprint (check_failed err ''dport_map_interrupt'' ''src/drivers/dport.c'' line) s) (\<lambda>s1. Inr (err, s1)))
      in if \<not> source \<ge> 0 then failed ERROR_CHECK_FAILED 158
      else if \<not> source \<le> 68 then failed ERROR_CHECK_FAILED 159
      else
        let candidates = int_candidates edge_triggered (dport s)
        in if candidates = 0 then failed ERROR_OUT_OF_RESOURCES 168
           else
             let free = ffs candidates - 1;
                 s1 = s\<lparr>dport := (dport s)\<lparr>m_free_peripheral_interrupt :=
                        m_free_peripheral_interrupt (dport s) AND NOT (push_bit free 1)\<rparr>\<rparr>
             in andthen (kprint (TRACE ''Mapping %d -> %d'' [VInt (of_int source), VInt (of_nat free)]) s1) (\<lambda>s2.
                Inr (NO_ERROR, s2\<lparr>dport := (dport s2)\<lparr>DPORT_PRO_INT_MAP :=
                       (DPORT_PRO_INT_MAP (dport s2))(nat source := of_nat free)\<rparr>\<rparr>)))"

text \<open>The sources \<^verbatim>\<open>dport_log_interrupt\<close> reports, in its order.\<close>

definition INTERRUPT_SOURCE_MAX :: nat where "INTERRUPT_SOURCE_MAX = 69"

definition dport_pending_interrupts :: "dport \<Rightarrow> nat list" where
  "dport_pending_interrupts d =
     filter (\<lambda>i. DPORT_PRO_INTR_STATUS d (i div 32) AND push_bit (i mod 32) 1 \<noteq> 0)
       [0..<INTERRUPT_SOURCE_MAX]"

subsection \<open>Lemmas\<close>

definition free_interrupts :: "bool \<Rightarrow> dport \<Rightarrow> nat set" where
  "free_interrupts edge d = (if edge then bits_of (m_free_peripheral_interrupt d) \<inter> {10, 22, 28, 30}
     else bits_of (m_free_peripheral_interrupt d) - {10, 22, 28, 30})"

lemma bits_of_bits [simp]: "bits_of (bits is :: 'a::len word) = {i \<in> set is. i < LENGTH('a)}"
proof (induction "is")
  case Nil
  show ?case by (simp add: bits_def)
next
  case (Cons i "is")
  have "bits_of (bits (i # is) :: 'a word) = bits_of (push_bit i 1 :: 'a word) \<union> bits_of (bits is :: 'a word)"
    by (auto simp: bits_def bits_of_def bit_or_iff)
  moreover have "bits_of (push_bit i 1 :: 'a word) = {j. j = i \<and> j < LENGTH('a)}"
    by (auto simp: bits_of_def bit_simps)
  ultimately show ?case using Cons by auto
qed

lemma bits_of_and: "bits_of (v AND w) = bits_of v \<inter> bits_of w"
  by (auto simp: bits_of_def bit_and_iff)

lemma bits_of_and_not: "bits_of (v AND NOT w) = bits_of v - bits_of w"
  by (auto simp: bits_of_def bit_simps dest: bit_imp_le_length)

lemma candidates_bits: "bits_of (int_candidates edge d) = free_interrupts edge d"
proof (cases edge)
  case True
  then show ?thesis
    by (auto simp: int_candidates_def free_interrupts_def PERIPHERALS_EDGE_TRIGGERED_def bits_of_and)
next
  case False
  then show ?thesis
    by (auto simp: int_candidates_def free_interrupts_def PERIPHERALS_EDGE_TRIGGERED_def bits_of_and_not)
qed

lemma candidates_zero: "int_candidates edge d = 0 \<longleftrightarrow> free_interrupts edge d = {}"
  by (simp flip: candidates_bits)

lemma finite_free_interrupts [simp]: "finite (free_interrupts edge d)"
  by (simp add: free_interrupts_def)

lemma says_mapping [simp]: "says (TRACE ''Mapping %d -> %d'' [VInt a, VInt b])"
  by (rule says_lines, simp add: printable_def CRLF_def spec_simps, simp add: has_def FLAGS_defs)

text \<open>A granted request, and one that finds no interrupt of its kind.\<close>

definition interrupt_mapped :: "int \<Rightarrow> nat \<Rightarrow> kernel \<Rightarrow> kernel" where
  "interrupt_mapped source n s =
     (say (TRACE ''Mapping %d -> %d'' [VInt (of_int source), VInt (of_nat n)]) s)
       \<lparr>dport := (dport s)\<lparr>m_free_peripheral_interrupt := m_free_peripheral_interrupt (dport s) AND NOT (push_bit n 1),
          DPORT_PRO_INT_MAP := (DPORT_PRO_INT_MAP (dport s))(nat source := of_nat n)\<rparr>\<rparr>"

lemma dport_map_interrupt_success:
  assumes "0 \<le> source" "source \<le> 68" "free_interrupts edge (dport s) \<noteq> {}"
  shows "dport_map_interrupt source edge s =
    Inr (NO_ERROR, interrupt_mapped source (Min (free_interrupts edge (dport s))) s)"
  using assms ffs_eq_Suc_Min [of "int_candidates edge (dport s)"]
  by (simp add: dport_map_interrupt_def Let_def candidates_zero candidates_bits interrupt_mapped_def) (simp add: say_def)

lemma dport_map_interrupt_exhausted:
  assumes "0 \<le> source" "source \<le> 68" "free_interrupts edge (dport s) = {}"
  shows "dport_map_interrupt source edge s = Inr (ERROR_OUT_OF_RESOURCES,
    say (check_failed ERROR_OUT_OF_RESOURCES ''dport_map_interrupt'' ''src/drivers/dport.c'' 168) s)"
  using assms by (simp add: dport_map_interrupt_def Let_def candidates_zero)

lemma free_interrupts_after:
  assumes "0 \<le> source" "source \<le> 68" "free_interrupts edge (dport s) \<noteq> {}"
  shows "free_interrupts e (dport (interrupt_mapped source (Min (free_interrupts edge (dport s))) s)) =
    free_interrupts e (dport s) - {Min (free_interrupts edge (dport s))}"
  by (auto simp: free_interrupts_def interrupt_mapped_def)

end
