(* ===== verification/Timg.thy ===== *)
theory Timg
  imports Dport
begin

section \<open>The watchdog\<close>

text \<open>
  \<^verbatim>\<open>drivers/timg.c\<close>: the watchdog of timer group 0, which is the kernel's time slice. Its
  configuration registers are write protected; every driver operation unlocks, writes and locks
  again. Register writes are recorded in order, so that this discipline is a statement about
  the record.
\<close>

definition timg_write :: "timg_reg \<Rightarrow> u32 \<Rightarrow> timg \<Rightarrow> timg" where
  "timg_write r v t = t\<lparr>timg_regs := (timg_regs t)(r := v), timg_writes := timg_writes t @ [(r, v)]\<rparr>"

text \<open>Assigning a bit field reads the register, changes the field and writes it back.\<close>

definition timg_set_bit :: "timg_reg \<Rightarrow> nat \<Rightarrow> timg \<Rightarrow> timg" where
  "timg_set_bit r n t = timg_write r (timg_regs t r OR push_bit n 1) t"

definition timg_clear_bit :: "timg_reg \<Rightarrow> nat \<Rightarrow> timg \<Rightarrow> timg" where
  "timg_clear_bit r n t = timg_write r (timg_regs t r AND NOT (push_bit n 1)) t"

definition WDT_KEY :: u32 where "WDT_KEY = 0x050D83AA1"

definition wdt_unlock :: "timg \<Rightarrow> timg" where
  "wdt_unlock t = timg_write TIMG0_WDTWPROTECT WDT_KEY t"

definition wdt_lock :: "timg \<Rightarrow> timg" where
  "wdt_lock t = timg_write TIMG0_WDTWPROTECT 0xDEADBEEF t"

text \<open>
  \<^verbatim>\<open>TIMG_WDTCONFIG_REG\<close>: \<^verbatim>\<open>en\<close> is bit 31, \<^verbatim>\<open>stg0\<close> bits 29 and 30,
  \<^verbatim>\<open>stg1\<close> bits 27 and 28, \<^verbatim>\<open>level_int_en\<close> bit 21; \<^verbatim>\<open>wdt_int\<close> is bit 2 of
  \<^verbatim>\<open>TIMG_INT_REG\<close>.
\<close>

definition wdtconfig_init :: u32 where
  "wdtconfig_init = push_bit 21 1 OR push_bit 29 1 OR push_bit 27 3"

definition init_wdt :: "kernel \<Rightarrow> (err_t \<times> kernel) run" where
  "init_wdt s =
     andthen (dport_map_interrupt TG_WDT_LEVEL_INT False s) (\<lambda>(err, s1).
         if IS_ERROR err
         then andthen (kprint (rethrown ''init_wdt'' ''src/drivers/timg.c'' 106) s1) (\<lambda>s2. Inr (err, s2))
         else
           let t1 = wdt_unlock (timg s1);
               t2 = timg_write TIMG0_WDTCONFIG wdtconfig_init t1;
               t3 = timg_write TIMG0_WDTCONFIG1 (push_bit 16 40000) t2;
               t4 = timg_write TIMG0_WDTCONFIG2 10 t3;
               t5 = timg_write TIMG0_WDTCONFIG3 10 t4;
               t6 = timg_set_bit TIMG0_WDTCONFIG 31 t5;
               t7 = wdt_lock t6;
               t8 = timg_set_bit TIMG0_INT_ENA 2 t7;
               t9 = timg_set_bit TIMG0_INT_CLR 2 t8
           in Inr (NO_ERROR, s1\<lparr>timg := t9\<rparr>))"

definition wdt_enable :: "timg \<Rightarrow> timg" where
  "wdt_enable t = wdt_lock (timg_set_bit TIMG0_WDTCONFIG 31 (wdt_unlock t))"

definition wdt_disable :: "timg \<Rightarrow> timg" where
  "wdt_disable t = wdt_lock (timg_clear_bit TIMG0_WDTCONFIG 31 (wdt_unlock t))"

definition wdt_feed :: "timg \<Rightarrow> timg" where
  "wdt_feed t = wdt_lock (timg_write TIMG0_WDTFEED 1 (wdt_unlock t))"

definition wdt_handle :: "timg \<Rightarrow> bool \<times> timg" where
  "wdt_handle t =
     (if \<not> bit (timg_regs t TIMG0_INT_ST) 2 then (False, t)
      else (True, timg_set_bit TIMG0_INT_CLR 2 (wdt_feed t)))"

subsection \<open>The write protection as the hardware applies it\<close>

text \<open>
  The protected registers take a write only while \<^verbatim>\<open>TIMG0_WDTWPROTECT\<close> holds the key.
  \<open>hw_writes\<close> replays a record of writes under that rule.
\<close>

definition wdt_protected :: "timg_reg set" where
  "wdt_protected = {TIMG0_WDTCONFIG, TIMG0_WDTCONFIG1, TIMG0_WDTCONFIG2, TIMG0_WDTCONFIG3, TIMG0_WDTFEED}"

fun hw_writes :: "(timg_reg \<times> u32) list \<Rightarrow> (timg_reg \<Rightarrow> u32) \<Rightarrow> (timg_reg \<Rightarrow> u32)" where
  "hw_writes [] f = f"
| "hw_writes ((r, v) # ws) f =
     hw_writes ws (if r \<in> wdt_protected \<and> f TIMG0_WDTWPROTECT \<noteq> WDT_KEY then f else f(r := v))"

definition wdt_locked :: "timg \<Rightarrow> bool" where
  "wdt_locked t \<longleftrightarrow> timg_regs t TIMG0_WDTWPROTECT \<noteq> WDT_KEY"

definition wdt_enabled :: "timg \<Rightarrow> bool" where
  "wdt_enabled t \<longleftrightarrow> bit (timg_regs t TIMG0_WDTCONFIG) 31"

text \<open>An operation whose writes all take effect, and that leaves the registers locked.\<close>

definition wdt_effective :: "timg \<Rightarrow> timg \<Rightarrow> bool" where
  "wdt_effective t t' \<longleftrightarrow> wdt_locked t' \<and>
     (\<exists>ws. timg_writes t' = timg_writes t @ ws \<and> hw_writes ws (timg_regs t) = timg_regs t')"

lemmas wdt_defs = timg_write_def timg_set_bit_def timg_clear_bit_def wdt_unlock_def wdt_lock_def
  wdt_protected_def WDT_KEY_def

lemma wdt_effective_operations:
  "wdt_effective t (wdt_enable t)" "wdt_effective t (wdt_disable t)" "wdt_effective t (wdt_feed t)"
  by (simp_all add: wdt_effective_def wdt_locked_def wdt_enable_def wdt_disable_def wdt_feed_def wdt_defs)

lemma wdt_enabled_simps [simp]:
  "wdt_enabled (wdt_enable t)" "\<not> wdt_enabled (wdt_disable t)"
  "wdt_enabled (wdt_feed t) = wdt_enabled t"
  by (simp_all add: wdt_enabled_def wdt_enable_def wdt_disable_def wdt_feed_def wdt_defs bit_simps)

end
