(* ===== verification/Scheduler.thy ===== *)
theory Scheduler
  imports Task Run_Queue Timg
begin

section \<open>The scheduler\<close>

text \<open>
  \<^verbatim>\<open>task/scheduler.c\<close>: readying a task, the switch made when the watchdog ends a time
  slice or a task parks or drops, and the search for a task to run. The trap frame
  \<^verbatim>\<open>ctx\<close> that the handlers overwrite is passed and returned. The locks, \<^verbatim>\<open>wake_cpu\<close>
  and the idle hooks are empty functions of the source.
\<close>

subsection \<open>Operations\<close>

definition scheduler_preempt_disable :: "kernel \<Rightarrow> kernel" where
  "scheduler_preempt_disable s = (let c = get_cpu_context s in
     set_cpu_context (c\<lparr>preempt_disable_depth := preempt_disable_depth c + 1\<rparr>) s)"

text \<open>\<^verbatim>\<open>++get_cpu_context()->preempt_disable_depth\<close>, as the source has it.\<close>

definition scheduler_preempt_enable :: "kernel \<Rightarrow> kernel" where
  "scheduler_preempt_enable s = (let c = get_cpu_context s in
     set_cpu_context (c\<lparr>preempt_disable_depth := preempt_disable_depth c + 1\<rparr>) s)"

definition scheduler_ready_task :: "ptr \<Rightarrow> kernel \<Rightarrow> kernel run" where
  "scheduler_ready_task p s =
     andthen (update_task p (sched_link_update (\<lambda>_. NULL)) s) (\<lambda>s1.
     let s2 = scheduler_preempt_disable s1 in
     andthen (get_task_status p s2) (\<lambda>st.
     andthen (ASSERT (st AND NOT TASK_SUSPEND = TASK_STATUS_WAITING)
                ''(get_task_status(task) & ~TASK_SUSPEND) == TASK_STATUS_WAITING'') (\<lambda>_.
     andthen (cas_task_state p TASK_STATUS_WAITING TASK_STATUS_RUNNABLE s2) (\<lambda>s3.
     andthen (global_run_queue_put p s3) (\<lambda>s4.
     Inr (scheduler_preempt_enable s4))))))"

definition scheduler_set_deadline :: "kernel \<Rightarrow> kernel" where
  "scheduler_set_deadline s = s\<lparr>timg := wdt_enable (wdt_feed (timg s))\<rparr>"

definition scheduler_cancel_deadline :: "kernel \<Rightarrow> kernel" where
  "scheduler_cancel_deadline s = s\<lparr>timg := wdt_disable (timg s)\<rparr>"

definition set_current_task :: "ptr \<Rightarrow> kernel \<Rightarrow> kernel" where
  "set_current_task p s = set_cpu_context ((get_cpu_context s)\<lparr>current_task := p\<rparr>) s"

definition execute :: "ptr \<Rightarrow> kernel \<Rightarrow> (task_regs \<times> kernel) run" where
  "execute task s =
     andthen (cas_task_state task TASK_STATUS_RUNNABLE TASK_STATUS_RUNNING (set_current_task task s)) (\<lambda>s1.
     andthen (restore_task_context task (scheduler_set_deadline s1)) (\<lambda>(ctx, s2).
     andthen (pid_prepare s2) (\<lambda>s3. Inr (ctx, s3))))"

definition save_current_task :: "task_regs \<Rightarrow> bool \<Rightarrow> kernel \<Rightarrow> kernel run" where
  "save_current_task ctx park s =
     (let current = current_task (get_cpu_context s) in
      andthen (ASSERT (current \<noteq> NULL) ''pctx->current_task != NULL'') (\<lambda>_.
      andthen (save_task_context current ctx (set_current_task NULL s)) (\<lambda>s1.
      if \<not> park then
        andthen (cas_task_state current TASK_STATUS_RUNNING TASK_STATUS_RUNNABLE s1) (\<lambda>s2.
        global_run_queue_put current s2)
      else cas_task_state current TASK_STATUS_RUNNING TASK_STATUS_WAITING s1)))"

text \<open>
  The idle loop. With an empty queue it executes \<^verbatim>\<open>WAITI 0\<close> and polls again; an interrupt
  taken in kernel mode returns at once, so nothing on this core fills the queue meanwhile.
\<close>

partial_function (option) find_runnable :: "kernel \<Rightarrow> ((ptr \<times> kernel) run) option" where
  "find_runnable s =
     (case global_run_queue_get s of
        Inl e \<Rightarrow> Some (Inl e)
      | Inr (task, s1) \<Rightarrow> if task \<noteq> NULL then Some (Inr (task, s1)) else find_runnable s1)"

definition schedule :: "kernel \<Rightarrow> (task_regs \<times> kernel) run" where
  "schedule s =
     andthen (loop_result (find_runnable s)) (\<lambda>r.
     andthen r (\<lambda>(thread, s1). execute thread s1))"

definition scheduler_on_schedule :: "task_regs \<Rightarrow> kernel \<Rightarrow> (task_regs \<times> kernel) run" where
  "scheduler_on_schedule regs s = andthen (save_current_task regs False s) schedule"

definition run_park_callback :: "platform \<Rightarrow> kernel \<Rightarrow> kernel run" where
  "run_park_callback pf s =
     (let c = get_cpu_context s in
      if park_callback c \<noteq> NULL then
        andthen (park_call pf (park_callback c) (park_arg c) s) (\<lambda>s1.
        Inr (set_cpu_context ((get_cpu_context s1)\<lparr>park_callback := NULL, park_arg := NULL\<rparr>) s1))
      else Inr s)"

definition scheduler_on_park :: "platform \<Rightarrow> task_regs \<Rightarrow> kernel \<Rightarrow> (task_regs \<times> kernel) run" where
  "scheduler_on_park pf regs s =
     andthen (save_current_task regs True s) (\<lambda>s1.
     andthen (run_park_callback pf s1) (\<lambda>s2.
     schedule (scheduler_cancel_deadline s2)))"

definition scheduler_on_drop :: "task_regs \<Rightarrow> kernel \<Rightarrow> (task_regs \<times> kernel) run" where
  "scheduler_on_drop regs s =
     (let current = current_task (get_cpu_context s);
          s1 = set_current_task NULL s
      in andthen (if current \<noteq> NULL
           then andthen (cas_task_state current TASK_STATUS_RUNNING TASK_STATUS_DEAD s1) (release_task current)
           else Inr s1) (\<lambda>s2.
         schedule (scheduler_cancel_deadline s2)))"

text \<open>
  The calls of running kernel code into the scheduler: the state they leave and the number of
  the system call they issue, if any. The depth is a signed \<^verbatim>\<open>int\<close>.
\<close>

definition SYSCALL_SCHED_YIELD :: u32 where "SYSCALL_SCHED_YIELD = 0x09"
definition SYSCALL_SCHED_PARK :: u32 where "SYSCALL_SCHED_PARK = 0x08"
definition SYSCALL_SCHED_DROP :: u32 where "SYSCALL_SCHED_DROP = 0x0a"

definition scheduler_yield :: "kernel \<Rightarrow> u32 option" where
  "scheduler_yield s =
     (if sint (preempt_disable_depth (get_cpu_context s)) > 0 then None else Some SYSCALL_SCHED_YIELD)"

definition scheduler_park :: "ptr \<Rightarrow> ptr \<Rightarrow> kernel \<Rightarrow> u32 \<times> kernel" where
  "scheduler_park callback arg s =
     (SYSCALL_SCHED_PARK,
      set_cpu_context ((get_cpu_context s)\<lparr>park_callback := callback, park_arg := arg\<rparr>) s)"

definition get_current_task :: "kernel \<Rightarrow> ptr" where
  "get_current_task s = current_task (get_cpu_context s)"

end
