(* ===== verification/Sched_Refinement.thy ===== *)
theory Sched_Refinement
  imports Scheduler
begin

section \<open>The scheduler implements round robin with faithful context switches\<close>

text \<open>
  The specification (\<open>sched_spec\<close>): a list of ready tasks, the running task and the saved
  register file of every task. The invariant \<open>sched_inv\<close> ties the kernel's state to it: the
  linked queue is the ready list, statuses agree with it, the MMU driver's invariant holds and
  every task's user context lies in a data page it alone maps. The handlers simulate the
  specification's operations.
\<close>

subsection \<open>Specification\<close>

record sched_spec =
  ready :: "ptr list"
  running :: "ptr option"
  saved :: "ptr \<rightharpoonup> task_regs"

definition spec_pick :: "sched_spec \<Rightarrow> (task_regs \<times> sched_spec) option" where
  "spec_pick a = (case ready a of
       [] \<Rightarrow> None
     | x # xs \<Rightarrow> Some (the (saved a x), a\<lparr>ready := xs, running := Some x\<rparr>))"

text \<open>A time slice ends: the running task goes to the back of the list, the first one runs.\<close>

definition spec_preempt :: "task_regs \<Rightarrow> sched_spec \<Rightarrow> (task_regs \<times> sched_spec) option" where
  "spec_preempt regs a = (case running a of
       None \<Rightarrow> None
     | Some c \<Rightarrow> spec_pick (a\<lparr>ready := ready a @ [c], running := None, saved := (saved a)(c \<mapsto> regs)\<rparr>))"

text \<open>The running task parks: it leaves, and is resumed by whoever readies it.\<close>

definition spec_park :: "task_regs \<Rightarrow> sched_spec \<Rightarrow> (task_regs \<times> sched_spec) option" where
  "spec_park regs a = (case running a of
       None \<Rightarrow> None
     | Some c \<Rightarrow> spec_pick (a\<lparr>running := None, saved := (saved a)(c \<mapsto> regs)\<rparr>))"

subsection \<open>Abstraction and invariant\<close>

definition saved_regs :: "kernel \<Rightarrow> ptr \<rightharpoonup> task_regs" where
  "saved_regs s p = map_option (\<lambda>t. read_regs (ucontext t + UCONTEXT_REGS) (mem s)) (tasks s p)"

definition uctx_ok :: "(ptr \<rightharpoonup> task) \<Rightarrow> bool" where
  "uctx_ok ts \<longleftrightarrow> (\<forall>p t. ts p = Some t \<longrightarrow>
     (\<exists>q < 16. maps_page (dmmu (task_mmu t)) 15 q \<and> ucontext t = DATA_PAGE_ADDR (of_nat q)))"

definition status_ok :: "ptr \<Rightarrow> ptr list \<Rightarrow> (ptr \<rightharpoonup> task) \<Rightarrow> bool" where
  "status_ok c xs ts \<longleftrightarrow> (\<forall>p t. ts p = Some t \<longrightarrow>
     (status t = TASK_STATUS_RUNNABLE \<longleftrightarrow> p \<in> set xs) \<and> (status t = TASK_STATUS_RUNNING \<longleftrightarrow> p = c))"

definition sched_inv :: "kernel \<Rightarrow> ptr list \<Rightarrow> bool" where
  "sched_inv s xs \<longleftrightarrow> mmu_inv s \<and> uctx_ok (tasks s) \<and> run_queue s xs \<and>
     status_ok (get_current_task s) xs (tasks s) \<and>
     (get_current_task s \<noteq> NULL \<longrightarrow> get_current_task s \<in> dom (tasks s))"

definition sched_abs :: "kernel \<Rightarrow> sched_spec \<Rightarrow> bool" where
  "sched_abs s a \<longleftrightarrow> sched_inv s (ready a) \<and> saved a = saved_regs s \<and>
     running a = (if get_current_task s = NULL then None else Some (get_current_task s))"

subsection \<open>What the invariants depend on\<close>

text \<open>Heaps whose tasks have the same address space and user context.\<close>

definition same_spaces :: "(ptr \<rightharpoonup> task) \<Rightarrow> (ptr \<rightharpoonup> task) \<Rightarrow> bool" where
  "same_spaces ts ts' \<longleftrightarrow>
     (\<forall>p. map_option (\<lambda>t. (task_mmu t, ucontext t)) (ts' p) = map_option (\<lambda>t. (task_mmu t, ucontext t)) (ts p))"

lemma same_spaces_refl [simp]: "same_spaces ts ts"
  by (simp add: same_spaces_def)

lemma same_spaces_trans: "same_spaces ts us \<Longrightarrow> same_spaces us vs \<Longrightarrow> same_spaces ts vs"
  by (simp add: same_spaces_def)

lemma same_spacesD:
  assumes "same_spaces ts ts'" "ts' p = Some t'"
  shows "\<exists>t. ts p = Some t \<and> task_mmu t' = task_mmu t \<and> ucontext t' = ucontext t"
proof -
  have "map_option (\<lambda>t. (task_mmu t, ucontext t)) (ts' p) = map_option (\<lambda>t. (task_mmu t, ucontext t)) (ts p)"
    using assms(1) by (simp add: same_spaces_def)
  with assms(2) show ?thesis by (cases "ts p") auto
qed

lemma same_spaces_None:
  assumes "same_spaces ts ts'" shows "ts' p = None \<longleftrightarrow> ts p = None"
proof -
  have "map_option (\<lambda>t. (task_mmu t, ucontext t)) (ts' p) = map_option (\<lambda>t. (task_mmu t, ucontext t)) (ts p)"
    using assms by (simp add: same_spaces_def)
  then show ?thesis by (cases "ts p"; cases "ts' p") auto
qed

lemma same_spaces_sym: "same_spaces ts ts' \<Longrightarrow> same_spaces ts' ts"
  by (simp add: same_spaces_def)

lemma same_spaces_status:
  "ts p = Some t \<Longrightarrow> same_spaces ts (ts(p \<mapsto> t\<lparr>status := v\<rparr>))"
  by (simp add: same_spaces_def)

lemma same_spaces_links:
  assumes "same_but_links ts ts'" shows "same_spaces ts ts'"
  unfolding same_spaces_def
proof
  fix p
  show "map_option (\<lambda>t. (task_mmu t, ucontext t)) (ts' p) = map_option (\<lambda>t. (task_mmu t, ucontext t)) (ts p)"
  proof (cases "ts' p")
    case None
    then show ?thesis using same_but_links_None [OF assms, of p] by simp
  next
    case (Some t')
    then show ?thesis using same_but_linksD [OF assms Some] by fastforce
  qed
qed

lemma tasks_ok_same:
  assumes "tasks_ok ts" "same_spaces ts ts'" shows "tasks_ok ts'"
proof -
  have "ts' NULL = None"
    using assms same_spacesD [OF assms(2), of NULL] by (cases "ts' NULL") (auto simp: tasks_ok_def)
  moreover have "mpu_peripheral (task_mmu t) = 0 \<and> space_wf 15 (immu (task_mmu t)) \<and>
      space_wf 16 (dmmu (task_mmu t))" if "ts' p = Some t" for p t
    using same_spacesD [OF assms(2) that] tasks_okD [OF assms(1)] by auto
  moreover have "pages_of (immu (task_mmu t)) \<inter> pages_of (immu (task_mmu t')) = {} \<and>
      pages_of (dmmu (task_mmu t)) \<inter> pages_of (dmmu (task_mmu t')) = {}"
    if "ts' p = Some t" "ts' p' = Some t'" "p \<noteq> p'" for p p' t t'
    using same_spacesD [OF assms(2) that(1)] same_spacesD [OF assms(2) that(2)]
      tasks_ok_disjoint [OF assms(1) _ _ that(3)] by metis
  ultimately show ?thesis unfolding tasks_ok_def by blast
qed

lemma uctx_ok_same: "uctx_ok ts \<Longrightarrow> same_spaces ts ts' \<Longrightarrow> uctx_ok ts'"
  unfolding uctx_ok_def by (metis same_spacesD)

lemma mmu_inv_same:
  assumes inv: "mmu_inv s" and ts: "same_spaces (tasks s) (tasks s')"
    and "dport s' = dport s" "get_cpu_index s' = get_cpu_index s"
    and bs: "\<And>k. the_binding k s' = the_binding k s"
  shows "mmu_inv s'"
proof -
  have mm: "map_option (\<lambda>t. sel (task_mmu t)) (tasks s' p) = map_option (\<lambda>t. sel (task_mmu t)) (tasks s p)"
    for sel :: "mmu \<Rightarrow> mmu_space" and p
    using same_spacesD [OF ts, of p] same_spaces_None [OF ts, of p] by (cases "tasks s' p") auto
  have "owner sel s' = owner sel s" for sel
    by (simp add: owner_def fun_eq_iff bs mm Let_def)
  moreover have "bindings_ok s'"
    unfolding bindings_ok_def assms(4) bs
  proof (intro allI impI conjI)
    fix k :: nat assume k: "k < 6"
    show "pid (the_binding k s) = pid_of_slot k" using inv k by (simp add: mmu_inv_def bindings_ok_def)
    assume "bound_space (the_binding k s) \<noteq> NULL"
    then obtain t where "tasks s (bound_space (the_binding k s)) = Some t"
      "binding (task_mmu t) = Some (get_cpu_index s, k)"
      using inv k by (auto simp: mmu_inv_def bindings_ok_def)
    then show "\<exists>t. tasks s' (bound_space (the_binding k s)) = Some t \<and>
        binding (task_mmu t) = Some (get_cpu_index s, k)"
      using same_spacesD [OF same_spaces_sym [OF ts]] by force
  qed
  ultimately show ?thesis
    using inv tasks_ok_same [OF _ ts] assms(3) by (simp add: mmu_inv_def)
qed

subsection \<open>User contexts are private\<close>

lemma uctx_region:
  assumes "x \<in> region (DATA_PAGE_ADDR (of_nat q) + UCONTEXT_REGS) 292"
  shows "x \<in> data_page q"
proof -
  have "(UCONTEXT_REGS :: u32) = of_nat 4160" by (simp add: UCONTEXT_REGS_def)
  with assms show ?thesis
    using region_offset [of x "DATA_PAGE_ADDR (of_nat q)" 4160 292 8192] by (simp add: data_page_def)
qed

lemma save_other:
  assumes "tasks_ok ts" "uctx_ok ts" "ts p = Some t" "ts p' = Some t'" "p \<noteq> p'" "regs_wf r"
  shows "read_regs (ucontext t' + UCONTEXT_REGS) (write_regs (ucontext t + UCONTEXT_REGS) r m) =
    read_regs (ucontext t' + UCONTEXT_REGS) m"
proof (rule read_regs_cong)
  fix x assume x: "x \<in> region (ucontext t' + UCONTEXT_REGS) 292"
  obtain q where q: "q < 16" "maps_page (dmmu (task_mmu t)) 15 q" "ucontext t = DATA_PAGE_ADDR (of_nat q)"
    using assms(2,3) unfolding uctx_ok_def by blast
  obtain q' where q': "q' < 16" "maps_page (dmmu (task_mmu t')) 15 q'" "ucontext t' = DATA_PAGE_ADDR (of_nat q')"
    using assms(2,4) unfolding uctx_ok_def by blast
  have "q \<noteq> q'"
    using tasks_ok_disjoint(2) [OF assms(1,3,4,5)] q(2) q'(2) unfolding pages_of_def by blast
  then have "x \<notin> region (ucontext t + UCONTEXT_REGS) 292"
    using uctx_region x q q' data_pages_disjoint [OF q(1) q'(1)] by (metis disjoint_iff)
  then show "write_regs (ucontext t + UCONTEXT_REGS) r m x = m x"
    using assms(6) by (rule write_regs_other [rotated 1])
qed

subsection \<open>What the scheduler leaves alone\<close>

definition same_maps :: "(ptr \<rightharpoonup> task) \<Rightarrow> (ptr \<rightharpoonup> task) \<Rightarrow> bool" where
  "same_maps ts ts' \<longleftrightarrow> (\<forall>p.
     map_option (\<lambda>t. (immu (task_mmu t), dmmu (task_mmu t), ucontext t)) (ts' p) =
     map_option (\<lambda>t. (immu (task_mmu t), dmmu (task_mmu t), ucontext t)) (ts p))"

definition sched_frame :: "kernel \<Rightarrow> kernel \<Rightarrow> bool" where
  "sched_frame s s' \<longleftrightarrow> umem s' = umem s \<and> m_pid_gen s' = m_pid_gen s \<and> console s' = console s \<and>
     prid s' = prid s \<and> same_maps (tasks s) (tasks s') \<and>
     park_callback (get_cpu_context s') = park_callback (get_cpu_context s)"

lemma sched_frame_refl [simp]: "sched_frame s s"
  by (simp add: sched_frame_def same_maps_def)

lemma sched_frame_trans [trans]: "sched_frame s s' \<Longrightarrow> sched_frame s' s'' \<Longrightarrow> sched_frame s s''"
  by (simp add: sched_frame_def same_maps_def)

lemma same_maps_dom: "same_maps ts ts' \<Longrightarrow> dom ts' = dom ts"
  unfolding same_maps_def by (metis (no_types, lifting) domIff map_option_is_None subsetI subset_antisym)

lemma same_maps_spaces:
  assumes "same_spaces ts ts'" shows "same_maps ts ts'"
  unfolding same_maps_def
proof
  fix p
  show "map_option (\<lambda>t. (immu (task_mmu t), dmmu (task_mmu t), ucontext t)) (ts' p) =
      map_option (\<lambda>t. (immu (task_mmu t), dmmu (task_mmu t), ucontext t)) (ts p)"
    using same_spacesD [OF assms, of p] same_spaces_None [OF assms, of p] by (cases "ts' p") auto
qed

lemma set_current_task_simps [simp]:
  "tasks (set_current_task p s) = tasks s" "dport (set_current_task p s) = dport s"
  "pidctrl (set_current_task p s) = pidctrl s" "timg (set_current_task p s) = timg s"
  "mem (set_current_task p s) = mem s" "umem (set_current_task p s) = umem s"
  "m_global_run_queue (set_current_task p s) = m_global_run_queue s"
  "m_global_run_queue_size (set_current_task p s) = m_global_run_queue_size s"
  "prid (set_current_task p s) = prid s" "m_pid_gen (set_current_task p s) = m_pid_gen s"
  "console (set_current_task p s) = console s"
  "get_cpu_index (set_current_task p s) = get_cpu_index s"
  "get_cpu_context (set_current_task p s) = (get_cpu_context s)\<lparr>current_task := p\<rparr>"
  "the_binding k (set_current_task p s) = the_binding k s"
  by (simp_all add: set_current_task_def the_binding_def)

lemma the_binding_upd [simp]:
  "the_binding k (s\<lparr>mem := m\<rparr>) = the_binding k s"
  "the_binding k (s\<lparr>timg := t\<rparr>) = the_binding k s"
  "the_binding k (s\<lparr>pidctrl := x\<rparr>) = the_binding k s"
  "the_binding k (s\<lparr>m_global_run_queue := q\<rparr>) = the_binding k s"
  "the_binding k (s\<lparr>m_global_run_queue_size := n\<rparr>) = the_binding k s"
  by (simp_all add: the_binding_def)

lemma saved_regs_same:
  assumes "same_spaces (tasks s) (tasks s')" "mem s' = mem s"
  shows "saved_regs s' = saved_regs s"
proof
  fix p
  show "saved_regs s' p = saved_regs s p"
    using same_spacesD [OF assms(1), of p] same_spaces_None [OF assms(1), of p]
    by (cases "tasks s' p") (auto simp: saved_regs_def assms(2))
qed

lemma status_ok_links:
  assumes "status_ok c xs ts" "same_but_links ts ts'" shows "status_ok c xs ts'"
  unfolding status_ok_def
proof (intro allI impI)
  fix p t' assume "ts' p = Some t'"
  then obtain t where "ts p = Some t" "status t' = status t"
    using same_but_linksD [OF assms(2)] by metis
  with assms(1) show "(status t' = TASK_STATUS_RUNNABLE \<longleftrightarrow> p \<in> set xs) \<and>
      (status t' = TASK_STATUS_RUNNING \<longleftrightarrow> p = c)"
    by (simp add: status_ok_def)
qed

subsection \<open>Saving the running task\<close>

lemma saved_after_save:
  assumes ok: "tasks_ok (tasks s)" "uctx_ok (tasks s)" and t: "tasks s c = Some t" and wf: "regs_wf r"
    and ts: "same_spaces (tasks s) (tasks s')"
    and m: "mem s' = write_regs (ucontext t + UCONTEXT_REGS) r (mem s)"
  shows "saved_regs s' = (saved_regs s)(c \<mapsto> r)"
proof
  fix p
  show "saved_regs s' p = ((saved_regs s)(c \<mapsto> r)) p"
  proof (cases "tasks s' p")
    case None
    then show ?thesis
      using same_spaces_None [OF ts, of p] t by (auto simp: saved_regs_def)
  next
    case (Some u)
    then obtain u0 where u0: "tasks s p = Some u0" "ucontext u = ucontext u0"
      using same_spacesD [OF ts] by blast
    show ?thesis
    proof (cases "p = c")
      case True
      then show ?thesis using Some u0 t wf by (simp add: saved_regs_def m read_write_regs)
    next
      case False
      then show ?thesis
        using Some u0 save_other [OF ok t u0(1) _ wf] by (simp add: saved_regs_def m)
    qed
  qed
qed

text \<open>A handler writes to memory only where the running task's registers are saved.\<close>

definition kernel_writes :: "kernel \<Rightarrow> kernel \<Rightarrow> bool" where
  "kernel_writes s s' \<longleftrightarrow> (\<forall>t x. tasks s (get_current_task s) = Some t \<longrightarrow>
     x \<notin> region (ucontext t + UCONTEXT_REGS) 292 \<longrightarrow> mem s' x = mem s x)"

lemma kernel_writes_mem: "kernel_writes s s' \<Longrightarrow> mem s'' = mem s' \<Longrightarrow> kernel_writes s s''"
  by (simp add: kernel_writes_def)

lemma save_current_ok:
  assumes inv: "sched_inv s xs" and c: "get_current_task s = c" "c \<noteq> NULL" and wf: "regs_wf r"
  obtains s1 where "save_current_task r park s = Inr s1"
    "sched_inv s1 (if park then xs else xs @ [c])" "get_current_task s1 = NULL"
    "saved_regs s1 = (saved_regs s)(c \<mapsto> r)" "sched_frame s s1" "timg s1 = timg s"
    "kernel_writes s s1"
proof -
  let ?v = "if park then TASK_STATUS_WAITING else TASK_STATUS_RUNNABLE"
  from inv have mi: "mmu_inv s" and tok: "tasks_ok (tasks s)" and uok: "uctx_ok (tasks s)"
    and rq: "run_queue s xs" and sok: "status_ok c xs (tasks s)" and dom: "c \<in> dom (tasks s)"
    using c by (auto simp: sched_inv_def mmu_inv_def)
  obtain t where t: "tasks s c = Some t" using dom by blast
  have run: "status t = TASK_STATUS_RUNNING" and cx: "c \<notin> set xs"
    using sok t unfolding status_ok_def by fastforce+
  let ?m = "write_regs (ucontext t + UCONTEXT_REGS) r (mem s)"
  let ?ts = "(tasks s)(c \<mapsto> t\<lparr>status := ?v\<rparr>)"
  let ?sa = "(set_current_task NULL s)\<lparr>mem := ?m\<rparr>"
  let ?sb = "?sa\<lparr>tasks := ?ts\<rparr>"
  have cur: "current_task (get_cpu_context s) = c" using c by (simp add: get_current_task_def)
  have cas: "cas_task_state c TASK_STATUS_RUNNING ?v ?sa = Inr ?sb"
    using t run by (subst cas_task_state_ok [where t = t]) auto
  have sp: "same_spaces (tasks s) ?ts" using t by (rule same_spaces_status)
  have q: "queue_rep (m_global_run_queue s, ?ts) xs"
    by (rule queue_rep_frame [of _ "tasks s"]) (use rq t in \<open>auto simp: run_queue_def\<close>)
  have nn: "p \<noteq> NULL" if "tasks s p = Some u" for p u using tasks_okD(4) [OF tok that] .
  have so: "status_ok NULL (if park then xs else xs @ [c]) ?ts"
    unfolding status_ok_def
  proof (intro allI impI)
    fix p u assume u: "?ts p = Some u"
    show "(status u = TASK_STATUS_RUNNABLE \<longleftrightarrow> p \<in> set (if park then xs else xs @ [c])) \<and>
        (status u = TASK_STATUS_RUNNING \<longleftrightarrow> p = NULL)"
    proof (cases "p = c")
      case True
      then show ?thesis using u cx c by auto
    next
      case False
      then show ?thesis using u sok nn [of p u] by (auto simp: status_ok_def)
    qed
  qed
  show ?thesis
  proof (cases park)
    case True
    show ?thesis
    proof (rule that)
      show "save_current_task r park s = Inr ?sb"
        using cas c t cur True by (simp add: save_current_task_def save_task_context_def)
      have "mmu_inv ?sb" by (rule mmu_inv_same [OF mi]) (simp_all add: sp)
      then show "sched_inv ?sb (if park then xs else xs @ [c])"
        using so q rq uctx_ok_same [OF uok sp] True
        by (simp add: sched_inv_def run_queue_def get_current_task_def)
      show "saved_regs ?sb = (saved_regs s)(c \<mapsto> r)"
        by (rule saved_after_save [OF tok uok t wf]) (simp_all add: sp)
      show "sched_frame s ?sb" using same_maps_spaces [OF sp] by (simp add: sched_frame_def)
      show "kernel_writes s ?sb" using c t wf by (simp add: kernel_writes_def write_regs_other)
    qed (simp_all add: get_current_task_def)
  next
    case False
    have rb: "run_queue ?sb xs" "run_queue_elem ?sb c"
      using q rq c by (auto simp: run_queue_def run_queue_elem_def queue_elem_def)
    obtain q' ts' where put: "global_run_queue_put c ?sb = Inr (?sb\<lparr>m_global_run_queue := q',
        tasks := ts', m_global_run_queue_size := m_global_run_queue_size ?sb + 1\<rparr>)"
      and rep: "queue_rep (q', ts') (xs @ [c])" and lk0: "same_but_links (tasks ?sb) ts'"
      by (rule global_put_rep [OF rb cx])
    have lk: "same_but_links ?ts ts'" using lk0 by simp
    let ?sc = "?sb\<lparr>m_global_run_queue := q', tasks := ts',
        m_global_run_queue_size := m_global_run_queue_size ?sb + 1\<rparr>"
    have sp': "same_spaces (tasks s) ts'" using sp same_spaces_links [OF lk] by (rule same_spaces_trans)
    show ?thesis
    proof (rule that)
      show "save_current_task r park s = Inr ?sc"
        using cas c t cur False put by (simp add: save_current_task_def save_task_context_def)
      have "mmu_inv ?sc" by (rule mmu_inv_same [OF mi]) (simp_all add: sp')
      then show "sched_inv ?sc (if park then xs else xs @ [c])"
        using status_ok_links [OF so lk] rep rq uctx_ok_same [OF uok sp'] False
        by (simp add: sched_inv_def run_queue_def get_current_task_def)
      show "saved_regs ?sc = (saved_regs s)(c \<mapsto> r)"
        by (rule saved_after_save [OF tok uok t wf]) (simp_all add: sp')
      show "sched_frame s ?sc" using same_maps_spaces [OF sp'] by (simp add: sched_frame_def)
      show "kernel_writes s ?sc" using c t wf by (simp add: kernel_writes_def write_regs_other)
    qed (simp_all add: get_current_task_def)
  qed
qed

subsection \<open>Finding a task and running it\<close>

lemma find_runnable_spins:
  assumes "global_run_queue_get s = Inr (NULL, s)"
  shows "find_runnable s = None"
proof -
  have "find_runnable s0 = Some r \<Longrightarrow> global_run_queue_get s0 \<noteq> Inr (NULL, s0)" for s0 r
  proof (erule find_runnable.raw_induct [rotated 1])
    fix f s1 y
    assume "\<And>s y. f s = Some y \<Longrightarrow> global_run_queue_get s \<noteq> Inr (NULL, s)"
      and "(case global_run_queue_get s1 of Inl e \<Rightarrow> Some (Inl e)
        | Inr (task, s2) \<Rightarrow> if task \<noteq> NULL then Some (Inr (task, s2)) else f s2) = Some y"
    then show "global_run_queue_get s1 \<noteq> Inr (NULL, s1)" by auto
  qed
  with assms show ?thesis by (cases "find_runnable s") auto
qed

lemma find_runnable_first:
  assumes "global_run_queue_get s = Inr (x, s1)" "x \<noteq> NULL"
  shows "find_runnable s = Some (Inr (x, s1))"
  by (subst find_runnable.simps) (simp add: assms)

lemma schedule_spins: "run_queue s [] \<Longrightarrow> schedule s = Inl Spin"
  by (simp add: schedule_def find_runnable_spins grq.get_empty)

text \<open>The address space the core switches to when the handler returns: the new PID's.\<close>

definition switches_to :: "kernel \<Rightarrow> ptr \<Rightarrow> bool" where
  "switches_to s p \<longleftrightarrow> (\<exists>k < 6. PIDCTRL_PID_NEW_REG (pidctrl s) = pid_of_slot k \<and>
     bound_space (the_binding k s) = p)"

lemma bindings_tasks:
  assumes "tasks s' = (\<lambda>p. map_option (\<lambda>t. set_binding (b p t) t) (tasks s p))"
  shows "map_option sched_link (tasks s' p) = map_option sched_link (tasks s p)"
    and "same_maps (tasks s) (tasks s')"
    and "uctx_ok (tasks s) \<Longrightarrow> uctx_ok (tasks s')"
    and "status_ok c xs (tasks s) \<Longrightarrow> status_ok c xs (tasks s')"
    and "dom (tasks s') = dom (tasks s)"
    and "mem s' = mem s \<Longrightarrow> saved_regs s' = saved_regs s"
proof -
  show "mem s' = mem s \<Longrightarrow> saved_regs s' = saved_regs s"
    by (rule ext) (simp add: saved_regs_def assms option.map_comp comp_def)
qed (use assms in \<open>auto simp: same_maps_def uctx_ok_def status_ok_def option.map_comp comp_def dom_def\<close>)

lemma active_space_pidctrl [simp]: "active_space (s\<lparr>pidctrl := x\<rparr>) = active_space s"
  by (simp add: active_space_def split: option.split prod.split)

lemma unat_pid_of_slot_u32: "k < 6 \<Longrightarrow> unat (pid_of_slot k :: u32) = k + 2"
  unfolding pid_of_slot_def unat_of_nat by simp

lemma pid_prepare_ok:
  assumes inv: "mmu_inv s" and act: "active_space s = Some p"
  obtains k where "k < 6" "bound_space (the_binding k s) = p"
    "pid_prepare s = Inr (s\<lparr>pidctrl := (pidctrl s)\<lparr>PIDCTRL_PID_NEW_REG := pid_of_slot k\<rparr>\<rparr>)"
proof -
  obtain k where k: "primary_binding (get_cpu_context s) = Some (get_cpu_index s, k)" "k < 6"
    and p: "bound_space (the_binding k s) = p"
    using act by (auto simp: active_space_def split: option.splits prod.splits if_splits)
  have "pid (the_binding k s) = pid_of_slot k" using inv k(2) by (simp add: mmu_inv_def bindings_ok_def)
  moreover have "ucast (pid_of_slot k :: u8) = (pid_of_slot k :: u32)"
    using k(2) by (simp add: word_unat_eq_iff unsigned_ucast_eq take_bit_eq_mod unat_pid_of_slot_u32)
  ultimately show ?thesis using k p that by (simp add: pid_prepare_def)
qed

lemma schedule_ok:
  assumes inv: "sched_inv s (x # xs)" and c: "get_current_task s = NULL"
  obtains s' r where "schedule s = Inr (r, s')" "saved_regs s x = Some r"
    "sched_inv s' xs" "get_current_task s' = x" "saved_regs s' = saved_regs s"
    "active_space s' = Some x" "switches_to s' x" "mem s' = mem s"
    "timg s' = wdt_enable (wdt_feed (timg s))" "sched_frame s s'"
proof -
  from inv have mi: "mmu_inv s" and tok: "tasks_ok (tasks s)" and uok: "uctx_ok (tasks s)"
    and rq: "run_queue s (x # xs)" and sok: "status_ok NULL (x # xs) (tasks s)"
    using c by (auto simp: sched_inv_def mmu_inv_def)
  obtain q where get: "global_run_queue_get s = Inr (x, s\<lparr>m_global_run_queue := q,
      m_global_run_queue_size := of_nat (length xs)\<rparr>)" and q: "queue_rep (q, tasks s) xs"
    by (rule global_get_rep [OF rq])
  have x: "x \<noteq> NULL" and xd: "x \<in> dom (tasks s)" and xx: "x \<notin> set xs"
    using grq.rep_elem [OF rq, of x] grq.rep_distinct [OF rq]
    by (auto simp: run_queue_elem_def queue_elem_def)
  obtain t where t: "tasks s x = Some t" using xd by blast
  have st: "status t = TASK_STATUS_RUNNABLE" using sok t by (simp add: status_ok_def)
  let ?s1 = "s\<lparr>m_global_run_queue := q, m_global_run_queue_size := of_nat (length xs)\<rparr>"
  let ?ts = "(tasks s)(x \<mapsto> t\<lparr>status := TASK_STATUS_RUNNING\<rparr>)"
  let ?s2 = "(set_current_task x ?s1)\<lparr>tasks := ?ts\<rparr>"
  let ?s3 = "scheduler_set_deadline ?s2"
  have cas: "cas_task_state x TASK_STATUS_RUNNABLE TASK_STATUS_RUNNING (set_current_task x ?s1) = Inr ?s2"
    using t st by (subst cas_task_state_ok [where t = t]) auto
  have sp: "same_spaces (tasks s) ?ts" using t by (rule same_spaces_status)
  have mi3: "mmu_inv ?s3" by (rule mmu_inv_same [OF mi]) (simp_all add: sp scheduler_set_deadline_def)
  have so: "status_ok x xs ?ts"
    unfolding status_ok_def
  proof (intro allI impI)
    fix p u assume u: "?ts p = Some u"
    then show "(status u = TASK_STATUS_RUNNABLE \<longleftrightarrow> p \<in> set xs) \<and> (status u = TASK_STATUS_RUNNING \<longleftrightarrow> p = x)"
      using sok xx tasks_okD(4) [OF tok, of p] by (cases "p = x") (auto simp: status_ok_def)
  qed
  have t3: "tasks ?s3 x = Some (t\<lparr>status := TASK_STATUS_RUNNING\<rparr>)" by (simp add: scheduler_set_deadline_def)
  obtain s4 where act: "mmu_activate x ?s3 = Inr s4" and mi4: "mmu_inv s4"
    and as4: "active_space s4 = Some x" and sb: "same_but_mmu ?s3 s4"
    using mmu_activate_inv [OF mi3 t3] by blast
  from sb obtain b where ts4: "tasks s4 = (\<lambda>p. map_option (\<lambda>t. set_binding (b p t) t) (tasks ?s3 p))"
    by (auto simp: same_but_mmu_def)
  note bt = bindings_tasks [OF ts4]
  obtain k where k: "k < 6" "bound_space (the_binding k s4) = x"
    and prep: "pid_prepare s4 = Inr (s4\<lparr>pidctrl := (pidctrl s4)\<lparr>PIDCTRL_PID_NEW_REG := pid_of_slot k\<rparr>\<rparr>)"
    by (rule pid_prepare_ok [OF mi4 as4])
  let ?s' = "s4\<lparr>pidctrl := (pidctrl s4)\<lparr>PIDCTRL_PID_NEW_REG := pid_of_slot k\<rparr>\<rparr>"
  let ?r = "read_regs (ucontext t + UCONTEXT_REGS) (mem s)"
  have m4: "mem s4 = mem s" "m_global_run_queue s4 = q" "m_global_run_queue_size s4 = of_nat (length xs)"
    "umem s4 = umem s" "console s4 = console s" "m_pid_gen s4 = m_pid_gen s" "prid s4 = prid s"
    "timg s4 = wdt_enable (wdt_feed (timg s))" "current_task (get_cpu_context s4) = x"
    "park_callback (get_cpu_context s4) = park_callback (get_cpu_context s)"
    using sb by (simp_all add: same_but_mmu_def scheduler_set_deadline_def)
  have sv: "saved_regs ?s3 = saved_regs s"
    by (rule saved_regs_same) (simp_all add: sp scheduler_set_deadline_def)
  show ?thesis
  proof (rule that)
    show "schedule s = Inr (?r, ?s')"
      using find_runnable_first [OF get x] cas act prep t3
      by (simp add: schedule_def execute_def restore_task_context_def Let_def)
        (simp add: scheduler_set_deadline_def)
    show "saved_regs s x = Some ?r" using t by (simp add: saved_regs_def)
    have "mmu_inv ?s'" by (rule mmu_inv_same [OF mi4]) simp_all
    moreover have "queue_rep (q, tasks s4) xs"
    proof (rule queue_rep_frame [OF q])
      fix p assume "p \<in> set xs"
      show "map_option sched_link (tasks s4 p) = map_option sched_link (tasks s p)"
        using bt(1) [of p] t by (simp add: scheduler_set_deadline_def)
    qed
    moreover have "uctx_ok (tasks s4)"
      using bt(3) uctx_ok_same [OF uok sp] by (simp add: scheduler_set_deadline_def)
    moreover have "status_ok x xs (tasks s4)"
      using bt(4) [of x xs] so by (simp add: scheduler_set_deadline_def)
    moreover have "x \<in> dom (tasks s4)" using bt(5) t3 by blast
    ultimately show "sched_inv ?s' xs"
      using m4 by (simp add: sched_inv_def run_queue_def get_current_task_def)
    show "get_current_task ?s' = x" using m4 by (simp add: get_current_task_def)
    show "saved_regs ?s' = saved_regs s"
    proof -
      have "saved_regs ?s' = saved_regs s4" by (rule ext) (simp add: saved_regs_def)
      also have "\<dots> = saved_regs ?s3" by (rule bt(6)) (simp add: m4 scheduler_set_deadline_def)
      finally show ?thesis using sv by simp
    qed
    show "active_space ?s' = Some x" using as4 by simp
    show "switches_to ?s' x" using k by (auto simp: switches_to_def)
    show "sched_frame s ?s'"
      using m4 bt(2) same_maps_spaces [OF sp]
      by (simp add: sched_frame_def same_maps_def scheduler_set_deadline_def)
  qed (use m4 in simp_all)
qed

subsection \<open>The handlers\<close>

lemma on_schedule_ok:
  assumes inv: "sched_inv s xs" and c: "get_current_task s = c" "c \<noteq> NULL" and wf: "regs_wf r"
  obtains x ys r' s' where "xs @ [c] = x # ys" "scheduler_on_schedule r s = Inr (r', s')"
    "((saved_regs s)(c \<mapsto> r)) x = Some r'" "sched_inv s' ys" "get_current_task s' = x"
    "saved_regs s' = (saved_regs s)(c \<mapsto> r)" "switches_to s' x" "active_space s' = Some x"
    "timg s' = wdt_enable (wdt_feed (timg s))" "sched_frame s s'" "kernel_writes s s'"
proof -
  obtain s1 where s1: "save_current_task r False s = Inr s1" "sched_inv s1 (xs @ [c])"
    "get_current_task s1 = NULL" "saved_regs s1 = (saved_regs s)(c \<mapsto> r)" "sched_frame s s1" "timg s1 = timg s"
    "kernel_writes s s1"
    by (rule save_current_ok [OF inv c wf, where park = False]) simp
  obtain x ys where q: "xs @ [c] = x # ys" by (cases "xs @ [c]") auto
  obtain s' r' where s': "schedule s1 = Inr (r', s')" "saved_regs s1 x = Some r'"
    "sched_inv s' ys" "get_current_task s' = x" "saved_regs s' = saved_regs s1"
    "active_space s' = Some x" "switches_to s' x" "mem s' = mem s1"
    "timg s' = wdt_enable (wdt_feed (timg s1))" "sched_frame s1 s'"
    by (rule schedule_ok [OF _ s1(3)]) (use s1(2) q in auto)
  show ?thesis
    by (rule that [OF q, where r' = r' and s' = s'])
      (use s1 s' sched_frame_trans kernel_writes_mem in \<open>auto simp: scheduler_on_schedule_def\<close>)
qed

lemma on_park_ok:
  assumes inv: "sched_inv s (x # xs)" and c: "get_current_task s = c" "c \<noteq> NULL" and wf: "regs_wf r"
    and cb: "park_callback (get_cpu_context s) = NULL"
  obtains r' s' where "scheduler_on_park pf r s = Inr (r', s')"
    "((saved_regs s)(c \<mapsto> r)) x = Some r'" "sched_inv s' xs" "get_current_task s' = x"
    "saved_regs s' = (saved_regs s)(c \<mapsto> r)" "switches_to s' x" "active_space s' = Some x"
    "wdt_enabled (timg s')" "sched_frame s s'" "kernel_writes s s'"
proof -
  obtain s1 where s1: "save_current_task r True s = Inr s1" "sched_inv s1 (x # xs)"
    "get_current_task s1 = NULL" "saved_regs s1 = (saved_regs s)(c \<mapsto> r)" "sched_frame s s1"
    "kernel_writes s s1"
    by (rule save_current_ok [OF inv c wf, where park = True]) simp
  have cb1: "park_callback (get_cpu_context s1) = NULL" using s1(5) cb by (simp add: sched_frame_def)
  let ?s2 = "scheduler_cancel_deadline s1"
  have mi: "mmu_inv ?s2"
    by (rule mmu_inv_same [of s1]) (use s1(2) in \<open>simp_all add: sched_inv_def scheduler_cancel_deadline_def\<close>)
  have i2: "sched_inv ?s2 (x # xs)" and n2: "get_current_task ?s2 = NULL"
    using s1(2,3) mi by (simp_all add: sched_inv_def scheduler_cancel_deadline_def run_queue_def get_current_task_def)
  have v2: "saved_regs ?s2 = saved_regs s1" by (rule ext) (simp add: saved_regs_def scheduler_cancel_deadline_def)
  have f2: "sched_frame s ?s2" using s1(5) by (simp add: sched_frame_def scheduler_cancel_deadline_def)
  obtain s' r' where s': "schedule ?s2 = Inr (r', s')" "saved_regs ?s2 x = Some r'"
    "sched_inv s' xs" "get_current_task s' = x" "saved_regs s' = saved_regs ?s2"
    "active_space s' = Some x" "switches_to s' x" "mem s' = mem ?s2"
    "timg s' = wdt_enable (wdt_feed (timg ?s2))" "sched_frame ?s2 s'"
    by (rule schedule_ok [OF i2 n2])
  have "mem s' = mem s1" using s'(8) by (simp add: scheduler_cancel_deadline_def)
  then have kw: "kernel_writes s s'" by (rule kernel_writes_mem [OF s1(6)])
  show ?thesis
    by (rule that [where r' = r' and s' = s'])
      (use s1 s' kw cb1 v2 sched_frame_trans [OF f2] in \<open>auto simp: scheduler_on_park_def run_park_callback_def\<close>)
qed

lemma on_park_last:
  assumes inv: "sched_inv s []" and c: "get_current_task s = c" "c \<noteq> NULL" and wf: "regs_wf r"
    and cb: "park_callback (get_cpu_context s) = NULL"
  shows "scheduler_on_park pf r s = Inl Spin"
proof -
  obtain s1 where s1: "save_current_task r True s = Inr s1" "sched_inv s1 []" "sched_frame s s1"
    by (rule save_current_ok [OF inv c wf, where park = True]) simp
  have cb1: "park_callback (get_cpu_context s1) = NULL" using s1(3) cb by (simp add: sched_frame_def)
  have "run_queue (scheduler_cancel_deadline s1) []"
    using s1(2) by (simp add: sched_inv_def run_queue_def scheduler_cancel_deadline_def)
  from schedule_spins [OF this] s1 cb1 show ?thesis by (simp add: scheduler_on_park_def run_park_callback_def)
qed

text \<open>A task that drops stops the kernel: releasing a task is not implemented.\<close>

lemma on_drop_stops:
  assumes inv: "sched_inv s xs" and c: "get_current_task s = c" "c \<noteq> NULL"
  shows "scheduler_on_drop r s = Inl (Assert_failed ''TODO: release_task'')"
proof -
  obtain t where t: "tasks s c = Some t" using inv c by (auto simp: sched_inv_def)
  then have "status t = TASK_STATUS_RUNNING" using inv c by (simp add: sched_inv_def status_ok_def)
  then have "cas_task_state c TASK_STATUS_RUNNING TASK_STATUS_DEAD (set_current_task NULL s) =
      Inr ((set_current_task NULL s)\<lparr>tasks := (tasks s)(c \<mapsto> t\<lparr>status := TASK_STATUS_DEAD\<rparr>)\<rparr>)"
    using t by (subst cas_task_state_ok [where t = t]) auto
  then show ?thesis using c by (simp add: scheduler_on_drop_def release_task_def get_current_task_def)
qed

text \<open>The first task is started by dropping with no task running.\<close>

lemma on_drop_starts:
  assumes inv: "sched_inv s (x # xs)" and c: "get_current_task s = NULL"
  obtains r' s' where "scheduler_on_drop r s = Inr (r', s')" "saved_regs s x = Some r'"
    "sched_inv s' xs" "get_current_task s' = x" "saved_regs s' = saved_regs s" "switches_to s' x"
    "wdt_enabled (timg s')" "sched_frame s s'" "mem s' = mem s"
proof -
  let ?s2 = "scheduler_cancel_deadline (set_current_task NULL s)"
  have mi: "mmu_inv ?s2"
    by (rule mmu_inv_same [of s]) (use inv in \<open>simp_all add: sched_inv_def scheduler_cancel_deadline_def\<close>)
  have i2: "sched_inv ?s2 (x # xs)" and n2: "get_current_task ?s2 = NULL"
    using inv c mi by (simp_all add: sched_inv_def scheduler_cancel_deadline_def run_queue_def get_current_task_def)
  have v2: "saved_regs ?s2 = saved_regs s" by (rule ext) (simp add: saved_regs_def scheduler_cancel_deadline_def)
  have f2: "sched_frame s ?s2" by (simp add: sched_frame_def scheduler_cancel_deadline_def same_maps_def)
  obtain s' r' where s': "schedule ?s2 = Inr (r', s')" "saved_regs ?s2 x = Some r'"
    "sched_inv s' xs" "get_current_task s' = x" "saved_regs s' = saved_regs ?s2"
    "active_space s' = Some x" "switches_to s' x" "mem s' = mem ?s2"
    "timg s' = wdt_enable (wdt_feed (timg ?s2))" "sched_frame ?s2 s'"
    by (rule schedule_ok [OF i2 n2])
  show ?thesis
    by (rule that [where r' = r' and s' = s'])
      (use c s' v2 sched_frame_trans [OF f2] in
        \<open>auto simp: scheduler_on_drop_def get_current_task_def Let_def scheduler_cancel_deadline_def\<close>)
qed

end
