(* ===== verification/Task_Create.thy ===== *)
theory Task_Create
  imports Sched_Refinement Printf_Text
begin

section \<open>Creating a task\<close>

text \<open>
  What \<^verbatim>\<open>create_task\<close> establishes: a fresh task, waiting, with a user context in a data page
  nobody else maps, whose saved registers start the vDSO entry on the task's own stack; and
  that it keeps the kernel's invariant, which here also says that mapped pages are not free
  (\<open>pages_inv\<close>). The heap's contract, for what the kernel asks of it, is \<open>heap_ok\<close>.
\<close>

subsection \<open>Words in memory\<close>

lemma load_words_store32:
  assumes "i < n" "4 * n \<le> 4294967296"
  shows "load_words (store32 (a + 4 * of_nat i) w m) a n = (load_words m a n)[i := w]"
proof (rule nth_equalityI)
  fix j assume "j < length (load_words (store32 (a + 4 * of_nat i) w m) a n)"
  then have j: "j < n" by (simp add: load_words_def)
  show "load_words (store32 (a + 4 * of_nat i) w m) a n ! j = (load_words m a n)[i := w] ! j"
  proof (cases "j = i")
    case True
    then show ?thesis using j by (simp add: load_words_def load_store32)
  next
    case False
    have "load32 (store32 (a + 4 * of_nat i) w m) (a + 4 * of_nat j) = load32 m (a + 4 * of_nat j)"
    proof (rule load32_cong)
      fix x assume x: "x \<in> region (a + 4 * of_nat j) 4"
      have "x \<notin> region (a + 4 * of_nat i) 4"
      proof
        assume y: "x \<in> region (a + 4 * of_nat i) 4"
        have off: "unat (x - a) div 4 = k" if "x \<in> region (a + 4 * of_nat k) 4" "k < n" for k
        proof -
          let ?d = "unat (x - (a + 4 * of_nat k))"
          have d: "?d < 4" using that(1) by (simp add: region_def)
          have "x - a = of_nat (4 * k + ?d)" by simp
          moreover have "4 * k + ?d < 4294967296" using d that(2) assms(2) by simp
          ultimately have "unat (x - a) = 4 * k + ?d" by (simp del: of_nat_add of_nat_mult)
          then show ?thesis using d by simp
        qed
        show False using off [OF x j] off [OF y assms(1)] False by simp
      qed
      then show "store32 (a + 4 * of_nat i) w m x = m x" by (rule store32_other)
    qed
    then show ?thesis using False j by (simp add: load_words_def)
  qed
qed (simp add: load_words_def)

lemma load_words_zero:
  assumes "\<And>x. x \<in> region a (4 * n) \<Longrightarrow> m x = 0" "4 * n \<le> 4294967296"
  shows "load_words m a n = replicate n 0"
proof -
  have "load_words m a n = load_words (\<lambda>_. 0) a n"
    by (rule load_words_cong) (use assms in auto)
  also have "load32 (\<lambda>_. 0) x = 0" for x
    by (simp add: load32_def load_bytes_def word_of_bytes_def)
  then have "load_words (\<lambda>_. 0) a n = replicate n 0"
    by (simp add: load_words_def map_replicate_const)
  finally show ?thesis .
qed

subsection \<open>The initial user context\<close>

definition initial_regs :: "platform \<Rightarrow> u32 \<Rightarrow> task_regs" where
  "initial_regs pf entry = \<lparr>ar = (replicate 64 0)[1 := 0x3FFDF000, 2 := entry], sar = 0, lbeg = 0, lend = 0,
     lcount = 0, pc = task_trampoline pf, ps = 0x40020, windowbase = 0, windowstart = 0,
     windowmask = 0, windowsize = 0\<rparr>"

lemma memset_zero: "x \<in> region a n \<Longrightarrow> n \<le> 4294967296 \<Longrightarrow> memset a 0 n m x = 0"
  by (simp add: memset_def store_bytes_at region_def)

lemma memset_other: "x \<notin> region a n \<Longrightarrow> n \<le> 4294967296 \<Longrightarrow> memset a v n m x = m x"
  by (simp add: memset_def store_bytes_at region_def)

lemma read_init_ucontext: "read_regs (uctx + UCONTEXT_REGS) (init_ucontext pf uctx entry m) = initial_regs pf entry"
proof -
  let ?a = "uctx + UCONTEXT_REGS"
  let ?m1 = "memset uctx 0 UCONTEXT_SIZE m"
  have z: "load_words ?m1 ?a 73 = replicate 73 0"
  proof (rule load_words_zero)
    fix x assume x: "x \<in> region ?a (4 * 73)"
    have "x \<in> region uctx UCONTEXT_SIZE"
      by (rule region_offset [of _ _ 4160 292])
        (use x in \<open>simp_all add: UCONTEXT_REGS_def UCONTEXT_SIZE_def STACK_SIZE_def TASK_NAME_SIZE_def TASK_REGS_SIZE_def\<close>)
    then show "?m1 x = 0"
      by (rule memset_zero) (simp add: UCONTEXT_SIZE_def STACK_SIZE_def TASK_NAME_SIZE_def TASK_REGS_SIZE_def)
  qed simp
  have st: "load_words (store32 (?a + 4 * of_nat i) w m) ?a 73 = (load_words m ?a 73)[i := w]"
    if "i < 73" for i w m by (rule load_words_store32) (use that in simp_all)
  have "load_words (init_ucontext pf uctx entry m) ?a 73 =
      (replicate 73 0)[69 := ps_bits 0 False True True, 68 := task_trampoline pf, 2 := entry,
        1 := DATA_PAGE_ADDR (of_nat UCTX_PAGE_INDEX) + of_nat STACK_SIZE]"
    using st [of 1] st [of 2] st [of 68] st [of 69] z
    by (simp add: init_ucontext_def Let_def TASK_REGS_PS_def TASK_REGS_PC_def)
  then show ?thesis
    by (simp add: read_regs_def words_regs_def initial_regs_def ps_bits_def UCTX_PAGE_INDEX_def
      DATA_PAGE_ADDR_def USER_PAGE_SIZE_def USER_DATA_BASE_def STACK_SIZE_def take_update_swap list_update_beyond
      list_update_swap [of 2 "Suc 0"])
qed

lemma init_ucontext_other:
  assumes "x \<notin> data_page q"
  shows "init_ucontext pf (DATA_PAGE_ADDR (of_nat q)) entry m x = m x"
proof -
  let ?u = "DATA_PAGE_ADDR (of_nat q)"
  have sub: "x \<notin> region (?u + of_nat i) n" if "i + n \<le> 8192" for i n
    using region_offset [of x ?u i n 8192] that assms by (auto simp: data_page_def)
  have r: "x \<notin> region (?u + UCONTEXT_REGS + d) 4" if "d = of_nat i" "i < 4000" for d i
    using sub [of "4160 + i" 4] that by (simp add: UCONTEXT_REGS_def add.assoc)
  have "x \<notin> region ?u UCONTEXT_SIZE"
    using sub [of 0 UCONTEXT_SIZE]
    by (simp add: UCONTEXT_SIZE_def STACK_SIZE_def TASK_NAME_SIZE_def TASK_REGS_SIZE_def)
  moreover have "x \<notin> region (?u + UCONTEXT_REGS + TASK_REGS_PS) 4"
    by (rule r [of _ 276]) (simp_all add: TASK_REGS_PS_def)
  moreover have "x \<notin> region (?u + UCONTEXT_REGS + TASK_REGS_PC) 4"
    by (rule r [of _ 272]) (simp_all add: TASK_REGS_PC_def)
  moreover have "x \<notin> region (?u + UCONTEXT_REGS + 4 * 2) 4" by (rule r [of _ 8]) simp_all
  moreover have "x \<notin> region (?u + UCONTEXT_REGS + 4 * 1) 4" by (rule r [of _ 4]) simp_all
  ultimately show ?thesis
    by (simp add: init_ucontext_def Let_def store32_other memset_other UCONTEXT_SIZE_def STACK_SIZE_def
      TASK_NAME_SIZE_def TASK_REGS_SIZE_def)
qed

subsection \<open>Page ownership and the heap\<close>

definition user_memory :: "u32 set" where
  "user_memory = (\<Union>q \<in> {..<16}. data_page q \<union> code_page q)"

text \<open>A mapped page is not free; only the first fifteen code pages are ever free.\<close>

definition pages_inv :: "kernel \<Rightarrow> bool" where
  "pages_inv s \<longleftrightarrow> code_free (umem s) \<subseteq> {..<15} \<and>
     (\<forall>p t. tasks s p = Some t \<longrightarrow>
        pages_of (immu (task_mmu t)) \<inter> code_free (umem s) = {} \<and>
        pages_of (dmmu (task_mmu t)) \<inter> data_free (umem s) = {})"

definition kernel_inv :: "kernel \<Rightarrow> ptr list \<Rightarrow> bool" where
  "kernel_inv s xs \<longleftrightarrow> sched_inv s xs \<and> pages_inv s"

text \<open>
  The allocator hands out an address of its own that is not in use, and neither it nor the
  deallocator writes to user pages.
\<close>

definition heap_ok :: "platform \<Rightarrow> kernel \<Rightarrow> bool" where
  "heap_ok pf s \<longleftrightarrow>
     (\<forall>n. fst (umm_malloc pf n (mem s)) \<noteq> NULL \<longrightarrow> fst (umm_malloc pf n (mem s)) \<notin> dom (tasks s)) \<and>
     (\<forall>n x. x \<in> user_memory \<longrightarrow> snd (umm_malloc pf n (mem s)) x = mem s x) \<and>
     (\<forall>p m x. x \<in> user_memory \<longrightarrow> umm_free pf p m x = m x)"

lemma data_page_user: "q < 16 \<Longrightarrow> data_page q \<subseteq> user_memory"
  by (auto simp: user_memory_def)

text \<open>The address space a new task starts with: its user context page and nothing else.\<close>

definition uctx_space :: "nat \<Rightarrow> mmu" where
  "uctx_space q = zero_mmu\<lparr>dmmu := \<lparr>entries = (\<lambda>_. zero_entry)(15 := PAGE_ENTRY (of_nat q))\<rparr>\<rparr>"

lemma maps_uctx_space:
  "maps_page (immu (uctx_space q)) v r \<longleftrightarrow> False"
  "q < 256 \<Longrightarrow> maps_page (dmmu (uctx_space q)) v r \<longleftrightarrow> v = 15 \<and> r = q"
  by (auto simp: maps_page_def uctx_space_def zero_mmu_def zero_entry_def PAGE_ENTRY_def unat_of_nat)

lemma pages_uctx_space:
  "pages_of (immu (uctx_space q)) = {}" "q < 256 \<Longrightarrow> pages_of (dmmu (uctx_space q)) = {q}"
  by (auto simp: pages_of_def maps_uctx_space)

lemma uctx_space_fields [simp]:
  "mpu_peripheral (uctx_space q) = 0" "binding (uctx_space q) = None"
  by (simp_all add: uctx_space_def zero_mmu_def)

lemma tasks_ok_new:
  assumes ok: "tasks_ok ts" and p: "p \<noteq> NULL" "ts p = None" and q: "q < 16"
    and fresh: "\<And>r u. ts r = Some u \<Longrightarrow> q \<notin> pages_of (dmmu (task_mmu u))"
    and t: "task_mmu t = uctx_space q"
  shows "tasks_ok (ts(p \<mapsto> t))"
proof -
  have wf: "space_wf 15 (immu (task_mmu t))" "space_wf 16 (dmmu (task_mmu t))"
    using q by (auto simp: t space_wf_def pages_uctx_space maps_uctx_space)
  have mp: "mpu_peripheral (task_mmu t) = 0" by (simp add: t)
  have d1: "pages_of (immu (task_mmu t)) \<inter> X = {}" for X by (simp add: t pages_uctx_space)
  have d2: "pages_of (dmmu (task_mmu t)) \<inter> pages_of (dmmu (task_mmu u)) = {}" if "ts r = Some u" for r u
    using fresh [OF that] q by (simp add: t pages_uctx_space)
  have a: "(ts(p \<mapsto> t)) NULL = None" using ok p by (simp add: tasks_ok_def)
  have b: "mpu_peripheral (task_mmu u) = 0 \<and> space_wf 15 (immu (task_mmu u)) \<and> space_wf 16 (dmmu (task_mmu u))"
    if "(ts(p \<mapsto> t)) r = Some u" for r u
    using that tasks_okD [OF ok, of r u] wf mp by (cases "r = p") auto
  have c: "pages_of (immu (task_mmu u)) \<inter> pages_of (immu (task_mmu u')) = {} \<and>
      pages_of (dmmu (task_mmu u)) \<inter> pages_of (dmmu (task_mmu u')) = {}"
    if u: "(ts(p \<mapsto> t)) r = Some u" "(ts(p \<mapsto> t)) r' = Some u'" "r \<noteq> r'" for r r' u u'
  proof -
    consider "r = p" | "r' = p" | "r \<noteq> p" "r' \<noteq> p" by blast
    then show ?thesis
    proof cases
      case 1
      then show ?thesis using u d1 d2 [of r' u'] by auto
    next
      case 2
      then show ?thesis using u d1 d2 [of r u] by auto
    next
      case 3
      then show ?thesis using u tasks_ok_disjoint [OF ok] by (metis fun_upd_other)
    qed
  qed
  show ?thesis unfolding tasks_ok_def using a b c by blast
qed

subsection \<open>The result of creating a task\<close>

lemma create_task_no_memory:
  assumes "fst (umm_malloc pf (sizeof_task_t pf) (mem s)) = NULL"
  shows "create_task pf entry fmt va s = Inr (NULL, s\<lparr>mem := snd (umm_malloc pf (sizeof_task_t pf) (mem s))\<rparr>)"
  using assms by (auto simp: create_task_def Let_def split: prod.split)

lemma create_task_no_page:
  assumes "umm_malloc pf (sizeof_task_t pf) (mem s) = (p, m)" "p \<noteq> NULL" "tasks s p = None"
    and "data_free (umem s) = {}"
  shows "create_task pf entry fmt va s =
    Inr (NULL, s\<lparr>mem := umm_free pf p m, m_pid_gen := m_pid_gen s + 1\<rparr>)"
proof -
  have "umem_alloc_data_page (umem s) = (INVALID_PAGE, umem s)"
    by (rule data_pool.alloc_empty [OF assms(4)])
  with assms(1,2,3) show ?thesis
    by (simp add: create_task_def Let_def INVALID_PAGE_def fun_upd_idem)
qed

text \<open>The steps of a successful call, in one equation.\<close>

lemma create_task_eq:
  assumes m: "umm_malloc pf (sizeof_task_t pf) (mem s) = (p, m)" "p \<noteq> NULL" "tasks s p = None"
    and q: "data_free (umem s) \<noteq> {}" "q = Min (data_free (umem s))"
    and name: "format_text fmt va = Inr cs"
  obtains m' where "create_task pf entry fmt va s = Inr (p, s\<lparr>
      tasks := (tasks s)(p \<mapsto> \<lparr>task_pid = m_pid_gen s, task_mmu = uctx_space q,
        status = TASK_STATUS_WAITING, sched_link = NULL, ucontext = DATA_PAGE_ADDR (of_nat q)\<rparr>),
      mem := m', umem := snd (umem_alloc_data_page (umem s)), m_pid_gen := m_pid_gen s + 1\<rparr>)"
    "\<And>x. x \<notin> data_page q \<Longrightarrow> m' x = m x"
    "read_regs (DATA_PAGE_ADDR (of_nat q) + UCONTEXT_REGS) m' = initial_regs pf entry"
proof -
  let ?u = "DATA_PAGE_ADDR (of_nat q)"
  have q16: "q < 16" using q Min_in [OF data_pool.finite_avail q(1)] data_pool.avail_bound by blast
  have al: "umem_alloc_data_page (umem s) = (int q, snd (umem_alloc_data_page (umem s)))"
    using data_pool.alloc_page [OF q(1)] q(2) by (metis prod.collapse)
  let ?m1 = "init_ucontext pf ?u entry m"
  obtain m' n where vs: "vsnprintf (?u + UCONTEXT_NAME) (of_nat TASK_NAME_SIZE) fmt va ?m1 = Inr (m', n)"
    by (simp add: vsnprintf_emits name Let_def)
  have fr: "m' x = ?m1 x" if "x \<notin> region (?u + UCONTEXT_NAME) 64" for x
    using vsnprintf_frame [OF vs] that by (simp add: TASK_NAME_SIZE_def)
  show ?thesis
  proof (rule that [of m'])
    let ?g = "m_pid_gen s" and ?U = "snd (umem_alloc_data_page (umem s))"
    let ?t = "\<lambda>st u. \<lparr>task_pid = ?g, task_mmu = uctx_space q, status = st, sched_link = NULL, ucontext = u\<rparr>"
    let ?s2 = "s\<lparr>mem := m, tasks := (tasks s)(p \<mapsto> new_task ?g), m_pid_gen := ?g + 1, umem := ?U\<rparr>"
    let ?s3 = "?s2\<lparr>tasks := (tasks s)(p \<mapsto> ?t TASK_STATUS_DEAD 0)\<rparr>"
    let ?s4 = "?s2\<lparr>tasks := (tasks s)(p \<mapsto> ?t TASK_STATUS_DEAD ?u)\<rparr>"
    let ?s5 = "?s4\<lparr>mem := m'\<rparr>"
    have map: "mmu_map p MMU_SPACE_DATA (of_nat UCTX_PAGE_INDEX) (PAGE_ENTRY (of_nat q)) ?s2 = Inr (NO_ERROR, ?s3)"
      by (simp add: mmu_map_def MAX_PAGE_COUNT_def UCTX_PAGE_INDEX_def new_task_def zero_mmu_def uctx_space_def)
    have upd: "update_task p (ucontext_update (\<lambda>_. ?u)) ?s3 = Inr ?s4" by (simp add: update_task_def)
    have cas: "cas_task_state p TASK_STATUS_DEAD TASK_STATUS_WAITING ?s5 =
        Inr (?s5\<lparr>tasks := (tasks s)(p \<mapsto> ?t TASK_STATUS_WAITING ?u)\<rparr>)"
      by (subst cas_task_state_ok [where t = "?t TASK_STATUS_DEAD ?u"]) auto
    have al': "umem_alloc_data_page (umem (s\<lparr>mem := m, tasks := ts, m_pid_gen := g\<rparr>)) = (int q, ?U)" for ts g
      using al by simp
    have "create_task pf entry fmt va s = Inr (p, ?s5\<lparr>tasks := (tasks s)(p \<mapsto> ?t TASK_STATUS_WAITING ?u)\<rparr>)"
      unfolding create_task_def m(1) Let_def prod.case al'
      using m(2) map upd vs cas by simp
    then show "create_task pf entry fmt va s = Inr (p, s\<lparr>
      tasks := (tasks s)(p \<mapsto> \<lparr>task_pid = m_pid_gen s, task_mmu = uctx_space q,
        status = TASK_STATUS_WAITING, sched_link = NULL, ucontext = ?u\<rparr>),
      mem := m', umem := snd (umem_alloc_data_page (umem s)), m_pid_gen := m_pid_gen s + 1\<rparr>)"
      by simp
    show "m' x = m x" if "x \<notin> data_page q" for x
    proof -
      have "x \<notin> region (?u + UCONTEXT_NAME) 64"
        using region_offset [of x ?u 4096 64 8192] that by (auto simp: data_page_def UCONTEXT_NAME_def)
      then show ?thesis using fr init_ucontext_other [OF that] by simp
    qed
    have "read_regs (?u + UCONTEXT_REGS) m' = read_regs (?u + UCONTEXT_REGS) ?m1"
    proof (rule read_regs_cong, rule fr)
      fix x assume x: "x \<in> region (?u + UCONTEXT_REGS) 292"
      have e: "?u + UCONTEXT_REGS = (?u + UCONTEXT_NAME) + of_nat 64"
        by (simp add: UCONTEXT_REGS_def UCONTEXT_NAME_def)
      let ?d = "unat (x - (?u + UCONTEXT_REGS))"
      have d: "?d < 292" using x by (simp add: region_def)
      have "x - (?u + UCONTEXT_NAME) = of_nat (64 + ?d)" unfolding e by simp
      then have "unat (x - (?u + UCONTEXT_NAME)) = 64 + ?d" using d by (simp del: of_nat_add)
      then show "x \<notin> region (?u + UCONTEXT_NAME) 64" by (simp add: region_def)
    qed
    then show "read_regs (?u + UCONTEXT_REGS) m' = initial_regs pf entry" by (simp add: read_init_ucontext)
  qed
qed

subsection \<open>The invariant after creating a task\<close>

text \<open>A task no hardware PID is bound to can be added or changed without touching the tables.\<close>

definition unbound :: "kernel \<Rightarrow> ptr \<Rightarrow> bool" where
  "unbound s p \<longleftrightarrow> (\<forall>k < 6. bound_space (the_binding k s) \<noteq> p \<or> p = NULL)"

lemma unbound_fresh:
  assumes "mmu_inv s" "\<And>t. tasks s p = Some t \<Longrightarrow> binding (task_mmu t) = None"
  shows "unbound s p"
  using assms unfolding unbound_def mmu_inv_def bindings_ok_def by fastforce

lemma mmu_inv_upd:
  assumes inv: "mmu_inv s" and np: "unbound s p" and ts: "tasks s' = (tasks s)(p \<mapsto> t)"
    and ok: "tasks_ok (tasks s')" and d: "dport s' = dport s" and i: "get_cpu_index s' = get_cpu_index s"
    and bs: "\<And>k. the_binding k s' = the_binding k s"
  shows "mmu_inv s'"
proof -
  have p0: "p \<noteq> NULL" using ok ts by (auto simp: tasks_ok_def)
  have own: "owner sel s' k = owner sel s k" if "k < 6" for sel k
    using np that p0 by (simp add: owner_def unbound_def Let_def bs ts)
  have "bindings_ok s'"
    using inv np p0 unfolding mmu_inv_def bindings_ok_def unbound_def by (simp add: bs i ts)
  moreover have "tbl_ok tbl (owner sel s') \<longleftrightarrow> tbl_ok tbl (owner sel s)" for tbl sel
    unfolding tbl_ok_def using own by simp
  ultimately show ?thesis using inv ok by (simp add: mmu_inv_def d)
qed

lemma uctx_in_page:
  assumes "tasks_ok ts" "uctx_ok ts" "ts r = Some u" "q < 16" "q \<notin> pages_of (dmmu (task_mmu u))"
    and "x \<in> region (ucontext u + UCONTEXT_REGS) 292"
  shows "x \<notin> data_page q"
proof -
  obtain q' where q': "q' < 16" "maps_page (dmmu (task_mmu u)) 15 q'" "ucontext u = DATA_PAGE_ADDR (of_nat q')"
    using assms(2,3) unfolding uctx_ok_def by blast
  then have "q \<noteq> q'" using assms(5) by (auto simp: pages_of_def)
  moreover have "x \<in> data_page q'" using assms(6) q'(3) uctx_region by simp
  ultimately show ?thesis using data_pages_disjoint [OF assms(4) q'(1)] by blast
qed

lemma uctx_in_user:
  assumes "uctx_ok ts" "ts r = Some u" "x \<in> region (ucontext u + UCONTEXT_REGS) 292"
  shows "x \<in> user_memory"
proof -
  obtain q' where q': "q' < 16" "ucontext u = DATA_PAGE_ADDR (of_nat q')"
    using assms(1,2) unfolding uctx_ok_def by blast
  then show ?thesis using assms(3) uctx_region data_page_user by fastforce
qed

lemma create_task_ok:
  assumes inv: "kernel_inv s xs" and heap: "heap_ok pf s"
    and m: "umm_malloc pf (sizeof_task_t pf) (mem s) = (p, m)" "p \<noteq> NULL"
    and q: "data_free (umem s) \<noteq> {}" "q = Min (data_free (umem s))"
    and name: "format_text fmt va = Inr cs"
  obtains s' where "create_task pf entry fmt va s = Inr (p, s')" "kernel_inv s' xs" "p \<notin> dom (tasks s)"
    "tasks s' = (tasks s)(p \<mapsto> \<lparr>task_pid = m_pid_gen s, task_mmu = uctx_space q,
        status = TASK_STATUS_WAITING, sched_link = NULL, ucontext = DATA_PAGE_ADDR (of_nat q)\<rparr>)"
    "data_free (umem s') = data_free (umem s) - {q}" "code_free (umem s') = code_free (umem s)"
    "saved_regs s' = (saved_regs s)(p \<mapsto> initial_regs pf entry)"
    "get_current_task s' = get_current_task s" "dport s' = dport s"
    "\<And>x. x \<notin> data_page q \<Longrightarrow> mem s' x = m x"
    "s' = s\<lparr>tasks := tasks s', mem := mem s', umem := umem s', m_pid_gen := m_pid_gen s + 1\<rparr>"
proof -
  have mem: "m x = mem s x" if "x \<in> user_memory" for x
    using heap that m(1) unfolding heap_ok_def by (metis snd_conv)
  have new: "tasks s p = None" using heap m unfolding heap_ok_def by (metis domIff fst_conv)
  have q16: "q < 16" and qf: "q \<in> data_free (umem s)"
    using q Min_in [OF data_pool.finite_avail q(1)] data_pool.avail_bound by blast+
  let ?t = "\<lparr>task_pid = m_pid_gen s, task_mmu = uctx_space q,
        status = TASK_STATUS_WAITING, sched_link = NULL, ucontext = DATA_PAGE_ADDR (of_nat q)\<rparr>"
  let ?U = "snd (umem_alloc_data_page (umem s))"
  obtain m' where eq: "create_task pf entry fmt va s = Inr (p, s\<lparr>tasks := (tasks s)(p \<mapsto> ?t),
      mem := m', umem := ?U, m_pid_gen := m_pid_gen s + 1\<rparr>)"
    and m': "\<And>x. x \<notin> data_page q \<Longrightarrow> m' x = m x"
    and regs: "read_regs (DATA_PAGE_ADDR (of_nat q) + UCONTEXT_REGS) m' = initial_regs pf entry"
    using create_task_eq [OF m new q name, of entry] by blast
  let ?s' = "s\<lparr>tasks := (tasks s)(p \<mapsto> ?t), mem := m', umem := ?U, m_pid_gen := m_pid_gen s + 1\<rparr>"
  from inv have si: "sched_inv s xs" and pi: "pages_inv s" and mi: "mmu_inv s" and tok: "tasks_ok (tasks s)"
    and uok: "uctx_ok (tasks s)" and rq: "run_queue s xs"
    and sok: "status_ok (get_current_task s) xs (tasks s)"
    by (auto simp: kernel_inv_def sched_inv_def mmu_inv_def)
  have fresh: "q \<notin> pages_of (dmmu (task_mmu u))" if "tasks s r = Some u" for r u
    using pi qf that unfolding pages_inv_def by blast
  have tok': "tasks_ok (tasks ?s')" using tasks_ok_new [OF tok m(2) new q16 fresh] by simp
  have bs: "the_binding k ?s' = the_binding k s" for k by (simp add: the_binding_def get_cpu_context_def get_cpu_index_def)
  have ix: "get_cpu_index ?s' = get_cpu_index s" by simp
  have mi': "mmu_inv ?s'"
    by (rule mmu_inv_upd [OF mi unbound_fresh [OF mi] _ tok' _ ix bs]) (simp_all add: new)
  have fD: "data_free ?U = data_free (umem s) - {q}" using data_pool.alloc_avail [OF q(1)] q(2) by simp
  have fC: "code_free ?U = code_free (umem s)" by (simp add: code_free_def umem_alloc_data_page_def Let_def)
  have pxs: "p \<notin> set xs"
    using grq.rep_elem [OF rq, of p] new by (auto simp: run_queue_elem_def queue_elem_def)
  have pc: "p \<noteq> get_current_task s" using si new m(2) unfolding sched_inv_def by (metis domIff)
  have rq': "queue_rep (m_global_run_queue s, tasks ?s') xs"
    by (rule queue_rep_frame [of _ "tasks s"]) (use rq pxs in \<open>auto simp: run_queue_def\<close>)
  have uok': "uctx_ok (tasks ?s')"
    using uok q16 by (auto simp: uctx_ok_def maps_uctx_space)
  have sok': "status_ok (get_current_task s) xs (tasks ?s')"
    using sok pxs pc by (auto simp: status_ok_def)
  have cur: "get_current_task ?s' = get_current_task s"
    by (simp add: get_current_task_def get_cpu_context_def get_cpu_index_def)
  have sv: "saved_regs ?s' = (saved_regs s)(p \<mapsto> initial_regs pf entry)"
  proof
    fix r
    show "saved_regs ?s' r = ((saved_regs s)(p \<mapsto> initial_regs pf entry)) r"
    proof (cases "r = p \<or> tasks s r = None")
      case True
      then show ?thesis using regs by (auto simp: saved_regs_def)
    next
      case False
      then obtain u where u: "tasks s r = Some u" "r \<noteq> p" by auto
      have "read_regs (ucontext u + UCONTEXT_REGS) m' = read_regs (ucontext u + UCONTEXT_REGS) (mem s)"
        using m' mem uctx_in_page [OF tok uok u(1) q16 fresh [OF u(1)]] uctx_in_user [OF uok u(1)]
        by (intro read_regs_cong) simp
      then show ?thesis using u by (simp add: saved_regs_def)
    qed
  qed
  have pi': "pages_inv ?s'"
  proof -
    have "pages_of (immu (task_mmu u)) \<inter> code_free ?U = {} \<and> pages_of (dmmu (task_mmu u)) \<inter> data_free ?U = {}"
      if "tasks ?s' r = Some u" for r u
    proof (cases "r = p")
      case True
      then have "u = ?t" using that by simp
      then show ?thesis using q16 by (simp add: pages_uctx_space fD)
    next
      case False
      then have "tasks s r = Some u" using that by simp
      then show ?thesis using pi unfolding pages_inv_def fD fC by blast
    qed
    then show ?thesis using pi by (simp add: pages_inv_def fC)
  qed
  have "sched_inv ?s' xs"
    using mi' uok' rq' rq sok' cur si by (auto simp: sched_inv_def run_queue_def)
  then show ?thesis
    using that [OF eq] pi' new fD fC sv cur m' by (auto simp: kernel_inv_def)
qed

end
