(* ===== verification/Sched_Runs.thy ===== *)
theory Sched_Runs
  imports Sched_Refinement
begin

section \<open>Runs of the scheduler\<close>

text \<open>
  The simulation of the specification by the handlers, and sequences of time slices: each slice
  ends with registers the running task chose (\<open>slices\<close>). The ready tasks run once each in
  the order of the queue, and each is resumed with the registers it was stopped with.
\<close>

subsection \<open>Simulation\<close>

lemma on_schedule_refines:
  assumes abs: "sched_abs s a" and run: "running a \<noteq> None" and wf: "regs_wf r"
  shows "\<exists>r' a' s'. spec_preempt r a = Some (r', a') \<and>
    scheduler_on_schedule r s = Inr (r', s') \<and> sched_abs s' a' \<and> switches_to s' (the (running a'))"
proof -
  let ?c = "get_current_task s"
  have c: "?c \<noteq> NULL" "running a = Some ?c" and inv: "sched_inv s (ready a)"
    using abs run by (auto simp: sched_abs_def split: if_splits)
  obtain x ys r' s' where s': "ready a @ [?c] = x # ys" "scheduler_on_schedule r s = Inr (r', s')"
    "((saved_regs s)(?c \<mapsto> r)) x = Some r'" "sched_inv s' ys" "get_current_task s' = x"
    "saved_regs s' = (saved_regs s)(?c \<mapsto> r)" "switches_to s' x"
    by (rule on_schedule_ok [OF inv refl c(1) wf])
  have x: "x \<noteq> NULL"
  proof -
    have "x \<in> set (ready a @ [?c])" by (simp only: s'(1)) simp
    then show ?thesis
      using inv c(1) grq.rep_elem [of s "ready a" x]
      by (auto simp: sched_inv_def run_queue_elem_def queue_elem_def)
  qed
  let ?a' = "a\<lparr>ready := ys, running := Some x, saved := saved_regs s'\<rparr>"
  have "spec_preempt r a = Some (r', ?a')"
    using c(2) s'(3) abs by (simp add: spec_preempt_def spec_pick_def s'(1,6) sched_abs_def)
  moreover have "sched_abs s' ?a'" using s'(4,5) x by (simp add: sched_abs_def)
  ultimately show ?thesis using s'(2,7) by auto
qed

text \<open>Parking: with no other ready task, the specification has no step and the kernel idles.\<close>

lemma on_park_refines:
  assumes abs: "sched_abs s a" and run: "running a \<noteq> None" and wf: "regs_wf r"
    and cb: "park_callback (get_cpu_context s) = NULL"
  shows "(case spec_park r a of
      None \<Rightarrow> scheduler_on_park pf r s = Inl Spin
    | Some (r', a') \<Rightarrow> \<exists>s'. scheduler_on_park pf r s = Inr (r', s') \<and> sched_abs s' a' \<and>
        switches_to s' (the (running a')))"
proof -
  let ?c = "get_current_task s"
  have c: "?c \<noteq> NULL" "running a = Some ?c" and inv: "sched_inv s (ready a)"
    using abs run by (auto simp: sched_abs_def split: if_splits)
  show ?thesis
  proof (cases "ready a")
    case Nil
    then show ?thesis
      using on_park_last [OF inv [unfolded Nil] refl c(1) wf cb] c(2)
      by (simp add: spec_park_def spec_pick_def)
  next
    case (Cons x xs)
    obtain r' s' where s': "scheduler_on_park pf r s = Inr (r', s')"
      "((saved_regs s)(?c \<mapsto> r)) x = Some r'" "sched_inv s' xs" "get_current_task s' = x"
      "saved_regs s' = (saved_regs s)(?c \<mapsto> r)" "switches_to s' x"
      by (rule on_park_ok [OF inv [unfolded Cons] refl c(1) wf cb])
    have x: "x \<noteq> NULL"
      using inv Cons grq.rep_elem [of s "ready a" x]
      by (simp add: sched_inv_def run_queue_elem_def queue_elem_def)
    let ?a' = "a\<lparr>ready := xs, running := Some x, saved := saved_regs s'\<rparr>"
    have "spec_park r a = Some (r', ?a')"
      using c(2) s'(2) abs by (simp add: spec_park_def spec_pick_def Cons s'(5) sched_abs_def)
    moreover have "sched_abs s' ?a'" using s'(3,4) x by (simp add: sched_abs_def)
    ultimately show ?thesis using s'(1,6) by auto
  qed
qed

subsection \<open>Sequences of time slices\<close>

fun slices :: "task_regs list \<Rightarrow> kernel \<Rightarrow> ((ptr \<times> task_regs) list \<times> kernel) run" where
  "slices [] s = Inr ([], s)"
| "slices (r # rs) s =
     andthen (scheduler_on_schedule r s) (\<lambda>(r', s1).
     andthen (slices rs s1) (\<lambda>(ps, s2). Inr ((get_current_task s1, r') # ps, s2)))"

lemma slices_append:
  "slices (rs @ rs') s = andthen (slices rs s) (\<lambda>(ps, s1).
     andthen (slices rs' s1) (\<lambda>(ps', s2). Inr (ps @ ps', s2)))"
proof (induction rs arbitrary: s)
  case Nil
  show ?case by (cases "slices rs' s") auto
next
  case (Cons r rs)
  show ?case
  proof (cases "scheduler_on_schedule r s")
    case (Inr p)
    obtain r' s1 where p: "p = (r', s1)" by fastforce
    show ?thesis
    proof (cases "slices rs s1")
      case i: (Inr p')
      obtain ps s2 where "p' = (ps, s2)" by fastforce
      with Inr i p Cons.IH [of s1] show ?thesis by (cases "slices rs' s2") auto
    qed (use Inr p Cons.IH [of s1] in simp)
  qed simp
qed

lemma slices_run:
  "sched_inv s (xs @ ys) \<Longrightarrow> get_current_task s = c \<Longrightarrow> c \<noteq> NULL \<Longrightarrow> length rs = length xs \<Longrightarrow>
   (\<forall>r \<in> set rs. regs_wf r) \<Longrightarrow>
   \<exists>s'. slices rs s = Inr (map (\<lambda>x. (x, the (saved_regs s x))) xs, s') \<and>
     sched_inv s' (ys @ butlast (c # xs)) \<and> get_current_task s' = last (c # xs) \<and>
     (\<forall>p. p \<notin> set (butlast (c # xs)) \<longrightarrow> saved_regs s' p = saved_regs s p) \<and>
     (xs \<noteq> [] \<longrightarrow> saved_regs s' c = Some (hd rs))"
proof (induction xs arbitrary: s ys c rs)
  case Nil
  then show ?case by auto
next
  case (Cons x xs)
  then obtain r rs' where rs: "rs = r # rs'" "length rs' = length xs" "regs_wf r" "\<forall>r \<in> set rs'. regs_wf r"
    by (cases rs) auto
  have cq: "c \<notin> set ((x # xs) @ ys)"
  proof -
    obtain t where t: "tasks s c = Some t" using Cons.prems by (auto simp: sched_inv_def)
    then have "status t = TASK_STATUS_RUNNING" "status t = TASK_STATUS_RUNNABLE \<longleftrightarrow> c \<in> set ((x # xs) @ ys)"
      using Cons.prems unfolding sched_inv_def status_ok_def by blast+
    then show ?thesis by simp
  qed
  have di: "distinct ((x # xs) @ ys)"
    using Cons.prems(1) grq.rep_distinct unfolding sched_inv_def by blast
  have x0: "x \<noteq> NULL"
    using Cons.prems(1) grq.rep_elem [of s "(x # xs) @ ys" x]
    by (simp add: sched_inv_def run_queue_elem_def queue_elem_def)
  obtain x' zs r' s1 where s1: "((x # xs) @ ys) @ [c] = x' # zs" "scheduler_on_schedule r s = Inr (r', s1)"
    "((saved_regs s)(c \<mapsto> r)) x' = Some r'" "sched_inv s1 zs" "get_current_task s1 = x'"
    "saved_regs s1 = (saved_regs s)(c \<mapsto> r)"
    by (rule on_schedule_ok [OF Cons.prems(1,2,3) rs(3)])
  then have x': "x' = x" "zs = xs @ (ys @ [c])" by simp_all
  have sx: "saved_regs s x = Some r'" using s1(3) cq x' by auto
  from Cons.IH [of s1 "ys @ [c]" x rs'] s1 x' x0 rs
  obtain s' where s': "slices rs' s1 = Inr (map (\<lambda>x. (x, the (saved_regs s1 x))) xs, s')"
    "sched_inv s' ((ys @ [c]) @ butlast (x # xs))" "get_current_task s' = last (x # xs)"
    "\<forall>p. p \<notin> set (butlast (x # xs)) \<longrightarrow> saved_regs s' p = saved_regs s1 p" by auto
  have "map (\<lambda>x. (x, the (saved_regs s1 x))) xs = map (\<lambda>x. (x, the (saved_regs s x))) xs"
    using cq by (auto simp: s1(6))
  moreover have "c \<notin> set (butlast (x # xs))" using cq by (auto dest: in_set_butlastD)
  ultimately show ?case
    using s' s1 x' sx rs(1) by (auto simp: butlast_append)
qed

text \<open>One full round: every ready task once, in order, and then the first one again, as it was left.\<close>

lemma full_round:
  assumes inv: "sched_inv s xs" and c: "get_current_task s = c" "c \<noteq> NULL"
    and rs: "length rs = length xs" "\<forall>r \<in> set (rs @ [r]). regs_wf r"
  shows "\<exists>s'. slices (rs @ [r]) s =
      Inr (map (\<lambda>x. (x, the (saved_regs s x))) xs @ [(c, hd (rs @ [r]))], s') \<and>
    sched_inv s' xs \<and> get_current_task s' = c"
proof -
  obtain s1 where s1: "slices rs s = Inr (map (\<lambda>x. (x, the (saved_regs s x))) xs, s1)"
    "sched_inv s1 (butlast (c # xs))" "get_current_task s1 = last (c # xs)"
    "xs \<noteq> [] \<longrightarrow> saved_regs s1 c = Some (hd rs)"
    using slices_run [of s xs "[]" c rs] assms by auto
  have nn: "last (c # xs) \<noteq> NULL"
    using c(2) inv grq.rep_elem [of s xs "last xs"]
    by (auto simp: sched_inv_def run_queue_elem_def queue_elem_def)
  obtain x ys r' s' where s': "butlast (c # xs) @ [last (c # xs)] = x # ys"
    "scheduler_on_schedule r s1 = Inr (r', s')"
    "((saved_regs s1)(last (c # xs) \<mapsto> r)) x = Some r'" "sched_inv s' ys" "get_current_task s' = x"
    using on_schedule_ok [OF s1(2,3) nn, of r] rs(2) by (metis UnCI list.set_intros(1) set_append)
  have "c # xs = x # ys" using s'(1) by (metis append_butlast_last_id list.distinct(1))
  then have x: "x = c" "ys = xs" by simp_all
  have "c \<noteq> last xs" if "xs \<noteq> []"
  proof -
    obtain t where t: "tasks s c = Some t" using inv c by (auto simp: sched_inv_def)
    then have "status t = TASK_STATUS_RUNNING" "status t = TASK_STATUS_RUNNABLE \<longleftrightarrow> c \<in> set xs"
      using inv c unfolding sched_inv_def status_ok_def by blast+
    with that show ?thesis by auto
  qed
  then have "r' = hd (rs @ [r])"
    using s'(3) s1(4) rs(1) x by (cases "xs = []") (auto simp: hd_append split: if_splits)
  with s1(1) s' x show ?thesis by (simp add: slices_append)
qed

end
