(* ===== verification/Sched_Ready.thy ===== *)
theory Sched_Ready
  imports Task_Create Sched_Runs
begin

section \<open>Readying a task, and the kernel's invariant across the scheduler\<close>

text \<open>
  \<^verbatim>\<open>scheduler_ready_task\<close> keeps the invariant of the whole kernel, and so does every line the
  kernel prints.
\<close>

lemma saved_regs_console [simp]: "saved_regs (s\<lparr>console := con\<rparr>) = saved_regs s"
  by (simp add: saved_regs_def fun_eq_iff)

lemma kernel_inv_console [simp]: "kernel_inv (s\<lparr>console := con\<rparr>) xs \<longleftrightarrow> kernel_inv s xs"
proof -
  have "kernel_inv (s'\<lparr>console := c\<rparr>) xs" if "kernel_inv s' xs" for s' c
  proof -
    have bs: "the_binding k (s'\<lparr>console := c\<rparr>) = the_binding k s'" for k by (simp add: the_binding_def)
    have "mmu_inv (s'\<lparr>console := c\<rparr>)"
      by (rule mmu_inv_same [of s', OF _ _ _ _ bs]) (use that in \<open>simp_all add: kernel_inv_def sched_inv_def\<close>)
    then show ?thesis
      using that by (simp add: kernel_inv_def sched_inv_def run_queue_def pages_inv_def get_current_task_def)
  qed
  from this [of s con] this [of "s\<lparr>console := con\<rparr>" "console s"] show ?thesis by auto
qed

lemma kernel_inv_say [simp]: "kernel_inv (say line s) xs \<longleftrightarrow> kernel_inv s xs"
  by (simp add: say_def)

lemma saved_regs_say [simp]: "saved_regs (say line s) = saved_regs s"
  by (simp add: say_def)

lemma get_current_task_say [simp]: "get_current_task (say line s) = get_current_task s"
  by (simp add: get_current_task_def)

lemma pages_inv_frame:
  assumes "pages_inv s" "sched_frame s s'"
  shows "pages_inv s'"
proof -
  have u: "umem s' = umem s" and mp: "same_maps (tasks s) (tasks s')"
    using assms(2) by (simp_all add: sched_frame_def)
  have "pages_of (immu (task_mmu t')) \<inter> code_free (umem s) = {} \<and>
      pages_of (dmmu (task_mmu t')) \<inter> data_free (umem s) = {}" if t': "tasks s' p = Some t'" for p t'
  proof -
    have "map_option (\<lambda>t. (immu (task_mmu t), dmmu (task_mmu t), ucontext t)) (tasks s' p) =
        map_option (\<lambda>t. (immu (task_mmu t), dmmu (task_mmu t), ucontext t)) (tasks s p)"
      using mp by (simp add: same_maps_def)
    then obtain t where t: "tasks s p = Some t" "immu (task_mmu t') = immu (task_mmu t)"
      "dmmu (task_mmu t') = dmmu (task_mmu t)" using t' by (cases "tasks s p") auto
    then show ?thesis using assms(1) unfolding pages_inv_def by metis
  qed
  then show ?thesis using assms(1) by (simp add: pages_inv_def u)
qed

lemma preempt_simps [simp]:
  "tasks (scheduler_preempt_disable s) = tasks s" "tasks (scheduler_preempt_enable s) = tasks s"
  "mem (scheduler_preempt_disable s) = mem s" "mem (scheduler_preempt_enable s) = mem s"
  "dport (scheduler_preempt_disable s) = dport s" "dport (scheduler_preempt_enable s) = dport s"
  "umem (scheduler_preempt_disable s) = umem s" "umem (scheduler_preempt_enable s) = umem s"
  "console (scheduler_preempt_disable s) = console s" "console (scheduler_preempt_enable s) = console s"
  "timg (scheduler_preempt_disable s) = timg s" "timg (scheduler_preempt_enable s) = timg s"
  "pidctrl (scheduler_preempt_disable s) = pidctrl s" "pidctrl (scheduler_preempt_enable s) = pidctrl s"
  "m_pid_gen (scheduler_preempt_disable s) = m_pid_gen s" "m_pid_gen (scheduler_preempt_enable s) = m_pid_gen s"
  "prid (scheduler_preempt_disable s) = prid s" "prid (scheduler_preempt_enable s) = prid s"
  "m_global_run_queue (scheduler_preempt_disable s) = m_global_run_queue s"
  "m_global_run_queue (scheduler_preempt_enable s) = m_global_run_queue s"
  "m_global_run_queue_size (scheduler_preempt_disable s) = m_global_run_queue_size s"
  "m_global_run_queue_size (scheduler_preempt_enable s) = m_global_run_queue_size s"
  "get_cpu_index (scheduler_preempt_disable s) = get_cpu_index s"
  "get_cpu_index (scheduler_preempt_enable s) = get_cpu_index s"
  "the_binding k (scheduler_preempt_disable s) = the_binding k s"
  "the_binding k (scheduler_preempt_enable s) = the_binding k s"
  "get_current_task (scheduler_preempt_disable s) = get_current_task s"
  "get_current_task (scheduler_preempt_enable s) = get_current_task s"
  "preempt_disable_depth (get_cpu_context (scheduler_preempt_disable s)) =
     preempt_disable_depth (get_cpu_context s) + 1"
  "preempt_disable_depth (get_cpu_context (scheduler_preempt_enable s)) =
     preempt_disable_depth (get_cpu_context s) + 1"
  by (simp_all add: scheduler_preempt_disable_def scheduler_preempt_enable_def Let_def the_binding_def
      get_current_task_def)

text \<open>
  Readying a waiting task puts it at the back of the queue. The preemption depth ends two above
  where it began: \<^verbatim>\<open>scheduler_preempt_enable\<close> increments it as well.
\<close>

lemma ready_task_ok:
  assumes inv: "sched_inv s xs" and t: "tasks s p = Some t" and w: "status t = TASK_STATUS_WAITING"
  obtains s' where "scheduler_ready_task p s = Inr s'" "sched_inv s' (xs @ [p])"
    "saved_regs s' = saved_regs s" "sched_frame s s'" "get_current_task s' = get_current_task s"
    "mem s' = mem s" "dport s' = dport s" "timg s' = timg s"
    "preempt_disable_depth (get_cpu_context s') = preempt_disable_depth (get_cpu_context s) + 2"
proof -
  from inv have mi: "mmu_inv s" and tok: "tasks_ok (tasks s)" and uok: "uctx_ok (tasks s)"
    and rq: "run_queue s xs" and sok: "status_ok (get_current_task s) xs (tasks s)"
    and cd: "get_current_task s \<noteq> NULL \<Longrightarrow> get_current_task s \<in> dom (tasks s)"
    by (auto simp: sched_inv_def mmu_inv_def)
  have px: "p \<notin> set xs" and pc: "p \<noteq> get_current_task s" and p0: "p \<noteq> NULL"
    using sok t w tasks_okD(4) [OF tok t] unfolding status_ok_def by fastforce+
  let ?t1 = "t\<lparr>sched_link := NULL\<rparr>"
  let ?s1 = "s\<lparr>tasks := (tasks s)(p \<mapsto> ?t1)\<rparr>"
  let ?s2 = "scheduler_preempt_disable ?s1"
  let ?ts = "(tasks s)(p \<mapsto> ?t1\<lparr>status := TASK_STATUS_RUNNABLE\<rparr>)"
  let ?s3 = "?s2\<lparr>tasks := ?ts\<rparr>"
  have cas: "cas_task_state p TASK_STATUS_WAITING TASK_STATUS_RUNNABLE ?s2 = Inr ?s3"
    using w by (subst cas_task_state_ok [where t = ?t1]) auto
  have qr: "queue_rep (m_global_run_queue s, ?ts) xs"
    by (rule queue_rep_frame [of _ "tasks s"]) (use rq px in \<open>auto simp: run_queue_def\<close>)
  have rq3: "run_queue ?s3 xs" "run_queue_elem ?s3 p"
    using qr rq p0 by (auto simp: run_queue_def run_queue_elem_def queue_elem_def)
  obtain q ts where put: "global_run_queue_put p ?s3 = Inr (?s3\<lparr>m_global_run_queue := q, tasks := ts,
      m_global_run_queue_size := m_global_run_queue_size ?s3 + 1\<rparr>)"
    and rep: "queue_rep (q, ts) (xs @ [p])" and lk0: "same_but_links (tasks ?s3) ts"
    by (rule global_put_rep [OF rq3 px])
  have lk: "same_but_links ?ts ts" using lk0 by simp
  let ?s4 = "?s3\<lparr>m_global_run_queue := q, tasks := ts, m_global_run_queue_size := m_global_run_queue_size ?s3 + 1\<rparr>"
  let ?s' = "scheduler_preempt_enable ?s4"
  have sp1: "same_spaces (tasks s) ?ts" using t by (simp add: same_spaces_def)
  have sp: "same_spaces (tasks s) ts" by (rule same_spaces_trans [OF sp1 same_spaces_links [OF lk]])
  have st: "status_ok (get_current_task s) (xs @ [p]) ts"
  proof (rule status_ok_links [OF _ lk], unfold status_ok_def, intro allI impI)
    fix r u assume u: "?ts r = Some u"
    show "(status u = TASK_STATUS_RUNNABLE \<longleftrightarrow> r \<in> set (xs @ [p])) \<and>
        (status u = TASK_STATUS_RUNNING \<longleftrightarrow> r = get_current_task s)"
    proof (cases "r = p")
      case True
      then show ?thesis using u pc by auto
    next
      case False
      then show ?thesis using u sok by (auto simp: status_ok_def)
    qed
  qed
  show ?thesis
  proof (rule that)
    show "scheduler_ready_task p s = Inr ?s'"
      using t w cas put by (simp add: scheduler_ready_task_def get_task_status_def Let_def)
    have c4: "get_current_task ?s4 = get_current_task s"
      by (simp add: get_current_task_def scheduler_preempt_disable_def Let_def)
    have ix: "get_cpu_index ?s' = get_cpu_index s" by simp
    have bs: "the_binding k ?s' = the_binding k s" for k by simp
    have "mmu_inv ?s'" by (rule mmu_inv_same [OF mi _ _ ix bs]) (simp_all add: sp)
    moreover have "get_current_task s \<noteq> NULL \<longrightarrow> get_current_task s \<in> dom ts"
      using cd same_spaces_None [OF sp] by (metis domIff)
    ultimately show "sched_inv ?s' (xs @ [p])"
      using st rep rq uctx_ok_same [OF uok sp] c4 by (simp add: sched_inv_def run_queue_def)
    show "saved_regs ?s' = saved_regs s" by (rule saved_regs_same) (simp_all add: sp)
    show "sched_frame s ?s'" using same_maps_spaces [OF sp]
      by (simp add: sched_frame_def scheduler_preempt_disable_def scheduler_preempt_enable_def Let_def)
    show "get_current_task ?s' = get_current_task s" using c4 by simp
    show "preempt_disable_depth (get_cpu_context ?s') = preempt_disable_depth (get_cpu_context s) + 2"
      by (simp add: scheduler_preempt_disable_def Let_def)
  qed simp_all
qed

end
