(* ===== verification/Syscall.thy ===== *)
theory Syscall
  imports Sched_Ready
begin

section \<open>System calls and interrupts\<close>

text \<open>
  \<^verbatim>\<open>task/syscall.c\<close> and the interrupt half of \<^verbatim>\<open>arch/interrupts.c\<close>: the two handlers
  the trap entries call with the saved registers of the interrupted task.
\<close>

subsection \<open>The system call handler\<close>

definition SYSCALL_NUM :: nat where "SYSCALL_NUM = 2"
definition SYSCALL_RET :: nat where "SYSCALL_RET = 2"
definition SYSCALL_ARG1 :: nat where "SYSCALL_ARG1 = 6"
definition SYSCALL_ARG2 :: nat where "SYSCALL_ARG2 = 3"
definition SYSCALL_LOG :: u32 where "SYSCALL_LOG = 0x0f"

text \<open>
  The physical page's address; neither the range nor the offset in the page is looked at. An
  index outside the sixteen entries reads past the array.
\<close>

definition get_user_ptr :: "u32 \<Rightarrow> u32 \<Rightarrow> kernel \<Rightarrow> (err_t \<times> u32) run" where
  "get_user_ptr user_ptr user_size s =
     andthen (read_task (get_current_task s) s) (\<lambda>task.
     let idx = unat (DATA_PAGE_INDEX user_ptr) in
     if idx < MAX_PAGE_COUNT
     then Inr (NO_ERROR, DATA_PAGE_ADDR (ucast (phys (entries (dmmu (task_mmu task)) idx))))
     else Inl (Undefined ''entries index''))"

definition set_ret :: "u32 \<Rightarrow> task_regs \<Rightarrow> task_regs" where
  "set_ret v regs = regs\<lparr>ar := (ar regs)[SYSCALL_RET := v]\<rparr>"

definition LOG_FORMAT :: string where "LOG_FORMAT = ''%.64s: %.*s''"

definition log_syscall :: "task_regs \<Rightarrow> kernel \<Rightarrow> (err_t \<times> kernel) run" where
  "log_syscall regs s =
     (let str_len = ar regs ! SYSCALL_ARG2 in
      andthen (get_user_ptr (ar regs ! SYSCALL_ARG1) str_len s) (\<lambda>(err, str_ptr).
      if IS_ERROR err
      then andthen (kprint (rethrown ''common_syscall_handler'' ''src/task/syscall.c'' 42) s) (\<lambda>s1. Inr (err, s1))
      else
        andthen (read_task (get_current_task s) s) (\<lambda>task.
        andthen (kprint (TRACE LOG_FORMAT [VStr (Some (c_string (ucontext task + UCONTEXT_NAME) (mem s))),
            VInt str_len, VStr (if str_ptr = NULL then None else Some (c_string str_ptr (mem s)))]) s)
          (\<lambda>s1. Inr (NO_ERROR, s1)))))"

text \<open>
  The default case: both lines of \<^verbatim>\<open>CHECK_FAIL_ERROR\<close>. The number it prints is read after
  the return register, the same one, was cleared.
\<close>

definition unknown_syscall :: "task_regs \<Rightarrow> kernel \<Rightarrow> (err_t \<times> kernel) run" where
  "unknown_syscall regs s =
     andthen (kprint (ERROR ''unknown syscall %d'' [VInt (ar regs ! 2)]) s) (\<lambda>s1.
     andthen (kprint (check_failed ERROR_INVALID_SYSCALL ''common_syscall_handler'' ''src/task/syscall.c'' 49) s1) (\<lambda>s2.
     Inr (ERROR_INVALID_SYSCALL, s2)))"

definition common_syscall_handler :: "platform \<Rightarrow> task_regs \<Rightarrow> kernel \<Rightarrow> (task_regs \<times> kernel) run" where
  "common_syscall_handler pf regs s =
     (let syscall_num = ar regs ! SYSCALL_NUM; regs1 = set_ret 0 regs in
      if syscall_num = SYSCALL_SCHED_PARK then scheduler_on_park pf regs1 s
      else if syscall_num = SYSCALL_SCHED_YIELD then scheduler_on_schedule regs1 s
      else if syscall_num = SYSCALL_SCHED_DROP then scheduler_on_drop regs1 s
      else
        andthen (if syscall_num = SYSCALL_LOG then log_syscall regs1 s else unknown_syscall regs1 s)
          (\<lambda>(err, s1).
        Inr (if IS_ERROR err then set_ret (- err_code err) regs1 else regs1, s1)))"

subsection \<open>The interrupt handler\<close>

text \<open>An interrupt other than the watchdog's is only reported on the console.\<close>

fun warn_interrupts :: "nat list \<Rightarrow> kernel \<Rightarrow> kernel run" where
  "warn_interrupts [] s = Inr s"
| "warn_interrupts (i # is) s =
     andthen (kprint (WARN (CHR 0x09 # ''Got interrupt: #%d'') [VInt (of_nat i)]) s) (warn_interrupts is)"

definition dport_log_interrupt :: "kernel \<Rightarrow> kernel run" where
  "dport_log_interrupt s =
     andthen (kprint (TRACE ''Interrupts:'' []) s) (\<lambda>s1.
     warn_interrupts (dport_pending_interrupts (dport s1)) s1)"

definition common_interrupt_handler :: "task_regs \<Rightarrow> kernel \<Rightarrow> (task_regs \<times> kernel) run" where
  "common_interrupt_handler regs s =
     (let (handled, t) = wdt_handle (timg s); s1 = s\<lparr>timg := t\<rparr>
      in if handled then scheduler_on_schedule regs s1
         else andthen (dport_log_interrupt s1) (\<lambda>s2. Inr (regs, s2)))"

subsection \<open>Lemmas\<close>

lemma says_syscall_lines [simp]:
  "says (TRACE ''Interrupts:'' [])" "says (WARN (CHR 0x09 # ''Got interrupt: #%d'') [VInt v])"
  "says (ERROR ''unknown syscall %d'' [VInt v])"
  by (rule says_plain, simp)
    (rule says_lines, simp add: printable_def CRLF_def spec_simps, simp add: has_def FLAGS_defs)+

lemma warn_interrupts_says: "\<exists>con. warn_interrupts is s = Inr (s\<lparr>console := con\<rparr>)"
proof (induction "is" arbitrary: s)
  case Nil
  show ?case by (intro exI [of _ "console s"]) simp
next
  case (Cons i "is")
  obtain con where "warn_interrupts is (say (WARN (CHR 0x09 # ''Got interrupt: #%d'') [VInt (of_nat i)]) s) =
      Inr ((say (WARN (CHR 0x09 # ''Got interrupt: #%d'') [VInt (of_nat i)]) s)\<lparr>console := con\<rparr>)" using Cons by blast
  then show ?case by (auto simp: say_def)
qed

lemma dport_log_interrupt_says: "\<exists>con. dport_log_interrupt s = Inr (s\<lparr>console := con\<rparr>)"
proof -
  obtain con where "warn_interrupts (dport_pending_interrupts (dport s)) (say (TRACE ''Interrupts:'' []) s) =
      Inr ((say (TRACE ''Interrupts:'' []) s)\<lparr>console := con\<rparr>)" using warn_interrupts_says by blast
  then show ?thesis by (auto simp: dport_log_interrupt_def say_def)
qed

lemma unknown_syscall_says: "\<exists>con. unknown_syscall r s = Inr (ERROR_INVALID_SYSCALL, s\<lparr>console := con\<rparr>)"
  by (simp add: unknown_syscall_def) (auto simp: say_def)

lemma set_ret_wf [simp]: "regs_wf (set_ret v r) = regs_wf r"
  by (simp add: regs_wf_def set_ret_def)

lemma cstring_no_nul: "NUL \<notin> set (cstring n a m)"
proof (induction n a m rule: cstring.induct)
  case (1 n a m)
  have "unat (m a) < 256" using unsigned_less [of "m a"] by simp
  then have "char_of (unat (m a)) = NUL \<longleftrightarrow> m a = 0"
    by (simp add: char_of_eq_iff take_bit_eq_mod unat_eq_0)
  with 1 show ?case by (subst cstring.simps) auto
qed

lemma takeWhile_cstring [simp]: "takeWhile (\<lambda>c. c \<noteq> NUL) (c_string a m) = c_string a m"
  using cstring_no_nul [of _ a m] by (auto simp: takeWhile_eq_all_conv c_string_def)

text \<open>What the log line says: the first 64 characters of the name, then at most the requested ones.\<close>

lemma log_text:
  "format_text (''[*] '' @ LOG_FORMAT @ CRLF) [VStr (Some n), VInt l, VStr (Some s)] =
     Inr (''[*] '' @ take 64 (takeWhile (\<lambda>c. c \<noteq> NUL) n) @ '': '' @
       take (if sint l > 0 then unat l else 0) (takeWhile (\<lambda>c. c \<noteq> NUL) s) @ CRLF)"
proof -
  have sp: "spaces x 0 = []" for x by (simp add: spaces_def)
  show ?thesis
    by (simp add: LOG_FORMAT_def CRLF_def spec_simps, simp add: string_text_def cut_text_def sp number_simps Let_def)
qed

end
