(* ===== verification/System.thy ===== *)
theory System
  imports Syscall
begin

section \<open>The running system\<close>

text \<open>
  Steps of the whole machine on one core: the running task executes user code, which may change
  its registers and the memory the MMU tables grant to the current hardware PID; it makes a
  system call; or an interrupt arrives, with whatever the watchdog's status register shows.
  \<open>system_inv\<close> holds in every reachable state, and no step touches the pages of a task that is
  not running.
\<close>

subsection \<open>Steps\<close>

text \<open>
  The hardware compares a page's access rights with the current PID, which the trap exit set
  from \<^verbatim>\<open>PIDCTRL_PID_NEW_REG\<close>.
\<close>

definition user_writable :: "kernel \<Rightarrow> u32 set" where
  "user_writable s = {x. \<exists>q < 16.
     (x \<in> data_page q \<and> ucast (access_rights (DPORT_DMMU_TABLE (dport s) q)) = PIDCTRL_PID_NEW_REG (pidctrl s)) \<or>
     (x \<in> code_page q \<and> ucast (access_rights (DPORT_IMMU_TABLE (dport s) q)) = PIDCTRL_PID_NEW_REG (pidctrl s))}"

definition raise_wdt :: "u32 \<Rightarrow> kernel \<Rightarrow> kernel" where
  "raise_wdt v s = s\<lparr>timg := (timg s)\<lparr>timg_regs := (timg_regs (timg s))(TIMG0_INT_ST := v)\<rparr>\<rparr>"

type_synonym machine = "task_regs \<times> kernel"

inductive system_step :: "platform \<Rightarrow> machine \<Rightarrow> machine \<Rightarrow> bool" for pf where
  user: "regs_wf r' \<Longrightarrow> (\<And>x. x \<notin> user_writable s \<Longrightarrow> m' x = mem s x) \<Longrightarrow>
    system_step pf (r, s) (r', s\<lparr>mem := m'\<rparr>)"
| syscall: "common_syscall_handler pf r s = Inr (r', s') \<Longrightarrow> system_step pf (r, s) (r', s')"
| interrupt: "common_interrupt_handler r (raise_wdt v s) = Inr (r', s') \<Longrightarrow> system_step pf (r, s) (r', s')"

inductive reachable :: "platform \<Rightarrow> machine \<Rightarrow> machine \<Rightarrow> bool" for pf and m where
  start: "reachable pf m m"
| step: "reachable pf m m1 \<Longrightarrow> system_step pf m1 m2 \<Longrightarrow> reachable pf m m2"

text \<open>Runs in which the given task is never the running one.\<close>

inductive reachable_without :: "platform \<Rightarrow> ptr \<Rightarrow> machine \<Rightarrow> machine \<Rightarrow> bool" for pf and p and m where
  start: "get_current_task (snd m) \<noteq> p \<Longrightarrow> reachable_without pf p m m"
| step: "reachable_without pf p m m1 \<Longrightarrow> system_step pf m1 m2 \<Longrightarrow> get_current_task (snd m2) \<noteq> p \<Longrightarrow>
    reachable_without pf p m m2"

subsection \<open>Invariant and pages\<close>

definition system_inv :: "machine \<Rightarrow> bool" where
  "system_inv m \<longleftrightarrow> (let (r, s) = m in
     (\<exists>xs. kernel_inv s xs) \<and> get_current_task s \<noteq> NULL \<and> switches_to s (get_current_task s) \<and>
     regs_wf r \<and> park_callback (get_cpu_context s) = NULL)"

lemma system_invI:
  "kernel_inv s xs \<Longrightarrow> get_current_task s \<noteq> NULL \<Longrightarrow> switches_to s (get_current_task s) \<Longrightarrow> regs_wf r \<Longrightarrow>
     park_callback (get_cpu_context s) = NULL \<Longrightarrow> system_inv (r, s)"
  unfolding system_inv_def by auto

definition task_memory :: "kernel \<Rightarrow> ptr \<Rightarrow> u32 set" where
  "task_memory s p = (case tasks s p of None \<Rightarrow> {} | Some t \<Rightarrow>
     (\<Union>q \<in> pages_of (dmmu (task_mmu t)). data_page q) \<union> (\<Union>q \<in> pages_of (immu (task_mmu t)). code_page q))"

lemma task_memory_disjoint:
  assumes ok: "tasks_ok (tasks s)" and "p \<noteq> p'"
  shows "task_memory s p \<inter> task_memory s p' = {}"
proof (cases "tasks s p = None \<or> tasks s p' = None")
  case True
  then show ?thesis by (auto simp: task_memory_def)
next
  case False
  then obtain t t' where t: "tasks s p = Some t" "tasks s p' = Some t'" by auto
  have b: "pages_of (dmmu (task_mmu u)) \<subseteq> {..<16}" "pages_of (immu (task_mmu u)) \<subseteq> {..<16}"
    if "tasks s r = Some u" for r u
    using tasks_okD(2,3) [OF ok that] by (auto simp: space_wf_def)
  have "data_page q \<inter> data_page q' = {}" if "q \<in> pages_of (dmmu (task_mmu t))" "q' \<in> pages_of (dmmu (task_mmu t'))" for q q'
    using tasks_ok_disjoint(2) [OF ok t assms(2)] that b(1) [OF t(1)] b(1) [OF t(2)]
    by (intro data_pages_disjoint) auto
  moreover have "code_page q \<inter> code_page q' = {}" if "q \<in> pages_of (immu (task_mmu t))" "q' \<in> pages_of (immu (task_mmu t'))" for q q'
    using tasks_ok_disjoint(1) [OF ok t assms(2)] that b(2) [OF t(1)] b(2) [OF t(2)]
    by (intro code_pages_disjoint) auto
  moreover have "code_page q \<inter> data_page q' = {}" if "q < 16" "q' < 16" for q q'
    using code_data_disjoint that .
  ultimately show ?thesis
    using t b(1) [OF t(1)] b(1) [OF t(2)] b(2) [OF t(1)] b(2) [OF t(2)]
    unfolding task_memory_def by (simp add: Int_Un_distrib Int_Un_distrib2) blast
qed

lemma uctx_in_task_memory:
  assumes "uctx_ok (tasks s)" "tasks s p = Some t" "x \<in> region (ucontext t + UCONTEXT_REGS) 292"
  shows "x \<in> task_memory s p"
proof -
  obtain q where q: "maps_page (dmmu (task_mmu t)) 15 q" "ucontext t = DATA_PAGE_ADDR (of_nat q)"
    using assms(1,2) unfolding uctx_ok_def by blast
  then have "x \<in> data_page q" "q \<in> pages_of (dmmu (task_mmu t))"
    using assms(3) uctx_region by (auto simp: pages_of_def)
  then show ?thesis using assms(2) by (auto simp: task_memory_def)
qed

lemma task_memory_frame:
  assumes "same_maps (tasks s) (tasks s')" shows "task_memory s' p = task_memory s p"
proof -
  have e: "map_option (\<lambda>t. (immu (task_mmu t), dmmu (task_mmu t), ucontext t)) (tasks s' p) =
      map_option (\<lambda>t. (immu (task_mmu t), dmmu (task_mmu t), ucontext t)) (tasks s p)"
    using assms by (simp add: same_maps_def)
  show ?thesis
    by (cases "tasks s p"; cases "tasks s' p") (use e in \<open>auto simp: task_memory_def\<close>)
qed

text \<open>User code can write only to pages of the running task.\<close>

lemma rights_eq:
  assumes "k < 6"
  shows "ucast (r :: 3 word) = (pid_of_slot k :: u32) \<longleftrightarrow> r = pid_of_slot k"
proof -
  have "unat r < 8" using unsigned_less [of r] by simp
  then show ?thesis
    using assms by (simp add: word_unat_eq_iff unsigned_ucast_eq take_bit_eq_mod unat_pid_of_slot_u32)
qed

lemma user_writable_own:
  assumes inv: "mmu_inv s" and sw: "switches_to s c" and t: "tasks s c = Some t"
  shows "user_writable s \<subseteq> task_memory s c"
proof
  fix x assume "x \<in> user_writable s"
  obtain k where k: "k < 6" "PIDCTRL_PID_NEW_REG (pidctrl s) = pid_of_slot k"
    "bound_space (the_binding k s) = c" using sw by (auto simp: switches_to_def)
  have c0: "c \<noteq> NULL" using inv tasks_okD(4) [of "tasks s" c t] t by (simp add: mmu_inv_def)
  have own: "owner sel s k = Some (sel (task_mmu t))" for sel by (simp add: owner_def k(3) t c0)
  have mp: "maps_page (immu (task_mmu t)) (unat (address (DPORT_IMMU_TABLE (dport s) q))) q"
    if "q < 16" "access_rights (DPORT_IMMU_TABLE (dport s) q) = pid_of_slot k" for q
    using inv k(1) that own [of immu] unfolding mmu_inv_def tbl_ok_def by fastforce
  have mp': "maps_page (dmmu (task_mmu t)) (unat (address (DPORT_DMMU_TABLE (dport s) q))) q"
    if "q < 16" "access_rights (DPORT_DMMU_TABLE (dport s) q) = pid_of_slot k" for q
    using inv k(1) that own [of dmmu] unfolding mmu_inv_def tbl_ok_def by fastforce
  from \<open>x \<in> user_writable s\<close> obtain q where q: "q < 16"
    and "x \<in> data_page q \<and> access_rights (DPORT_DMMU_TABLE (dport s) q) = pid_of_slot k \<or>
         x \<in> code_page q \<and> access_rights (DPORT_IMMU_TABLE (dport s) q) = pid_of_slot k"
    unfolding user_writable_def k(2) using rights_eq [OF k(1)] by blast
  then show "x \<in> task_memory s c"
    using mp [OF q] mp' [OF q] t by (auto simp: task_memory_def pages_of_def)
qed

text \<open>And it can write to all of them: the tables grant every page the running task maps.\<close>

lemma user_writable_eq:
  assumes inv: "mmu_inv s" and sw: "switches_to s c" and t: "tasks s c = Some t"
  shows "user_writable s = task_memory s c"
proof
  show "user_writable s \<subseteq> task_memory s c" by (rule user_writable_own [OF assms])
  obtain k where k: "k < 6" "PIDCTRL_PID_NEW_REG (pidctrl s) = pid_of_slot k"
    "bound_space (the_binding k s) = c" using sw by (auto simp: switches_to_def)
  have tok: "tasks_ok (tasks s)" using inv by (simp add: mmu_inv_def)
  have own: "owner sel s k = Some (sel (task_mmu t))" for sel
    using tasks_okD(4) [OF tok t] by (simp add: owner_def k(3) t)
  have grants: "access_rights (tbl q) = pid_of_slot k" if "tbl_ok tbl (owner sel s)" "maps_page (sel (task_mmu t)) v q" "q < 16" for tbl sel v q
    using that k(1) own [of sel] unfolding tbl_ok_def by blast
  have rt: "q < 16 \<and> access_rights (DPORT_DMMU_TABLE (dport s) q) = pid_of_slot k" if "q \<in> pages_of (dmmu (task_mmu t))" for q
  proof -
    have "q < 16" using that tasks_okD(3) [OF tok t] by (auto simp: space_wf_def)
    then show ?thesis using that grants [of _ dmmu _ q] inv by (auto simp: mmu_inv_def pages_of_def)
  qed
  have rt': "q < 16 \<and> access_rights (DPORT_IMMU_TABLE (dport s) q) = pid_of_slot k" if "q \<in> pages_of (immu (task_mmu t))" for q
  proof -
    have "q < 16" using that tasks_okD(2) [OF tok t] by (auto simp: space_wf_def)
    then show ?thesis using that grants [of _ immu _ q] inv by (auto simp: mmu_inv_def pages_of_def)
  qed
  show "task_memory s c \<subseteq> user_writable s"
  proof
    fix x assume "x \<in> task_memory s c"
    then obtain q where "q \<in> pages_of (dmmu (task_mmu t)) \<and> x \<in> data_page q \<or> q \<in> pages_of (immu (task_mmu t)) \<and> x \<in> code_page q"
      using t by (auto simp: task_memory_def)
    then show "x \<in> user_writable s"
      using rt [of q] rt' [of q] unfolding user_writable_def k(2) rights_eq [OF k(1)] by blast
  qed
qed

subsection \<open>Every step keeps the invariant and the other tasks' memory\<close>

text \<open>What a step promises about tasks other than the one that was running.\<close>

definition leaves_others :: "kernel \<Rightarrow> kernel \<Rightarrow> bool" where
  "leaves_others s s' \<longleftrightarrow> same_maps (tasks s) (tasks s') \<and>
     (\<forall>p x. p \<noteq> get_current_task s \<longrightarrow> x \<in> task_memory s p \<longrightarrow> mem s' x = mem s x)"

lemma same_maps_trans: "same_maps ts ts' \<Longrightarrow> same_maps ts' ts'' \<Longrightarrow> same_maps ts ts''"
  by (simp add: same_maps_def)

lemma handler_leaves_others:
  assumes inv: "kernel_inv s xs" and c: "get_current_task s \<noteq> NULL"
    and "sched_frame s s'" "kernel_writes s s'"
  shows "leaves_others s s'"
proof -
  have tok: "tasks_ok (tasks s)" and uok: "uctx_ok (tasks s)"
    using inv by (simp_all add: kernel_inv_def sched_inv_def mmu_inv_def)
  obtain t where t: "tasks s (get_current_task s) = Some t"
    using inv c by (auto simp: kernel_inv_def sched_inv_def)
  have "mem s' x = mem s x" if "p \<noteq> get_current_task s" "x \<in> task_memory s p" for p x
  proof -
    have "x \<notin> region (ucontext t + UCONTEXT_REGS) 292"
      using uctx_in_task_memory [OF uok t] task_memory_disjoint [OF tok that(1)] that(2) by blast
    then show ?thesis using assms(4) t by (simp add: kernel_writes_def)
  qed
  then show ?thesis using assms(3) by (simp add: leaves_others_def sched_frame_def)
qed

lemma on_schedule_step:
  assumes inv: "system_inv (r, s)" and run: "scheduler_on_schedule r s = Inr (r', s')"
  shows "system_inv (r', s') \<and> leaves_others s s'"
proof -
  obtain xs where ki: "kernel_inv s xs" and c: "get_current_task s \<noteq> NULL" and wf: "regs_wf r"
    and cb: "park_callback (get_cpu_context s) = NULL"
    using inv by (auto simp: system_inv_def)
  have si: "sched_inv s xs" and pi: "pages_inv s" using ki by (simp_all add: kernel_inv_def)
  obtain x ys r1 s1 where s1: "scheduler_on_schedule r s = Inr (r1, s1)" "sched_inv s1 ys"
    "get_current_task s1 = x" "xs @ [get_current_task s] = x # ys" "saved_regs s1 x = Some r1"
    "switches_to s1 x" "sched_frame s s1" "kernel_writes s s1"
    by (rule on_schedule_ok [OF si refl c wf]) auto
  have e: "r' = r1" "s' = s1" using s1(1) run by simp_all
  have "x \<in> set (xs @ [get_current_task s])" by (simp only: s1(4)) simp
  then have "x \<noteq> NULL"
    using c si grq.rep_elem [of s xs x] by (auto simp: sched_inv_def run_queue_elem_def queue_elem_def)
  moreover have "regs_wf r1" using s1(5) by (auto simp: saved_regs_def)
  moreover have "kernel_inv s1 ys" using s1(2) pages_inv_frame [OF pi s1(7)] by (simp add: kernel_inv_def)
  moreover have "park_callback (get_cpu_context s1) = NULL" using s1(7) cb by (simp add: sched_frame_def)
  ultimately have "system_inv (r1, s1)" using s1(3,6) by (intro system_invI) simp_all
  then show ?thesis using handler_leaves_others [OF ki c s1(7,8)] e by simp
qed

lemma on_park_step:
  assumes inv: "system_inv (r, s)" and run: "scheduler_on_park pf r s = Inr (r', s')"
  shows "system_inv (r', s') \<and> leaves_others s s'"
proof -
  obtain xs where ki: "kernel_inv s xs" and c: "get_current_task s \<noteq> NULL" and wf: "regs_wf r"
    and cb: "park_callback (get_cpu_context s) = NULL"
    using inv by (auto simp: system_inv_def)
  have si: "sched_inv s xs" and pi: "pages_inv s" using ki by (simp_all add: kernel_inv_def)
  obtain x ys where xs: "xs = x # ys"
    using on_park_last [OF _ refl c wf cb, of pf] si run by (cases xs) auto
  obtain r1 s1 where s1: "scheduler_on_park pf r s = Inr (r1, s1)" "sched_inv s1 ys"
    "get_current_task s1 = x" "((saved_regs s)(get_current_task s \<mapsto> r)) x = Some r1"
    "switches_to s1 x" "sched_frame s s1" "kernel_writes s s1"
    by (rule on_park_ok [OF si [unfolded xs] refl c wf cb])
  have e: "r' = r1" "s' = s1" using s1(1) run by simp_all
  have "x \<noteq> NULL"
    using si xs grq.rep_elem [of s xs x] by (simp add: sched_inv_def run_queue_elem_def queue_elem_def)
  moreover have "regs_wf r1" using s1(4) wf by (auto simp: saved_regs_def split: if_splits)
  moreover have "kernel_inv s1 ys" using s1(2) pages_inv_frame [OF pi s1(6)] by (simp add: kernel_inv_def)
  moreover have "park_callback (get_cpu_context s1) = NULL" using s1(6) cb by (simp add: sched_frame_def)
  ultimately have "system_inv (r1, s1)" using s1(3,5) by (intro system_invI) simp_all
  then show ?thesis using handler_leaves_others [OF ki c s1(6,7)] e by simp
qed

lemma log_syscall_frame:
  "log_syscall r s = Inr (e, s') \<Longrightarrow> \<exists>con. s' = s\<lparr>console := con\<rparr>"
proof -
  assume run: "log_syscall r s = Inr (e, s')"
  obtain er a where g: "get_user_ptr (ar r ! SYSCALL_ARG1) (ar r ! SYSCALL_ARG2) s = Inr (er, a)"
    using run by (cases "get_user_ptr (ar r ! SYSCALL_ARG1) (ar r ! SYSCALL_ARG2) s")
      (auto simp: log_syscall_def Let_def)
  obtain t where t: "read_task (get_current_task s) s = Inr t"
    using g by (cases "read_task (get_current_task s) s") (simp_all add: get_user_ptr_def)
  show ?thesis
  proof (cases "IS_ERROR er")
    case True
    then show ?thesis using run g by (auto simp: log_syscall_def Let_def say_def)
  next
    case False
    let ?p = "TRACE LOG_FORMAT [VStr (Some (c_string (ucontext t + UCONTEXT_NAME) (mem s))),
      VInt (ar r ! SYSCALL_ARG2), VStr (if a = NULL then None else Some (c_string a (mem s)))] (console s)"
    have "log_syscall r s = andthen ?p (\<lambda>con. Inr (NO_ERROR, s\<lparr>console := con\<rparr>))"
      using g t False by (cases ?p) (simp_all add: log_syscall_def Let_def kprint_def)
    then show ?thesis using run by (cases ?p) auto
  qed
qed

lemma unknown_syscall_frame:
  "unknown_syscall r s = Inr (e, s') \<Longrightarrow> \<exists>con. s' = s\<lparr>console := con\<rparr>"
  using unknown_syscall_says [of r s] by auto

lemma log_interrupt_frame:
  "dport_log_interrupt s = Inr s' \<Longrightarrow> \<exists>con. s' = s\<lparr>console := con\<rparr>"
  using dport_log_interrupt_says [of s] by auto

lemma console_step:
  assumes "system_inv (r, s)" "regs_wf r'"
  shows "system_inv (r', s\<lparr>console := con\<rparr>) \<and> leaves_others s (s\<lparr>console := con\<rparr>)"
proof -
  let ?s' = "s\<lparr>console := con\<rparr>"
  obtain xs where ki: "kernel_inv s xs" using assms(1) by (auto simp: system_inv_def)
  have bs: "the_binding k ?s' = the_binding k s" for k by (simp add: the_binding_def)
  have cur: "get_current_task ?s' = get_current_task s" by (simp add: get_current_task_def)
  have "kernel_inv ?s' xs" using ki by simp
  moreover have "switches_to ?s' p = switches_to s p" for p by (simp add: switches_to_def bs)
  ultimately show ?thesis
    using assms cur by (auto simp: system_inv_def leaves_others_def same_maps_def)
qed

lemma raise_wdt_inv:
  assumes "system_inv (r, s)" and "s' = s\<lparr>timg := t\<rparr>"
  shows "system_inv (r, s') \<and> leaves_others s s'"
proof -
  obtain xs where ki: "kernel_inv s xs" using assms(1) by (auto simp: system_inv_def)
  have bs: "the_binding k s' = the_binding k s" for k by (simp add: assms(2))
  have cur: "get_current_task s' = get_current_task s" by (simp add: assms(2) get_current_task_def)
  have "mmu_inv s'"
    by (rule mmu_inv_same [of s, OF _ _ _ _ bs]) (use ki assms(2) in \<open>simp_all add: kernel_inv_def sched_inv_def\<close>)
  then have "kernel_inv s' xs"
    using ki cur assms(2) by (simp add: kernel_inv_def sched_inv_def run_queue_def pages_inv_def)
  moreover have "switches_to s' p = switches_to s p" for p by (simp add: switches_to_def bs) (simp add: assms(2))
  ultimately show ?thesis
    using assms cur by (auto simp: system_inv_def leaves_others_def same_maps_def)
qed

lemma leaves_others_trans:
  "leaves_others s s' \<Longrightarrow> leaves_others s' s'' \<Longrightarrow> get_current_task s' = get_current_task s \<Longrightarrow> leaves_others s s''"
  unfolding leaves_others_def using task_memory_frame by (metis same_maps_trans)

lemma drop_stops: "system_inv (r, s) \<Longrightarrow> scheduler_on_drop r' s = Inl (Assert_failed ''TODO: release_task'')"
  using on_drop_stops [OF _ refl] by (auto simp: system_inv_def kernel_inv_def)

lemma user_step_ok:
  assumes inv: "system_inv (r, s)" and wf: "regs_wf r'" and m: "\<And>x. x \<notin> user_writable s \<Longrightarrow> m' x = mem s x"
  shows "system_inv (r', s\<lparr>mem := m'\<rparr>) \<and> leaves_others s (s\<lparr>mem := m'\<rparr>)"
proof -
  let ?s' = "s\<lparr>mem := m'\<rparr>"
  obtain xs where ki: "kernel_inv s xs" and c: "get_current_task s \<noteq> NULL"
    and sw: "switches_to s (get_current_task s)" using inv by (auto simp: system_inv_def)
  have mi: "mmu_inv s" and tok: "tasks_ok (tasks s)"
    using ki by (simp_all add: kernel_inv_def sched_inv_def mmu_inv_def)
  obtain t where t: "tasks s (get_current_task s) = Some t"
    using ki c by (auto simp: kernel_inv_def sched_inv_def)
  have bs: "the_binding k ?s' = the_binding k s" for k by simp
  have cur: "get_current_task ?s' = get_current_task s" by (simp add: get_current_task_def)
  have "mmu_inv ?s'" by (rule mmu_inv_same [OF mi _ _ _ bs]) simp_all
  then have "kernel_inv ?s' xs"
    using ki cur by (simp add: kernel_inv_def sched_inv_def run_queue_def pages_inv_def)
  moreover have "switches_to ?s' p = switches_to s p" for p by (simp add: switches_to_def)
  moreover have "m' x = mem s x" if "p \<noteq> get_current_task s" "x \<in> task_memory s p" for p x
    using m user_writable_own [OF mi sw t] task_memory_disjoint [OF tok that(1)] that(2) by blast
  ultimately show ?thesis
    using inv wf cur by (auto simp: system_inv_def leaves_others_def same_maps_def)
qed

lemma syscall_step_ok:
  assumes inv: "system_inv (r, s)" and run: "common_syscall_handler pf r s = Inr (r', s')"
  shows "system_inv (r', s') \<and> leaves_others s s'"
proof -
  let ?n = "ar r ! SYSCALL_NUM" and ?r = "set_ret 0 r"
  have inv0: "system_inv (?r, s)" using inv by (simp add: system_inv_def)
  have wf: "regs_wf r" using inv by (simp add: system_inv_def)
  consider "?n = SYSCALL_SCHED_PARK" | "?n = SYSCALL_SCHED_YIELD" | "?n = SYSCALL_SCHED_DROP"
    | "?n \<notin> {SYSCALL_SCHED_PARK, SYSCALL_SCHED_YIELD, SYSCALL_SCHED_DROP}" by blast
  then show ?thesis
  proof cases
    case 1
    then have "scheduler_on_park pf ?r s = Inr (r', s')"
      using run by (simp add: common_syscall_handler_def)
    then show ?thesis by (rule on_park_step [OF inv0])
  next
    case 2
    then have "scheduler_on_schedule ?r s = Inr (r', s')"
      using run by (simp add: common_syscall_handler_def SYSCALL_SCHED_PARK_def SYSCALL_SCHED_YIELD_def)
    then show ?thesis by (rule on_schedule_step [OF inv0])
  next
    case 3
    then have "scheduler_on_drop ?r s = Inr (r', s')"
      using run by (simp add: common_syscall_handler_def SYSCALL_SCHED_PARK_def SYSCALL_SCHED_YIELD_def
          SYSCALL_SCHED_DROP_def)
    then show ?thesis using drop_stops [OF inv, of ?r] by simp
  next
    case 4
    let ?h = "if ?n = SYSCALL_LOG then log_syscall ?r s else unknown_syscall ?r s"
    have e: "common_syscall_handler pf r s =
        andthen ?h (\<lambda>(err, s1). Inr (if IS_ERROR err then set_ret (- err_code err) ?r else ?r, s1))"
      using 4 by (simp add: common_syscall_handler_def Let_def)
    obtain err s1 where "?h = Inr (err, s1)"
      and r1: "r' = (if IS_ERROR err then set_ret (- err_code err) ?r else ?r)" "s' = s1"
      using run unfolding e andthen_eq_Inr by auto
    then have "\<exists>con. s1 = s\<lparr>console := con\<rparr>"
      using log_syscall_frame [of ?r s err s1] unknown_syscall_frame [of ?r s err s1]
      by (cases "?n = SYSCALL_LOG") simp_all
    then obtain con where "s' = s\<lparr>console := con\<rparr>" "regs_wf r'" using r1 wf by auto
    then show ?thesis using console_step [OF inv, of r' con] by simp
  qed
qed

lemma interrupt_step_ok:
  assumes inv: "system_inv (r, s)" and run: "common_interrupt_handler r (raise_wdt v s) = Inr (r', s')"
  shows "system_inv (r', s') \<and> leaves_others s s'"
proof -
  let ?s0 = "raise_wdt v s"
  obtain h t where h: "wdt_handle (timg ?s0) = (h, t)" by fastforce
  let ?s1 = "?s0\<lparr>timg := t\<rparr>"
  have e: "?s1 = s\<lparr>timg := t\<rparr>" by (simp add: raise_wdt_def)
  note i1 = raise_wdt_inv [OF inv e]
  have cur: "get_current_task ?s1 = get_current_task s" by (simp add: e get_current_task_def)
  show ?thesis
  proof (cases h)
    case True
    then have "scheduler_on_schedule r ?s1 = Inr (r', s')"
      using run h by (simp add: common_interrupt_handler_def)
    with i1 show ?thesis using on_schedule_step [of r ?s1 r' s'] leaves_others_trans [OF _ _ cur] by blast
  next
    case False
    then obtain con where r': "r' = r" "s' = ?s1\<lparr>console := con\<rparr>"
      using run h log_interrupt_frame [of ?s1] by (auto simp: common_interrupt_handler_def andthen_eq_Inr)
    have "regs_wf r" using inv by (simp add: system_inv_def)
    with i1 r' show ?thesis
      using console_step [of r ?s1 r con] leaves_others_trans [OF _ _ cur] by blast
  qed
qed

theorem system_step_ok:
  assumes "system_inv m" "system_step pf m m'"
  shows "system_inv m' \<and> leaves_others (snd m) (snd m')"
  using assms(2,1)
proof cases
  case (user r' s m' r)
  then show ?thesis using user_step_ok [of r s r' m'] assms(1) by simp
next
  case (syscall r s r' s')
  then show ?thesis using syscall_step_ok [of r s pf r' s'] assms(1) by simp
next
  case (interrupt r v s r' s')
  then show ?thesis using interrupt_step_ok [of r s v r' s'] assms(1) by simp
qed

text \<open>Hence the invariant holds in every reachable state.\<close>

lemma reachable_inv: "reachable pf m m' \<Longrightarrow> system_inv m \<Longrightarrow> system_inv m'"
  by (induction rule: reachable.induct) (auto dest: system_step_ok)

text \<open>
  While a task is not running, nothing in its pages changes, so its saved register file, which
  lies in them, is what it was when it was last suspended.
\<close>

definition keeps_task :: "ptr \<Rightarrow> kernel \<Rightarrow> kernel \<Rightarrow> bool" where
  "keeps_task p s s' \<longleftrightarrow> same_maps (tasks s) (tasks s') \<and> (\<forall>x \<in> task_memory s p. mem s' x = mem s x)"

lemma leaves_keeps: "leaves_others s s' \<Longrightarrow> p \<noteq> get_current_task s \<Longrightarrow> keeps_task p s s'"
  by (auto simp: leaves_others_def keeps_task_def)

lemma keeps_task_trans: "keeps_task p s s' \<Longrightarrow> keeps_task p s' s'' \<Longrightarrow> keeps_task p s s''"
  unfolding keeps_task_def using task_memory_frame same_maps_trans by metis

lemma keeps_task_regs:
  assumes "uctx_ok (tasks s)" "keeps_task p s s'"
  shows "saved_regs s' p = saved_regs s p"
proof -
  have e: "map_option (\<lambda>t. (immu (task_mmu t), dmmu (task_mmu t), ucontext t)) (tasks s' p) =
      map_option (\<lambda>t. (immu (task_mmu t), dmmu (task_mmu t), ucontext t)) (tasks s p)"
    using assms(2) by (simp add: keeps_task_def same_maps_def)
  show ?thesis
  proof (cases "tasks s p")
    case None
    with e show ?thesis by (simp add: saved_regs_def)
  next
    case (Some t)
    then obtain t' where t': "tasks s' p = Some t'" "ucontext t' = ucontext t"
      using e by (cases "tasks s' p") auto
    have "read_regs (ucontext t + UCONTEXT_REGS) (mem s') = read_regs (ucontext t + UCONTEXT_REGS) (mem s)"
      by (rule read_regs_cong)
        (use uctx_in_task_memory [OF assms(1) Some] assms(2) in \<open>auto simp: keeps_task_def\<close>)
    then show ?thesis using Some t' by (simp add: saved_regs_def)
  qed
qed

lemma reachable_without_keeps:
  assumes "reachable_without pf p m m'" "system_inv m"
  shows "system_inv m' \<and> keeps_task p (snd m) (snd m')"
  using assms
proof (induction rule: reachable_without.induct)
  case start
  then show ?case by (simp add: keeps_task_def same_maps_def)
next
  case (step m1 m2)
  have nc: "p \<noteq> get_current_task (snd m1)" using step.hyps(1) by cases auto
  note ih = step.IH [OF step.prems]
  have "system_inv m2" "leaves_others (snd m1) (snd m2)"
    using ih system_step_ok [OF _ step.hyps(2)] by simp_all
  then show ?case using ih leaves_keeps [OF _ nc] keeps_task_trans by blast
qed

end
