(* ===== verification/App_Loader.thy ===== *)
theory App_Loader
  imports Sched_Ready
begin

section \<open>The application loader\<close>

text \<open>
  \<^verbatim>\<open>task/loader.c\<close>: an application image is a header, the code bytes and the data bytes. The
  loader checks the header, creates a task, gives it a page for every started 8 KB of code and
  of data, copies the image into them and readies the task.
\<close>

subsection \<open>The image header\<close>

record app_header =
  app_magic :: u32
  code_size :: u32
  data_size :: u32
  bss_size :: u32
  app_entry :: u32

definition APP_HEADER_MAGIC :: u32 where "APP_HEADER_MAGIC = 0x20505041"
definition APP_HEADER_SIZE :: u32 where "APP_HEADER_SIZE = 20"

definition read_app_header :: "memory \<Rightarrow> u32 \<Rightarrow> app_header" where
  "read_app_header m a = \<lparr>app_magic = load32 m a, code_size = load32 m (a + 4), data_size = load32 m (a + 8),
     bss_size = load32 m (a + 12), app_entry = load32 m (a + 16)\<rparr>"

text \<open>
  The four checks before the task is created: the line of the first that fails. The sums wrap
  around.
\<close>

definition check_app_header :: "app_header \<Rightarrow> u32 \<Rightarrow> u32 option" where
  "check_app_header h app_size =
     (if \<not> app_magic h = APP_HEADER_MAGIC then Some 17
      else if \<not> app_size \<ge> APP_HEADER_SIZE then Some 18
      else if \<not> app_size \<ge> code_size h + data_size h then Some 19
      else if \<not> (USER_CODE_BASE \<le> app_entry h \<and> app_entry h < USER_CODE_BASE + code_size h) then Some 20
      else None)"

lemma check_app_header_None:
  "check_app_header h app_size = None \<longleftrightarrow>
     app_magic h = APP_HEADER_MAGIC \<and> app_size \<ge> APP_HEADER_SIZE \<and>
     app_size \<ge> code_size h + data_size h \<and>
     USER_CODE_BASE \<le> app_entry h \<and> app_entry h < USER_CODE_BASE + code_size h"
  by (simp add: check_app_header_def)

definition page_count :: "u32 \<Rightarrow> u32" where
  "page_count n = ALIGN_UP n USER_PAGE_SIZE div USER_PAGE_SIZE"

subsection \<open>Pages of one kind\<close>

definition umem_alloc_page :: "mmu_space_type \<Rightarrow> umem \<Rightarrow> int \<times> umem" where
  "umem_alloc_page ty = (if ty = MMU_SPACE_CODE then umem_alloc_code_page else umem_alloc_data_page)"

definition PAGE_ADDR :: "mmu_space_type \<Rightarrow> u32 \<Rightarrow> u32" where
  "PAGE_ADDR ty = (if ty = MMU_SPACE_CODE then CODE_PAGE_ADDR else DATA_PAGE_ADDR)"

text \<open>\<^verbatim>\<open>pages[i]\<close> for a code page, \<^verbatim>\<open>pages[i + MAX_PAGE_COUNT]\<close> for a data page.\<close>

definition page_slot :: "mmu_space_type \<Rightarrow> nat \<Rightarrow> nat" where
  "page_slot ty i = (if ty = MMU_SPACE_CODE then i else i + MAX_PAGE_COUNT)"

text \<open>What the loader prints: failed checks, the application it starts, and each page it maps.\<close>

definition load_check_failed :: "err_t \<Rightarrow> u32 \<Rightarrow> string \<Rightarrow> string run" where
  "load_check_failed err line = check_failed err ''loader_load_app'' ''src/task/loader.c'' line"

definition starting_line :: "string \<Rightarrow> u32 \<Rightarrow> u32 \<Rightarrow> string \<Rightarrow> string run" where
  "starting_line name code_pages data_pages =
     TRACE ''Starting app `%s` (%d code pages, %d data pages)'' [VStr (Some name), VInt code_pages, VInt data_pages]"

definition page_line :: "mmu_space_type \<Rightarrow> nat \<Rightarrow> u32 \<Rightarrow> string \<Rightarrow> string run" where
  "page_line ty i page_idx = TRACE ''> %p --> %p'' [VInt (PAGE_ADDR ty (of_nat i)), VInt (PAGE_ADDR ty page_idx)]"

lemma says_loader_lines [simp]:
  "says (load_check_failed err line)" "says (page_line ty i q)"
  unfolding load_check_failed_def page_line_def
  by simp (rule says_lines, simp add: printable_def CRLF_def spec_simps)

lemma says_starting_line [simp]: "says (starting_line name c d)"
  unfolding starting_line_def
  by (rule says_lines, simp add: printable_def CRLF_def spec_simps, simp add: has_def FLAGS_defs)

text \<open>
  The two allocation loops, which differ in the page kind and the source lines only: allocate,
  record the page for the cleanup, copy, map. The result is the error code, the advanced image pointer, the
  recorded pages and the state.
\<close>

fun load_pages :: "mmu_space_type \<Rightarrow> nat list \<Rightarrow> ptr \<Rightarrow> u32 \<Rightarrow> u32 \<Rightarrow> int list \<Rightarrow> kernel \<Rightarrow>
    (err_t \<times> u32 \<times> int list \<times> kernel) run" where
  "load_pages ty [] task ptr left pages s = Inr (NO_ERROR, ptr, pages, s)"
| "load_pages ty (i # is) task ptr left pages s =
     (let (page_idx, u) = umem_alloc_page ty (umem s); s1 = s\<lparr>umem := u\<rparr> in
      if page_idx = -1
      then andthen (kprint (load_check_failed ERROR_OUT_OF_RESOURCES (if ty = MMU_SPACE_CODE then 46 else 64)) s1) (\<lambda>s2.
           Inr (ERROR_OUT_OF_RESOURCES, ptr, pages, s2))
      else
        let pages1 = pages[page_slot ty i := page_idx];
            to_copy = MINU left USER_PAGE_SIZE;
            krnl_ptr = PAGE_ADDR ty (of_int page_idx);
            s2 = s1\<lparr>mem := memcpy krnl_ptr ptr to_copy (mem s1)\<rparr>
        in andthen (mmu_map task ty (of_nat i) (PAGE_ENTRY (of_int page_idx)) s2) (\<lambda>(err, s3).
           if IS_ERROR err
           then andthen (kprint (rethrown ''loader_load_app'' ''src/task/loader.c''
                   (if ty = MMU_SPACE_CODE then 57 else 75)) s3) (\<lambda>s4.
                Inr (err, ptr + to_copy, pages1, s4))
           else andthen (kprint (page_line ty i (of_int page_idx)) s3) (\<lambda>s4.
                load_pages ty is task (ptr + to_copy) (left - to_copy) pages1 s4)))"

subsection \<open>Cleaning up after an error\<close>

fun free_pages :: "nat list \<Rightarrow> int list \<Rightarrow> umem \<Rightarrow> umem run" where
  "free_pages [] pages u = Inr u"
| "free_pages (i # is) pages u =
     andthen (if pages ! i \<noteq> -1
              then (if i < MAX_PAGE_COUNT then umem_free_code_page (pages ! i) u
                    else umem_free_data_page (pages ! i) u)
              else Inr u) (free_pages is pages)"

definition SAFE_RELEASE_TASK :: "ptr \<Rightarrow> kernel \<Rightarrow> kernel run" where
  "SAFE_RELEASE_TASK p s = (if p \<noteq> NULL then release_task p s else Inr s)"

definition loader_cleanup :: "err_t \<Rightarrow> ptr \<Rightarrow> int list \<Rightarrow> kernel \<Rightarrow> (err_t \<times> kernel) run" where
  "loader_cleanup err task pages s =
     (if IS_ERROR err then
        andthen (free_pages [0..<2 * MAX_PAGE_COUNT] pages (umem s)) (\<lambda>u.
        andthen (SAFE_RELEASE_TASK task (s\<lparr>umem := u\<rparr>)) (\<lambda>s1. Inr (err, s1)))
      else Inr (err, s))"

subsection \<open>Loading\<close>

text \<open>
  A failed check jumps over the declaration of \<^verbatim>\<open>task\<close> to the cleanup, which reads it: \<open>junk\<close>
  is the value that variable happens to have there. The application's name is the format
  string of \<^verbatim>\<open>create_task\<close>, which is called with no further argument.
\<close>

definition loader_load_app :: "platform \<Rightarrow> ptr \<Rightarrow> u32 \<Rightarrow> u32 \<Rightarrow> u32 \<Rightarrow> kernel \<Rightarrow> (err_t \<times> kernel) run" where
  "loader_load_app pf junk name app app_size s =
     (let pages = replicate (2 * MAX_PAGE_COUNT) (-1);
          failed = (\<lambda>err line task pages s.
            andthen (kprint (load_check_failed err line) s) (loader_cleanup err task pages))
      in case check_app_header (read_app_header (mem s) app) app_size of
        Some line \<Rightarrow> failed ERROR_CHECK_FAILED line junk pages s
      | None \<Rightarrow>
        andthen (create_task pf (app_entry (read_app_header (mem s) app)) (c_string name (mem s)) [] s) (\<lambda>(task, s1).
        if task = NULL then failed ERROR_OUT_OF_RESOURCES 24 task pages s1
        else
          let h = read_app_header (mem s1) app;
              code_pages = page_count (code_size h);
              data_pages = page_count (data_size h + bss_size h)
          in if \<not> code_pages < of_nat MAX_PAGE_COUNT then failed ERROR_CHECK_FAILED 29 task pages s1
             else if \<not> data_pages < of_nat MAX_PAGE_COUNT then failed ERROR_CHECK_FAILED 30 task pages s1
             else
               andthen (kprint (starting_line (c_string name (mem s1)) code_pages data_pages) s1) (\<lambda>s2.
               andthen (load_pages MMU_SPACE_CODE [0..<unat code_pages] task (app + APP_HEADER_SIZE)
                          (code_size h) pages s2) (\<lambda>(err, ptr, pages2, s3).
               if IS_ERROR err then loader_cleanup err task pages2 s3
               else
                 andthen (load_pages MMU_SPACE_DATA [0..<unat data_pages] task ptr
                            (data_size h) pages2 s3) (\<lambda>(err, ptr, pages3, s4).
                 if IS_ERROR err then loader_cleanup err task pages3 s4
                 else andthen (scheduler_ready_task task s4) (\<lambda>s5. Inr (NO_ERROR, s5)))))))"

end
