(* ===== verification/Loader_Correct.thy ===== *)
theory Loader_Correct
  imports App_Loader
begin

section \<open>A loaded application is its image\<close>

text \<open>
  What \<^verbatim>\<open>loader_load_app\<close> establishes: the kernel's invariant with the new task at the back of
  the run queue, its first registers, and an address space in which the image's code and data
  are found byte for byte (\<open>space_byte\<close>, the memory as the task sees it).
\<close>

subsection \<open>Either kind of page\<close>

definition space_of :: "mmu_space_type \<Rightarrow> mmu \<Rightarrow> mmu_space" where
  "space_of ty = (if ty = MMU_SPACE_CODE then immu else dmmu)"

definition page_of :: "mmu_space_type \<Rightarrow> nat \<Rightarrow> u32 set" where
  "page_of ty = (if ty = MMU_SPACE_CODE then code_page else data_page)"

definition free_of :: "mmu_space_type \<Rightarrow> umem \<Rightarrow> nat set" where
  "free_of ty = (if ty = MMU_SPACE_CODE then code_free else data_free)"

definition put_page :: "mmu_space_type \<Rightarrow> nat \<Rightarrow> nat \<Rightarrow> task \<Rightarrow> task" where
  "put_page ty i q t = t\<lparr>task_mmu :=
     (let m = task_mmu t; put = entries_update (\<lambda>e. e(i := PAGE_ENTRY (of_nat q)))
      in if ty = MMU_SPACE_CODE then m\<lparr>immu := put (immu m)\<rparr> else m\<lparr>dmmu := put (dmmu m)\<rparr>)\<rparr>"

lemma put_page_fields [simp]:
  "binding (task_mmu (put_page ty i q t)) = binding (task_mmu t)"
  "mpu_peripheral (task_mmu (put_page ty i q t)) = mpu_peripheral (task_mmu t)"
  "status (put_page ty i q t) = status t" "sched_link (put_page ty i q t) = sched_link t"
  "ucontext (put_page ty i q t) = ucontext t" "task_pid (put_page ty i q t) = task_pid t"
  by (simp_all add: put_page_def Let_def)

lemma maps_put_page:
  assumes "i < 16" "q < 16"
  shows "maps_page (space_of ty' (task_mmu (put_page ty i q t))) v r \<longleftrightarrow>
    (if ty' = ty \<and> v = i then r = q else maps_page (space_of ty' (task_mmu t)) v r)"
  using assms by (cases ty; cases ty')
    (auto simp: maps_page_def space_of_def put_page_def PAGE_ENTRY_def unat_of_nat Let_def)

lemma pages_put_page:
  assumes "i < 16" "q < 16"
  shows "pages_of (space_of ty' (task_mmu (put_page ty i q t))) \<subseteq>
    (if ty' = ty then insert q else id) (pages_of (space_of ty' (task_mmu t)))"
  using maps_put_page [OF assms] by (auto simp: pages_of_def)

lemma all_kinds: "(\<forall>ty. P ty) \<longleftrightarrow> P MMU_SPACE_CODE \<and> P MMU_SPACE_DATA"
  by (metis mmu_space_type.exhaust)

lemma kind_simps [simp]:
  "space_of MMU_SPACE_CODE = immu" "space_of MMU_SPACE_DATA = dmmu"
  "page_of MMU_SPACE_CODE = code_page" "page_of MMU_SPACE_DATA = data_page"
  "free_of MMU_SPACE_CODE = code_free" "free_of MMU_SPACE_DATA = data_free"
  by (simp_all add: space_of_def page_of_def free_of_def)

text \<open>The invariants on pages, said once for both kinds.\<close>

lemma tasks_ok_kinds:
  "tasks_ok ts \<longleftrightarrow> ts NULL = None \<and>
     (\<forall>p t. ts p = Some t \<longrightarrow> mpu_peripheral (task_mmu t) = 0 \<and>
        (\<forall>ty. space_wf (if ty = MMU_SPACE_CODE then 15 else 16) (space_of ty (task_mmu t)))) \<and>
     (\<forall>p p' t t'. ts p = Some t \<longrightarrow> ts p' = Some t' \<longrightarrow> p \<noteq> p' \<longrightarrow>
        (\<forall>ty. pages_of (space_of ty (task_mmu t)) \<inter> pages_of (space_of ty (task_mmu t')) = {}))"
  unfolding tasks_ok_def all_kinds by simp

lemma pages_inv_kinds:
  "pages_inv s \<longleftrightarrow> code_free (umem s) \<subseteq> {..<15} \<and>
     (\<forall>p t. tasks s p = Some t \<longrightarrow> (\<forall>ty. pages_of (space_of ty (task_mmu t)) \<inter> free_of ty (umem s) = {}))"
  unfolding pages_inv_def all_kinds by simp

lemma free_of_bound: "pages_inv s \<Longrightarrow> q \<in> free_of ty (umem s) \<Longrightarrow> q < (if ty = MMU_SPACE_CODE then 15 else 16)"
  using data_pool.avail_bound by (cases ty) (auto simp: pages_inv_def)

lemma pages_of_kinds_disjoint:
  "q < 16 \<Longrightarrow> q' < 16 \<Longrightarrow> ty \<noteq> ty' \<or> q \<noteq> q' \<Longrightarrow> page_of ty q \<inter> page_of ty' q' = {}"
  using code_pages_disjoint [of q q'] data_pages_disjoint [of q q'] code_data_disjoint [of q q']
    code_data_disjoint [of q' q]
  by (cases ty; cases ty') (simp_all add: page_of_def Int_commute)

lemma page_of_user: "q < 16 \<Longrightarrow> page_of ty q \<subseteq> user_memory"
  by (cases ty) (auto simp: page_of_def user_memory_def)

subsection \<open>Mapping one free page\<close>

lemma put_page_tasks_ok:
  assumes ok: "tasks_ok ts" and t: "ts p = Some t" and i: "i < 16" and q: "q < (if ty = MMU_SPACE_CODE then 15 else 16)"
    and fresh: "\<And>r u. ts r = Some u \<Longrightarrow> q \<notin> pages_of (space_of ty (task_mmu u))"
  shows "tasks_ok (ts(p \<mapsto> put_page ty i q t))"
proof -
  let ?t' = "put_page ty i q t"
  have q16: "q < 16" using q by (simp split: if_splits)
  note mp = maps_put_page [OF i q16] and pg = pages_put_page [OF i q16]
  have wf: "space_wf (if ty' = MMU_SPACE_CODE then 15 else 16) (space_of ty' (task_mmu ?t'))" for ty'
  proof -
    have old: "space_wf (if ty' = MMU_SPACE_CODE then 15 else 16) (space_of ty' (task_mmu t))"
      using ok t unfolding tasks_ok_kinds by blast
    have "v = v'" if "maps_page (space_of ty' (task_mmu ?t')) v r" "maps_page (space_of ty' (task_mmu ?t')) v' r" for v v' r
      using that old fresh [OF t] unfolding mp space_wf_def pages_of_def by (auto split: if_splits)
    moreover have "pages_of (space_of ty' (task_mmu ?t')) \<subseteq> {..<(if ty' = MMU_SPACE_CODE then 15 else 16)}"
      using pg [of ty' ty t] old q unfolding space_wf_def by (auto split: if_splits)
    ultimately show ?thesis unfolding space_wf_def by blast
  qed
  have dj: "pages_of (space_of ty' (task_mmu ?t')) \<inter> pages_of (space_of ty' (task_mmu u)) = {}"
    if "ts r = Some u" "r \<noteq> p" for r u ty'
  proof -
    have "pages_of (space_of ty' (task_mmu t)) \<inter> pages_of (space_of ty' (task_mmu u)) = {}"
      using ok t that unfolding tasks_ok_kinds by blast
    then show ?thesis using pg [of ty' ty t] fresh [OF that(1)] by (auto split: if_splits)
  qed
  have "p \<noteq> NULL" using ok t by (auto simp: tasks_ok_def)
  then show ?thesis
    using ok t wf dj unfolding tasks_ok_kinds by (auto simp: Int_commute)
qed

lemma put_page_ok:
  assumes inv: "kernel_inv s xs" and t: "tasks s p = Some t" and bd: "binding (task_mmu t) = None"
    and i: "i < 15" and q: "q \<in> free_of ty (umem s)"
    and s': "s' = s\<lparr>umem := u', mem := m', tasks := (tasks s)(p \<mapsto> put_page ty i q t)\<rparr>"
    and u': "\<And>ty'. free_of ty' u' = free_of ty' (umem s) - (if ty' = ty then {q} else {})"
    and m': "\<And>x. x \<notin> page_of ty q \<Longrightarrow> m' x = mem s x"
  shows "kernel_inv s' xs \<and> saved_regs s' = saved_regs s"
proof -
  let ?t' = "put_page ty i q t"
  from inv have si: "sched_inv s xs" and pi: "pages_inv s" and mi: "mmu_inv s" and tok: "tasks_ok (tasks s)"
    and uok: "uctx_ok (tasks s)" and rq: "run_queue s xs"
    and sok: "status_ok (get_current_task s) xs (tasks s)"
    by (auto simp: kernel_inv_def sched_inv_def mmu_inv_def)
  have qb: "q < (if ty = MMU_SPACE_CODE then 15 else 16)" using free_of_bound [OF pi q] .
  then have q16: "q < 16" and i16: "i < 16" using i by (simp_all split: if_splits)
  have fresh: "q \<notin> pages_of (space_of ty (task_mmu u))" if "tasks s r = Some u" for r u
    using pi that q unfolding pages_inv_kinds by blast
  have ts: "tasks s' = (tasks s)(p \<mapsto> ?t')" by (simp add: s')
  have tok': "tasks_ok (tasks s')" unfolding ts by (rule put_page_tasks_ok [OF tok t i16 qb fresh])
  have bs: "the_binding k s' = the_binding k s" for k by (simp add: s' the_binding_def get_cpu_context_def get_cpu_index_def)
  have mi': "mmu_inv s'"
    by (rule mmu_inv_upd [OF mi unbound_fresh [OF mi] ts tok' _ _ bs]) (simp_all add: t bd s')
  have cur: "get_current_task s' = get_current_task s"
    by (simp add: s' get_current_task_def)
  have uok': "uctx_ok (tasks s')"
  proof -
    have "maps_page (dmmu (task_mmu ?t')) 15 r" if "maps_page (dmmu (task_mmu t)) 15 r" for r
      using maps_put_page [OF i16 q16, of MMU_SPACE_DATA ty t 15 r] i that by simp
    then show ?thesis using uok t unfolding uctx_ok_def ts by (metis fun_upd_apply option.inject put_page_fields(5))
  qed
  have sok': "status_ok (get_current_task s) xs (tasks s')" using sok t by (auto simp: status_ok_def ts)
  have rq': "queue_rep (m_global_run_queue s, tasks s') xs"
    by (rule queue_rep_frame [of _ "tasks s"]) (use rq t in \<open>auto simp: run_queue_def ts\<close>)
  have si': "sched_inv s' xs"
    using mi' uok' rq' rq sok' cur si by (auto simp: sched_inv_def run_queue_def s')
  have pg: "pages_of (space_of ty' (task_mmu u)) \<inter> free_of ty' u' = {}" if "tasks s' r = Some u" for r u ty'
  proof (cases "r = p")
    case True
    then have u: "u = ?t'" using that ts by simp
    have "pages_of (space_of ty' (task_mmu t)) \<inter> free_of ty' (umem s) = {}"
      using pi t unfolding pages_inv_kinds by blast
    then show ?thesis using pages_put_page [OF i16 q16, of ty' ty t] unfolding u u' by (auto split: if_splits)
  next
    case False
    then have "pages_of (space_of ty' (task_mmu u)) \<inter> free_of ty' (umem s) = {}"
      using that pi ts unfolding pages_inv_kinds by auto
    then show ?thesis unfolding u' by blast
  qed
  have "code_free u' \<subseteq> {..<15}" using pi u' [of MMU_SPACE_CODE] by (auto simp: pages_inv_def)
  then have pi': "pages_inv s'" using pg unfolding pages_inv_kinds by (simp add: s')
  have sv: "saved_regs s' r = saved_regs s r" for r
  proof (cases "tasks s r")
    case None
    then show ?thesis using t by (auto simp: saved_regs_def ts)
  next
    case (Some u)
    obtain q' where q': "q' < 16" "maps_page (dmmu (task_mmu u)) 15 q'" "ucontext u = DATA_PAGE_ADDR (of_nat q')"
      using uok Some unfolding uctx_ok_def by blast
    have "ty \<noteq> MMU_SPACE_DATA \<or> q \<noteq> q'"
      using fresh [OF Some] q'(2) by (auto simp: pages_of_def)
    then have dj: "page_of ty q \<inter> data_page q' = {}"
      using pages_of_kinds_disjoint [OF q16 q'(1), of ty MMU_SPACE_DATA] by simp
    have "read_regs (ucontext u + UCONTEXT_REGS) m' = read_regs (ucontext u + UCONTEXT_REGS) (mem s)"
      using dj uctx_region q'(3) by (intro read_regs_cong m') auto
    then show ?thesis using Some t by (auto simp: saved_regs_def ts s')
  qed
  show ?thesis using si' pi' sv by (simp add: kernel_inv_def fun_eq_iff)
qed

subsection \<open>Copying into a page\<close>

lemma memcpy_at:
  "memcpy dst src n m x = (if unat (x - dst) < unat n then m (src + (x - dst)) else m x)"
  by (simp add: memcpy_def store_bytes_at less_imp_le [OF unat_bound32])

lemma page_of_region: "page_of ty q = region (PAGE_ADDR ty (of_nat q)) 8192"
  by (cases ty) (simp_all add: PAGE_ADDR_def code_page_def data_page_def)

lemma MINU_unat: "unat (MINU a b) = min (unat a) (unat b)"
  by (simp add: MINU_def word_less_nat_alt min_def)

lemma copy_outside: "x \<notin> page_of ty q \<Longrightarrow> memcpy (PAGE_ADDR ty (of_nat q)) src (MINU left USER_PAGE_SIZE) m x = m x"
  by (simp add: memcpy_at page_of_region region_def MINU_unat USER_PAGE_SIZE_def)

text \<open>The allocators of both kinds take the lowest free page.\<close>

lemma umem_alloc_page_ok:
  assumes "free_of ty u \<noteq> {}"
  shows "umem_alloc_page ty u = (int (Min (free_of ty u)), snd (umem_alloc_page ty u))"
    "free_of ty' (snd (umem_alloc_page ty u)) = free_of ty' u - (if ty' = ty then {Min (free_of ty u)} else {})"
proof -
  have "fst (umem_alloc_page ty u) = int (Min (free_of ty u))"
    using assms by (cases ty) (simp_all add: umem_alloc_page_def code_pool.alloc_page data_pool.alloc_page)
  then show "umem_alloc_page ty u = (int (Min (free_of ty u)), snd (umem_alloc_page ty u))"
    by (metis prod.collapse)
  have "code_free (snd (umem_alloc_data_page u)) = code_free u"
    "data_free (snd (umem_alloc_code_page u)) = data_free u"
    by (simp_all add: code_free_def data_free_def umem_alloc_data_page_def umem_alloc_code_page_def Let_def)
  then show "free_of ty' (snd (umem_alloc_page ty u)) = free_of ty' u - (if ty' = ty then {Min (free_of ty u)} else {})"
    using assms by (cases ty; cases ty') (simp_all add: umem_alloc_page_def code_pool.alloc_avail data_pool.alloc_avail)
qed

lemma finite_free_of [simp]: "finite (free_of ty u)"
  using code_pool.finite_avail data_pool.finite_avail by (cases ty) auto

lemma card_free_of_alloc:
  assumes "free_of ty u \<noteq> {}"
  shows "card (free_of ty (snd (umem_alloc_page ty u))) = card (free_of ty u) - 1"
  using Min_in [OF finite_free_of assms] by (simp add: umem_alloc_page_ok(2) [OF assms])

lemma umem_alloc_page_empty: "free_of ty u = {} \<Longrightarrow> umem_alloc_page ty u = (-1, u)"
  using code_pool.alloc_empty [of u] data_pool.alloc_empty [of u]
  by (cases ty) (auto simp: umem_alloc_page_def INVALID_PAGE_def)

text \<open>One round of the loop, when a page is free.\<close>

definition loaded_page :: "mmu_space_type \<Rightarrow> nat \<Rightarrow> ptr \<Rightarrow> task \<Rightarrow> u32 \<Rightarrow> u32 \<Rightarrow> kernel \<Rightarrow> kernel" where
  "loaded_page ty i p t src left s =
     (let q = Min (free_of ty (umem s)) in
      say (page_line ty i (of_nat q)) (s\<lparr>umem := snd (umem_alloc_page ty (umem s)),
        mem := memcpy (PAGE_ADDR ty (of_nat q)) src (MINU left USER_PAGE_SIZE) (mem s),
        tasks := (tasks s)(p \<mapsto> put_page ty i q t)\<rparr>))"

lemma load_pages_step:
  assumes t: "tasks s p = Some t" "binding (task_mmu t) = None" and i: "i < 16"
    and ne: "free_of ty (umem s) \<noteq> {}"
  shows "load_pages ty (i # is) p src left pages s =
    load_pages ty is p (src + MINU left USER_PAGE_SIZE) (left - MINU left USER_PAGE_SIZE)
      (pages[page_slot ty i := int (Min (free_of ty (umem s)))]) (loaded_page ty i p t src left s)"
proof -
  let ?q = "Min (free_of ty (umem s))" and ?u = "snd (umem_alloc_page ty (umem s))"
  have i8: "unat (of_nat i :: u8) = i" using i by (simp add: unat_of_nat)
  have "mmu_map p ty (of_nat i) (PAGE_ENTRY (of_nat ?q)) (s\<lparr>umem := u, mem := m\<rparr>) =
      Inr (NO_ERROR, s\<lparr>umem := u, mem := m, tasks := (tasks s)(p \<mapsto> put_page ty i ?q t)\<rparr>)" for u m
    using t i by (cases ty) (simp_all add: mmu_map_def i8 MAX_PAGE_COUNT_def put_page_def Let_def update_task_def)
  then show ?thesis
    by (subst load_pages.simps, subst umem_alloc_page_ok(1) [OF ne]) (simp add: loaded_page_def Let_def)
qed

lemma loaded_page_ok:
  assumes inv: "kernel_inv s xs" and t: "tasks s p = Some t" "binding (task_mmu t) = None" and i: "i < 15"
    and ne: "free_of ty (umem s) \<noteq> {}"
  shows "kernel_inv (loaded_page ty i p t src left s) xs \<and> saved_regs (loaded_page ty i p t src left s) = saved_regs s"
  unfolding loaded_page_def Let_def kernel_inv_say saved_regs_say
  by (rule put_page_ok [OF inv t i Min_in [OF finite_free_of ne] refl])
    (simp_all add: umem_alloc_page_ok(2) [OF ne] copy_outside)

subsection \<open>The whole loop\<close>

text \<open>The byte a task finds at an offset of its code or data region.\<close>

definition space_byte :: "mmu_space_type \<Rightarrow> kernel \<Rightarrow> ptr \<Rightarrow> nat \<Rightarrow> u8 option" where
  "space_byte ty s p off = (case tasks s p of None \<Rightarrow> None | Some t \<Rightarrow>
     let e = entries (space_of ty (task_mmu t)) (off div 8192) in
     if off < 131072 \<and> entry_type e = PAGE_MAPPED
     then Some (mem s (PAGE_ADDR ty (ucast (phys e)) + of_nat (off mod 8192))) else None)"

text \<open>What a loop over pages \<open>i\<close> to \<open>i + n - 1\<close> of one kind does to the state.\<close>

definition loaded :: "mmu_space_type \<Rightarrow> nat \<Rightarrow> nat \<Rightarrow> ptr \<Rightarrow> u32 \<Rightarrow> u32 \<Rightarrow> kernel \<Rightarrow> kernel \<Rightarrow> bool" where
  "loaded ty i n p src left s s' \<longleftrightarrow> (\<exists>t t'. tasks s p = Some t \<and>
     s' = s\<lparr>umem := umem s', mem := mem s', tasks := (tasks s)(p \<mapsto> t'), console := console s'\<rparr> \<and>
     binding (task_mmu t') = binding (task_mmu t) \<and> status t' = status t \<and> ucontext t' = ucontext t \<and>
     (\<forall>ty' v. ty' \<noteq> ty \<or> v < i \<or> i + n \<le> v \<longrightarrow>
        entries (space_of ty' (task_mmu t')) v = entries (space_of ty' (task_mmu t)) v) \<and>
     (\<forall>x. x \<notin> (\<Union>q \<in> free_of ty (umem s). page_of ty q) \<longrightarrow> mem s' x = mem s x) \<and>
     free_of ty (umem s') \<subseteq> free_of ty (umem s) \<and>
     card (free_of ty (umem s')) = card (free_of ty (umem s)) - n \<and>
     (\<forall>ty'. ty' \<noteq> ty \<longrightarrow> free_of ty' (umem s') = free_of ty' (umem s)) \<and>
     (\<forall>off < n * 8192. off < unat left \<longrightarrow>
        space_byte ty s' p (i * 8192 + off) = Some (mem s (src + of_nat off))))"

text \<open>The first page holds the first bytes, and the rounds after it do not touch it.\<close>

lemma put_page_entry:
  "entries (space_of ty (task_mmu (put_page ty i q t))) v =
     (if v = i then PAGE_ENTRY (of_nat q) else entries (space_of ty (task_mmu t)) v)"
  "ty' \<noteq> ty \<Longrightarrow> space_of ty' (task_mmu (put_page ty i q t)) = space_of ty' (task_mmu t)"
  by (cases ty; simp add: put_page_def Let_def) (cases ty; cases ty'; simp add: put_page_def Let_def)

lemma first_page_byte:
  assumes t': "tasks s' p = Some t'" and e: "entries (space_of ty (task_mmu t')) i = PAGE_ENTRY (of_nat q)"
    and b: "off < 8192" "off < unat left" "i < 16" "q < 16"
    and m': "\<And>x. x \<in> page_of ty q \<Longrightarrow> mem s' x = memcpy (PAGE_ADDR ty (of_nat q)) src (MINU left USER_PAGE_SIZE) m x"
  shows "space_byte ty s' p (i * 8192 + off) = Some (m (src + of_nat off))"
proof -
  let ?a = "PAGE_ADDR ty (of_nat q)"
  have u: "unat (of_nat off :: u32) = off" using b(1) by simp
  have "?a + of_nat off \<in> page_of ty q" using b(1) u by (simp add: page_of_region region_def)
  then have "mem s' (?a + of_nat off) = m (src + of_nat off)"
    using m' b(1,2) u by (simp add: memcpy_at MINU_unat USER_PAGE_SIZE_def)
  moreover have "ucast (of_nat q :: u8) = (of_nat q :: u32)"
    using b(4) by (simp add: word_unat_eq_iff unsigned_ucast_eq unat_of_nat take_bit_eq_mod)
  ultimately show ?thesis
    using t' e b by (simp add: space_byte_def Let_def PAGE_ENTRY_def)
qed

lemma load_pages_ok:
  assumes "kernel_inv s xs" "tasks s p = Some t" "binding (task_mmu t) = None" "i + n \<le> 15"
    "n \<le> card (free_of ty (umem s))" "\<And>j. j < unat left \<Longrightarrow> src + of_nat j \<notin> user_memory"
  shows "\<exists>pages' s'. load_pages ty [i..<i + n] p src left pages s =
      Inr (NO_ERROR, src + of_nat (min (unat left) (n * 8192)), pages', s') \<and>
    kernel_inv s' xs \<and> saved_regs s' = saved_regs s \<and> loaded ty i n p src left s s'"
  using assms
proof (induction n arbitrary: i src left pages s t)
  case 0
  have "loaded ty i 0 p src left s s"
    unfolding loaded_def by (intro exI [of _ t] conjI) (use 0 in \<open>simp_all add: fun_upd_idem\<close>)
  then show ?case using 0 by simp
next
  case (Suc n)
  let ?q = "Min (free_of ty (umem s))" and ?c = "MINU left USER_PAGE_SIZE"
  let ?s1 = "loaded_page ty i p t src left s" and ?t1 = "put_page ty i ?q t"
  have ne: "free_of ty (umem s) \<noteq> {}" using Suc.prems(5) by auto
  have i: "i < 15" "i < 16" using Suc.prems(4) by simp_all
  have pi: "pages_inv s" using Suc.prems(1) by (simp add: kernel_inv_def)
  have qf: "?q \<in> free_of ty (umem s)" by (rule Min_in [OF finite_free_of ne])
  have qb: "q < 16" if "q \<in> free_of ty (umem s)" for q using free_of_bound [OF pi that] by (simp split: if_splits)
  have q16: "?q < 16" using qb [OF qf] .
  have c: "unat ?c = min (unat left) 8192" by (simp add: MINU_unat USER_PAGE_SIZE_def)
  have left': "unat (left - ?c) = unat left - unat ?c"
    by (rule unat_sub) (simp add: word_le_nat_alt c)
  have inv1: "kernel_inv ?s1 xs" "saved_regs ?s1 = saved_regs s"
    using loaded_page_ok [OF Suc.prems(1-3) i(1) ne, of src left] by simp_all
  have t1: "tasks ?s1 p = Some ?t1" "binding (task_mmu ?t1) = None"
    using Suc.prems(3) by (simp_all add: loaded_page_def Let_def)
  have f1: "free_of ty' (umem ?s1) = free_of ty' (umem s) - (if ty' = ty then {?q} else {})" for ty'
    by (simp add: loaded_page_def Let_def umem_alloc_page_ok(2) [OF ne])
  have cd: "card (free_of ty (umem ?s1)) = card (free_of ty (umem s)) - 1"
    using qf by (simp add: f1)
  have m1: "mem ?s1 = memcpy (PAGE_ADDR ty (of_nat ?q)) src ?c (mem s)"
    by (simp add: loaded_page_def Let_def)
  have src': "src + ?c + of_nat j \<notin> user_memory" if "j < unat (left - ?c)" for j
  proof -
    have "src + of_nat (unat ?c + j) \<notin> user_memory"
      by (rule Suc.prems(6)) (use that left' in simp)
    then show ?thesis by (simp add: add.assoc)
  qed
  obtain pages' s' where run: "load_pages ty [Suc i..<Suc i + n] p (src + ?c) (left - ?c)
        (pages[page_slot ty i := int ?q]) ?s1 =
        Inr (NO_ERROR, src + ?c + of_nat (min (unat (left - ?c)) (n * 8192)), pages', s')"
    and inv': "kernel_inv s' xs" "saved_regs s' = saved_regs ?s1"
    and ld: "loaded ty (Suc i) n p (src + ?c) (left - ?c) ?s1 s'"
    using Suc.IH [OF inv1(1) t1, of "Suc i" "left - ?c" "src + ?c" "pages[page_slot ty i := int ?q]"]
      src' Suc.prems(4,5) cd by (metis add_Suc_right add_Suc diff_Suc_1 diff_le_mono)
  have up: "[i..<i + Suc n] = i # [Suc i..<Suc i + n]" by (simp add: upt_rec)
  have "src + ?c + of_nat (min (unat (left - ?c)) (n * 8192)) = src + of_nat (min (unat left) (Suc n * 8192))"
  proof -
    have "min (unat left) (Suc n * 8192) = unat ?c + min (unat (left - ?c)) (n * 8192)"
      unfolding left' c mult_Suc by linarith
    then show ?thesis by (simp only: of_nat_add add.assoc) simp
  qed
  then have run': "load_pages ty [i..<i + Suc n] p src left pages s =
      Inr (NO_ERROR, src + of_nat (min (unat left) (Suc n * 8192)), pages', s')"
    unfolding up using run load_pages_step [OF Suc.prems(2,3) i(2) ne] by simp
  obtain t' where t': "s' = ?s1\<lparr>umem := umem s', mem := mem s', tasks := (tasks ?s1)(p \<mapsto> t'), console := console s'\<rparr>"
    and same: "binding (task_mmu t') = binding (task_mmu ?t1)" "status t' = status ?t1" "ucontext t' = ucontext ?t1"
    and ent: "\<And>ty' v. ty' \<noteq> ty \<or> v < Suc i \<or> Suc i + n \<le> v \<Longrightarrow>
        entries (space_of ty' (task_mmu t')) v = entries (space_of ty' (task_mmu ?t1)) v"
    and fr: "\<And>x. x \<notin> (\<Union>q \<in> free_of ty (umem ?s1). page_of ty q) \<Longrightarrow> mem s' x = mem ?s1 x"
    and fs: "free_of ty (umem s') \<subseteq> free_of ty (umem ?s1)" "card (free_of ty (umem s')) = card (free_of ty (umem ?s1)) - n"
      "\<And>ty'. ty' \<noteq> ty \<Longrightarrow> free_of ty' (umem s') = free_of ty' (umem ?s1)"
    and by1: "\<And>off. off < n * 8192 \<Longrightarrow> off < unat (left - ?c) \<Longrightarrow>
        space_byte ty s' p (Suc i * 8192 + off) = Some (mem ?s1 (src + ?c + of_nat off))"
    using ld t1(1) unfolding loaded_def by auto
  have ts': "tasks s' p = Some t'" by (subst t') simp
  have keep: "mem s' x = mem ?s1 x" if "x \<in> page_of ty ?q" for x
  proof (rule fr)
    have "page_of ty ?q \<inter> page_of ty q = {}" if "q \<in> free_of ty (umem ?s1)" for q
      using that qb q16 by (intro pages_of_kinds_disjoint) (auto simp: f1)
    then show "x \<notin> (\<Union>q \<in> free_of ty (umem ?s1). page_of ty q)" using that by blast
  qed
  have bytes: "space_byte ty s' p (i * 8192 + off) = Some (mem s (src + of_nat off))"
    if off: "off < Suc n * 8192" "off < unat left" for off
  proof (cases "off < 8192")
    case True
    show ?thesis
      by (rule first_page_byte [OF ts' _ True off(2) i(2) q16])
        (use ent [of ty i] keep m1 in \<open>simp_all add: put_page_entry\<close>)
  next
    case False
    have cc: "unat ?c = 8192" using False off(2) c by simp
    have "space_byte ty s' p (Suc i * 8192 + (off - 8192)) = Some (mem ?s1 (src + ?c + of_nat (off - 8192)))"
      by (rule by1) (use False off left' cc in simp_all)
    moreover have "?c = 8192" using cc by (simp add: word_unat_eq_iff)
    then have "src + ?c + of_nat (off - 8192) = src + of_nat off" using False by (simp add: of_nat_diff)
    moreover have "src + of_nat off \<notin> page_of ty ?q"
      using Suc.prems(6) [OF off(2)] page_of_user [OF q16] by blast
    then have "mem ?s1 (src + of_nat off) = mem s (src + of_nat off)" unfolding m1 by (rule copy_outside)
    ultimately show ?thesis using False by simp
  qed
  have "loaded ty i (Suc n) p src left s s'"
    unfolding loaded_def
  proof (rule exI [of _ t], rule exI [of _ t'], intro conjI allI impI)
    show "s' = s\<lparr>umem := umem s', mem := mem s', tasks := (tasks s)(p \<mapsto> t'), console := console s'\<rparr>"
      by (subst t') (simp add: loaded_page_def say_def Let_def)
    fix ty' v assume "ty' \<noteq> ty \<or> v < i \<or> i + Suc n \<le> v"
    then show "entries (space_of ty' (task_mmu t')) v = entries (space_of ty' (task_mmu t)) v"
      using ent [of ty' v] put_page_entry(2) [of ty' ty i ?q t]
      by (cases "ty' = ty") (auto simp: put_page_entry(1))
  next
    fix x assume x: "x \<notin> (\<Union>q \<in> free_of ty (umem s). page_of ty q)"
    then have "mem s' x = mem ?s1 x" using fr f1 by auto
    moreover have "x \<notin> page_of ty ?q" using x qf by blast
    ultimately show "mem s' x = mem s x" using copy_outside by (simp add: m1)
  qed (use Suc.prems(2) same fs f1 cd bytes in auto)
  then show ?case using run' inv' inv1(2) by metis
qed

subsection \<open>Page counts\<close>

lemma page_count_bits: "page_count n = drop_bit 13 (n + 8191)"
proof -
  have "(NOT 8191 :: u32) = push_bit 13 (mask 19)" by (simp add: mask_eq_exp_minus_1)
  moreover have "drop_bit 13 (w AND push_bit 13 (mask 19)) = drop_bit 13 w" for w :: u32
    by (rule bit_word_eqI) (auto simp: bit_simps dest: bit_imp_le_length)
  ultimately have "drop_bit 13 ((n + 8191) AND NOT 8191) = drop_bit 13 (n + 8191)" by simp
  then show ?thesis
    by (simp add: page_count_def ALIGN_UP_def USER_PAGE_SIZE_def drop_bit_eq_div)
qed

lemma page_count_unat:
  assumes "unat n + 8191 < 4294967296"
  shows "unat (page_count n) = (unat n + 8191) div 8192"
proof -
  have "unat (n + 8191) = unat n + 8191" using assms by (simp add: unat_word_ariths)
  then show ?thesis by (simp add: page_count_bits drop_bit_eq_div unat_div)
qed

text \<open>A checked header cannot claim a code size that wraps around.\<close>

lemma checked_code_size:
  assumes "check_app_header h sz = None"
  shows "unat (code_size h) + 8191 < 4294967296"
proof (rule ccontr)
  let ?c = "unat (code_size h)"
  assume big: "\<not> ?c + 8191 < 4294967296"
  have "?c - 3220701184 < 4294967296" by (rule le_less_trans [OF diff_le_self unat_bound32])
  then have "(1074266112 + ?c) mod 4294967296 = 1074266112 + ?c - 4294967296"
    using big by (simp add: le_mod_geq)
  then have "unat (USER_CODE_BASE + code_size h) = 1074266112 + ?c - 4294967296"
    by (simp add: unat_word_ariths USER_CODE_BASE_def)
  moreover have "USER_CODE_BASE < USER_CODE_BASE + code_size h"
    using assms unfolding check_app_header_None by (meson le_less_trans)
  moreover have "unat USER_CODE_BASE = 1074266112" by (simp add: USER_CODE_BASE_def)
  ultimately show False using unat_bound32 [of "code_size h"] unfolding word_less_nat_alt by linarith
qed

lemma checked_code_pages:
  "check_app_header h sz = None \<Longrightarrow> unat (code_size h) \<le> unat (page_count (code_size h)) * 8192"
  using checked_code_size [of h sz] by (simp add: page_count_unat)

end
