(* ===== verification/Loader_Load.thy ===== *)
theory Loader_Load
  imports Loader_Correct
begin

section \<open>Loading an application, start to end\<close>

text \<open>
  The four phases of \<^verbatim>\<open>loader_load_app\<close> put together: every byte of the image is found in the
  new task's address space, no other task's memory changes, and the task is queued. Then the
  error branches: before a task exists the page bitmaps are as they were; after that an error
  stops the kernel, because \<^verbatim>\<open>release_task\<close> is not implemented.
\<close>

subsection \<open>What other tasks see\<close>

lemma space_byte_cong:
  assumes "tasks s r = Some t" "tasks s' r = Some t'"
    and e: "\<And>v. v < 16 \<Longrightarrow> entries (space_of ty (task_mmu t')) v = entries (space_of ty (task_mmu t)) v"
    and m: "\<And>q x. q \<in> pages_of (space_of ty (task_mmu t)) \<Longrightarrow> x \<in> page_of ty q \<Longrightarrow> mem s' x = mem s x"
  shows "space_byte ty s' r off = space_byte ty s r off"
proof (cases "off < 131072 \<and> entry_type (entries (space_of ty (task_mmu t)) (off div 8192)) = PAGE_MAPPED")
  case False
  have "off < 131072 \<Longrightarrow> off div 8192 < 16" by simp
  then show ?thesis using False assms(1,2) e [of "off div 8192"] by (auto simp: space_byte_def Let_def)
next
  case True
  let ?v = "off div 8192" and ?o = "off mod 8192"
  let ?q = "unat (phys (entries (space_of ty (task_mmu t)) ?v))"
  have v: "?v < 16" by (rule less_mult_imp_div_less) (use True in simp)
  have "?q \<in> pages_of (space_of ty (task_mmu t))"
    using True v by (auto simp: pages_of_def maps_page_def)
  moreover have "PAGE_ADDR ty (of_nat ?q) + of_nat ?o \<in> page_of ty ?q"
    by (simp add: page_of_region region_def)
  moreover have "(of_nat ?q :: u32) = ucast (phys (entries (space_of ty (task_mmu t)) ?v))"
    by (simp add: word_unat_eq_iff unsigned_ucast_eq take_bit_eq_mod)
  ultimately show ?thesis
    using True v assms(1,2) e m [of ?q] by (simp add: space_byte_def Let_def)
qed

lemma loaded_keeps_bytes:
  assumes ld: "loaded ty i n p src left s s'" and inv: "kernel_inv s xs" and k: "r \<noteq> p \<or> ty' \<noteq> ty"
    and r: "tasks s r = Some u"
  shows "space_byte ty' s' r off = space_byte ty' s r off"
proof -
  obtain t t' where t: "tasks s p = Some t" and s': "s' = s\<lparr>umem := umem s', mem := mem s', tasks := (tasks s)(p \<mapsto> t'), console := console s'\<rparr>"
    and e: "\<And>ty' v. ty' \<noteq> ty \<or> v < i \<or> i + n \<le> v \<Longrightarrow>
        entries (space_of ty' (task_mmu t')) v = entries (space_of ty' (task_mmu t)) v"
    and m: "\<And>x. x \<notin> (\<Union>q \<in> free_of ty (umem s). page_of ty q) \<Longrightarrow> mem s' x = mem s x"
    using ld unfolding loaded_def by auto
  have tok: "tasks_ok (tasks s)" and pi: "pages_inv s"
    using inv by (simp_all add: kernel_inv_def sched_inv_def mmu_inv_def)
  have ts': "tasks s' = (tasks s)(p \<mapsto> t')" by (subst s') simp
  obtain u' where u': "tasks s' r = Some u'" using r by (cases "r = p") (auto simp: ts')
  show ?thesis
  proof (rule space_byte_cong [OF r u'])
    show "entries (space_of ty' (task_mmu u')) v = entries (space_of ty' (task_mmu u)) v" for v
      using k e [of ty' v] r u' t ts' by (cases "r = p") auto
    fix q x assume q: "q \<in> pages_of (space_of ty' (task_mmu u))" and x: "x \<in> page_of ty' q"
    have q16: "q < 16"
    proof -
      have "space_wf (if ty' = MMU_SPACE_CODE then 15 else 16) (space_of ty' (task_mmu u))"
        using tok r unfolding tasks_ok_kinds by blast
      then show ?thesis using q by (auto simp: space_wf_def split: if_splits)
    qed
    have "q \<notin> free_of ty' (umem s)" using pi r q unfolding pages_inv_kinds by blast
    then have "page_of ty' q \<inter> page_of ty q' = {}" if "q' \<in> free_of ty (umem s)" for q'
      using free_of_bound [OF pi that] that q16
      by (intro pages_of_kinds_disjoint) (auto split: if_splits)
    then show "mem s' x = mem s x" using x by (intro m) blast
  qed
qed

text \<open>Readying a task, and creating another one, keep what every task sees.\<close>

lemma same_maps_bytes:
  assumes "same_maps (tasks s) (tasks s')" "mem s' = mem s"
  shows "space_byte ty s' r off = space_byte ty s r off"
proof -
  have e: "map_option (\<lambda>t. (immu (task_mmu t), dmmu (task_mmu t), ucontext t)) (tasks s' r) =
      map_option (\<lambda>t. (immu (task_mmu t), dmmu (task_mmu t), ucontext t)) (tasks s r)"
    using assms(1) by (simp add: same_maps_def)
  show ?thesis
    by (cases ty; cases "tasks s r"; cases "tasks s' r")
      (use e in \<open>auto simp: space_byte_def assms(2) Let_def\<close>)
qed

lemma created_keeps_bytes:
  assumes inv: "kernel_inv s xs" and heap: "heap_ok pf s" and m: "umm_malloc pf n (mem s) = (p, m)"
    and q: "q \<in> data_free (umem s)" and ts: "tasks s' r = tasks s r" "tasks s r = Some u"
    and mem: "\<And>x. x \<notin> data_page q \<Longrightarrow> mem s' x = m x"
  shows "space_byte ty s' r off = space_byte ty s r off"
proof (rule space_byte_cong [OF ts(2)])
  show "tasks s' r = Some u" using ts by simp
  fix q' x assume q': "q' \<in> pages_of (space_of ty (task_mmu u))" and x: "x \<in> page_of ty q'"
  have tok: "tasks_ok (tasks s)" and pi: "pages_inv s"
    using inv by (simp_all add: kernel_inv_def sched_inv_def mmu_inv_def)
  have "space_wf (if ty = MMU_SPACE_CODE then 15 else 16) (space_of ty (task_mmu u))"
    using tok ts(2) unfolding tasks_ok_kinds by blast
  then have q16: "q' < 16" using q' by (auto simp: space_wf_def split: if_splits)
  have "q' \<notin> free_of ty (umem s)" using pi ts(2) q' unfolding pages_inv_kinds by blast
  then have "page_of ty q' \<inter> page_of MMU_SPACE_DATA q = {}"
    using q q16 data_pool.avail_bound [OF q] by (intro pages_of_kinds_disjoint) auto
  then have "mem s' x = m x" using x by (intro mem) auto
  moreover have "m x = mem s x"
    using heap m page_of_user [OF q16] x unfolding heap_ok_def by (metis snd_conv subsetD)
  ultimately show "mem s' x = mem s x" by simp
qed simp

lemma space_byte_say [simp]: "space_byte ty (say line s) r off = space_byte ty s r off"
  by (cases "tasks s r") (simp_all add: space_byte_def Let_def)

subsection \<open>A successful load\<close>

lemma read_app_header_cong:
  assumes "\<And>j. j < 20 \<Longrightarrow> m' (a + of_nat j) = m (a + of_nat j)"
  shows "read_app_header m' a = read_app_header m a"
proof -
  have "load32 m' (a + of_nat k) = load32 m (a + of_nat k)" if "k \<le> 16" for k
  proof (rule load32_cong)
    fix x assume "x \<in> region (a + of_nat k) 4"
    then have d: "unat (x - (a + of_nat k)) < 4" by (simp add: region_def)
    let ?d = "unat (x - (a + of_nat k))"
    have "x = a + of_nat (k + ?d)" by simp
    then show "m' x = m x" using assms [of "k + ?d"] d that by simp
  qed
  from this [of 0] this [of 4] this [of 8] this [of 12] this [of 16] show ?thesis
    by (simp add: read_app_header_def)
qed

text \<open>
  The image lies outside the user pages, in memory the allocator keeps; the header passes the
  checks; there are pages for it.
\<close>

definition loadable :: "platform \<Rightarrow> u32 \<Rightarrow> u32 \<Rightarrow> u32 \<Rightarrow> kernel \<Rightarrow> bool" where
  "loadable pf name app app_size s \<longleftrightarrow> (let h = read_app_header (mem s) app in
     check_app_header h app_size = None \<and>
     page_count (code_size h) < 16 \<and> page_count (data_size h + bss_size h) < 16 \<and>
     unat (page_count (code_size h)) \<le> card (code_free (umem s)) \<and>
     unat (page_count (data_size h + bss_size h)) < card (data_free (umem s)) \<and>
     (\<exists>cs. format_text (c_string name (mem s)) [] = Inr cs) \<and>
     fst (umm_malloc pf (sizeof_task_t pf) (mem s)) \<noteq> NULL \<and>
     (\<forall>j < 20 + unat (code_size h) + unat (data_size h). app + of_nat j \<notin> user_memory \<and>
        snd (umm_malloc pf (sizeof_task_t pf) (mem s)) (app + of_nat j) = mem s (app + of_nat j)))"

text \<open>What the new task's memory holds, and what the load leaves of everything else.\<close>

definition app_loaded :: "platform \<Rightarrow> u32 \<Rightarrow> ptr \<Rightarrow> kernel \<Rightarrow> kernel \<Rightarrow> bool" where
  "app_loaded pf app p s s' \<longleftrightarrow> (let h = read_app_header (mem s) app in
     saved_regs s' = (saved_regs s)(p \<mapsto> initial_regs pf (app_entry h)) \<and>
     (\<forall>off < unat (code_size h).
        space_byte MMU_SPACE_CODE s' p off = Some (mem s (app + 20 + of_nat off))) \<and>
     (\<forall>off < unat (data_size h). off < unat (page_count (data_size h + bss_size h)) * 8192 \<longrightarrow>
        space_byte MMU_SPACE_DATA s' p off = Some (mem s (app + 20 + code_size h + of_nat off))) \<and>
     (\<forall>r \<in> dom (tasks s). \<forall>ty off. space_byte ty s' r off = space_byte ty s r off) \<and>
     (\<forall>x. x \<notin> user_memory \<longrightarrow> mem s' x = snd (umm_malloc pf (sizeof_task_t pf) (mem s)) x) \<and>
     dom (tasks s') = insert p (dom (tasks s)) \<and> get_current_task s' = get_current_task s \<and>
     park_callback (get_cpu_context s') = park_callback (get_cpu_context s) \<and> get_cpu_index s' = get_cpu_index s)"

lemma load_say [simp]:
  "loadable pf name app n (say line s) = loadable pf name app n s" "heap_ok pf (say line s) = heap_ok pf s"
  "app_loaded pf app p (say line s) s' = app_loaded pf app p s s'"
  by (simp_all add: loadable_def heap_ok_def app_loaded_def)

lemma loader_load_app_ok:
  assumes inv: "kernel_inv s xs" and heap: "heap_ok pf s" and ld: "loadable pf name app app_size s"
  obtains p s' where "loader_load_app pf junk name app app_size s = Inr (NO_ERROR, s')"
    "kernel_inv s' (xs @ [p])" "p \<notin> dom (tasks s)" "app_loaded pf app p s s'" "timg s' = timg s"
    "dport s' = dport s"
proof -
  define h where "h = read_app_header (mem s) app"
  define c where "c = unat (page_count (code_size h))"
  define d where "d = unat (page_count (data_size h + bss_size h))"
  obtain p m where m: "umm_malloc pf (sizeof_task_t pf) (mem s) = (p, m)" by fastforce
  from ld [unfolded loadable_def Let_def, folded h_def] m obtain cs where chk: "check_app_header h app_size = None"
    and pc: "page_count (code_size h) < 16" "page_count (data_size h + bss_size h) < 16"
    and room: "c \<le> card (code_free (umem s))" "d < card (data_free (umem s))"
    and name: "format_text (c_string name (mem s)) [] = Inr cs" and p0: "p \<noteq> NULL"
    and img: "\<And>j. j < 20 + unat (code_size h) + unat (data_size h) \<Longrightarrow>
        app + of_nat j \<notin> user_memory \<and> m (app + of_nat j) = mem s (app + of_nat j)"
    by (auto simp: c_def d_def)
  have c15: "c \<le> 15" "d \<le> 15" using pc by (simp_all add: c_def d_def word_less_nat_alt)
  have code: "unat (code_size h) \<le> c * 8192" using checked_code_pages [OF chk] by (simp add: c_def)
  let ?q0 = "Min (data_free (umem s))"
  have df: "data_free (umem s) \<noteq> {}" using room(2) by auto
  have q0: "?q0 \<in> data_free (umem s)" by (rule Min_in [OF data_pool.finite_avail df])
  obtain s0 where cr: "create_task pf (app_entry h) (c_string name (mem s)) [] s = Inr (p, s0)"
    and inv0: "kernel_inv s0 xs" and pn: "p \<notin> dom (tasks s)"
    and ts0: "tasks s0 = (tasks s)(p \<mapsto> \<lparr>task_pid = m_pid_gen s, task_mmu = uctx_space ?q0,
        status = TASK_STATUS_WAITING, sched_link = NULL, ucontext = DATA_PAGE_ADDR (of_nat ?q0)\<rparr>)"
    and fr0: "data_free (umem s0) = data_free (umem s) - {?q0}" "code_free (umem s0) = code_free (umem s)"
    and sv0: "saved_regs s0 = (saved_regs s)(p \<mapsto> initial_regs pf (app_entry h))"
    and mem0: "\<And>x. x \<notin> data_page ?q0 \<Longrightarrow> mem s0 x = m x"
    and eq0: "s0 = s\<lparr>tasks := tasks s0, mem := mem s0, umem := umem s0, m_pid_gen := m_pid_gen s + 1\<rparr>"
    by (rule create_task_ok [OF inv heap m p0 df refl name, of "app_entry h"]) blast
  define line where "line = starting_line (c_string name (mem s0)) (page_count (code_size h)) (page_count (data_size h + bss_size h))"
  define s1 where "s1 = say line s0"
  have inv1: "kernel_inv s1 xs" and sv1: "saved_regs s1 = (saved_regs s)(p \<mapsto> initial_regs pf (app_entry h))"
    using inv0 sv0 by (simp_all add: s1_def)
  note ts1 = ts0 [folded say_fields(6) [of line s0], folded s1_def]
    and fr1 = fr0 [folded say_fields(10) [of line s0], folded s1_def]
    and mem1 = mem0 [folded say_fields(7) [of line s0], folded s1_def]
  have img1: "mem s1 (app + of_nat j) = mem s (app + of_nat j)"
    if "j < 20 + unat (code_size h) + unat (data_size h)" for j
    using img [OF that] mem1 data_page_user [OF data_pool.avail_bound [OF q0]] by (metis subsetD)
  have h1: "read_app_header (mem s0) app = h" unfolding h_def
    by (rule read_app_header_cong) (use img1 in \<open>simp add: s1_def\<close>)
  have k1: "card (code_free (umem s1)) = card (code_free (umem s))"
    "card (data_free (umem s1)) = card (data_free (umem s)) - 1"
    using q0 by (simp_all add: fr1)
  obtain t1 where t1: "tasks s1 p = Some t1" "binding (task_mmu t1) = None" "status t1 = TASK_STATUS_WAITING"
    using ts1 by simp
  text \<open>The code pages.\<close>
  let ?pages = "replicate (2 * MAX_PAGE_COUNT) (- 1)"
  have "\<exists>pages2 s2. load_pages MMU_SPACE_CODE [0..<0 + c] p (app + 20) (code_size h) ?pages s1 =
      Inr (NO_ERROR, app + 20 + of_nat (min (unat (code_size h)) (c * 8192)), pages2, s2) \<and>
      kernel_inv s2 xs \<and> saved_regs s2 = saved_regs s1 \<and> loaded MMU_SPACE_CODE 0 c p (app + 20) (code_size h) s1 s2"
  proof (rule load_pages_ok [OF inv1 t1(1,2)])
    show "app + 20 + of_nat j \<notin> user_memory" if "j < unat (code_size h)" for j
      using img [of "20 + j"] that by (simp add: add.assoc)
  qed (use k1 room c15 in simp_all)
  then obtain pages2 s2 where run2: "load_pages MMU_SPACE_CODE [0..<c] p (app + 20) (code_size h) ?pages s1 =
      Inr (NO_ERROR, app + 20 + code_size h, pages2, s2)" and inv2: "kernel_inv s2 xs"
    and sv2: "saved_regs s2 = saved_regs s1" and ld2: "loaded MMU_SPACE_CODE 0 c p (app + 20) (code_size h) s1 s2"
    using code by (auto simp: min_absorb1)
  from ld2 obtain t2 where eq2: "s2 = s1\<lparr>umem := umem s2, mem := mem s2, tasks := (tasks s1)(p \<mapsto> t2), console := console s2\<rparr>"
    and t2: "binding (task_mmu t2) = None" "status t2 = TASK_STATUS_WAITING"
    and mem2: "\<And>x. x \<notin> (\<Union>q \<in> code_free (umem s1). code_page q) \<Longrightarrow> mem s2 x = mem s1 x"
    and fr2: "data_free (umem s2) = data_free (umem s1)"
    and by2: "\<And>off. off < c * 8192 \<Longrightarrow> off < unat (code_size h) \<Longrightarrow>
        space_byte MMU_SPACE_CODE s2 p off = Some (mem s1 (app + 20 + of_nat off))"
    unfolding loaded_def by (auto simp: t1)
  have ts2: "tasks s2 p = Some t2" by (subst eq2) simp
  text \<open>The data pages.\<close>
  have "\<exists>pages3 s3. load_pages MMU_SPACE_DATA [0..<0 + d] p (app + 20 + code_size h) (data_size h) pages2 s2 =
      Inr (NO_ERROR, app + 20 + code_size h + of_nat (min (unat (data_size h)) (d * 8192)), pages3, s3) \<and>
      kernel_inv s3 xs \<and> saved_regs s3 = saved_regs s2 \<and>
      loaded MMU_SPACE_DATA 0 d p (app + 20 + code_size h) (data_size h) s2 s3"
  proof (rule load_pages_ok [OF inv2 ts2 t2(1)])
    show "app + 20 + code_size h + of_nat j \<notin> user_memory" if "j < unat (data_size h)" for j
      using img [of "20 + unat (code_size h) + j"] that by (simp add: add.assoc)
  qed (use k1 fr2 room c15 in simp_all)
  then obtain pages3 s3 ptr3 where run3: "load_pages MMU_SPACE_DATA [0..<d] p (app + 20 + code_size h) (data_size h)
        pages2 s2 = Inr (NO_ERROR, ptr3, pages3, s3)" and inv3: "kernel_inv s3 xs"
    and sv3: "saved_regs s3 = saved_regs s2"
    and ld3: "loaded MMU_SPACE_DATA 0 d p (app + 20 + code_size h) (data_size h) s2 s3" by auto
  from ld3 obtain t3 where eq3: "s3 = s2\<lparr>umem := umem s3, mem := mem s3, tasks := (tasks s2)(p \<mapsto> t3), console := console s3\<rparr>"
    and t3: "status t3 = TASK_STATUS_WAITING"
    and by3: "\<And>off. off < d * 8192 \<Longrightarrow> off < unat (data_size h) \<Longrightarrow>
        space_byte MMU_SPACE_DATA s3 p off = Some (mem s2 (app + 20 + code_size h + of_nat off))"
    unfolding loaded_def by (auto simp: ts2 t2)
  have ts3: "tasks s3 p = Some t3" by (subst eq3) simp
  text \<open>Readying the task.\<close>
  have si3: "sched_inv s3 xs" and pi3: "pages_inv s3" using inv3 by (simp_all add: kernel_inv_def)
  obtain s4 where run4: "scheduler_ready_task p s3 = Inr s4" and si4: "sched_inv s4 (xs @ [p])"
    and sv4: "saved_regs s4 = saved_regs s3" and sf: "sched_frame s3 s4" and c4: "get_current_task s4 = get_current_task s3"
    and m4: "mem s4 = mem s3" and tm4: "timg s4 = timg s3" and dp4: "dport s4 = dport s3"
    by (rule ready_task_ok [OF si3 ts3 t3]) blast
  have inv4: "kernel_inv s4 (xs @ [p])" using si4 pages_inv_frame [OF pi3 sf] by (simp add: kernel_inv_def)
  have sm: "same_maps (tasks s3) (tasks s4)" using sf by (simp add: sched_frame_def)
  note b4 = same_maps_bytes [OF sm m4]
  have said: "kprint (starting_line (c_string name (mem s0)) (page_count (code_size h))
      (page_count (data_size h + bss_size h))) s0 = Inr s1"
    by (simp add: s1_def line_def)
  have run: "loader_load_app pf junk name app app_size s = Inr (NO_ERROR, s4)"
    using chk cr p0 pc run2 run3 run4
    by (simp add: loader_load_app_def h1 h_def [symmetric] Let_def MAX_PAGE_COUNT_def APP_HEADER_SIZE_def
        c_def [symmetric] d_def [symmetric] said)
  text \<open>What the address spaces hold.\<close>
  have img1': "mem s1 (app + 20 + of_nat j) = mem s (app + 20 + of_nat j)" "app + 20 + of_nat j \<notin> user_memory"
    if "j < unat (code_size h) + unat (data_size h)" for j
    using img1 [of "20 + j"] img [of "20 + j"] that by (simp_all add: add.assoc)
  have codeb: "space_byte MMU_SPACE_CODE s4 p off = Some (mem s (app + 20 + of_nat off))"
    if "off < unat (code_size h)" for off
    using that b4 loaded_keeps_bytes [OF ld3 inv2 _ ts2, of MMU_SPACE_CODE off] by2 [of off] code img1' [of off]
    by simp
  have datab: "space_byte MMU_SPACE_DATA s4 p off = Some (mem s (app + 20 + code_size h + of_nat off))"
    if "off < unat (data_size h)" "off < d * 8192" for off
  proof -
    let ?a = "app + 20 + code_size h + of_nat off"
    have a: "?a = app + 20 + of_nat (unat (code_size h) + off)" by simp
    have "unat (code_size h) + off < unat (code_size h) + unat (data_size h)" using that by simp
    from img1' [OF this] have "?a \<notin> user_memory" "mem s1 ?a = mem s ?a" unfolding a by simp_all
    moreover have "q < 16" if "q \<in> code_free (umem s1)" for q using that code_pool.avail_bound by blast
    ultimately have "mem s2 ?a = mem s ?a" by (subst mem2) (auto simp: user_memory_def)
    then show ?thesis using that b4 by3 by simp
  qed
  have others: "space_byte ty s4 r off = space_byte ty s r off" if dr: "r \<in> dom (tasks s)" for r ty off
  proof -
    obtain u where u: "tasks s r = Some u" and rp: "r \<noteq> p" using dr pn by (cases "r = p") auto
    have u1: "tasks s1 r = Some u" using u rp by (simp add: ts1)
    have u2: "tasks s2 r = Some u" using u1 rp by (subst eq2) simp
    show ?thesis
      using b4 loaded_keeps_bytes [OF ld3 inv2 _ u2] loaded_keeps_bytes [OF ld2 inv1 _ u1] rp
        created_keeps_bytes [where s' = s1, OF inv heap m q0 _ u mem1] u1 u by simp
  qed
  have doms: "dom (tasks s4) = insert p (dom (tasks s))"
  proof -
    have "dom (tasks s4) = dom (tasks s3)"
      using sm by (rule same_maps_dom)
    moreover have "tasks s3 = (tasks s2)(p \<mapsto> t3)" by (subst eq3) simp
    moreover have "tasks s2 = (tasks s1)(p \<mapsto> t2)" by (subst eq2) simp
    ultimately show ?thesis by (auto simp: ts1)
  qed
  have kmem: "mem s4 x = m x" if "x \<notin> user_memory" for x
  proof -
    have q: "q < 16" if "q \<in> free_of ty u" for q ty u
      using that code_pool.avail_bound data_pool.avail_bound by (cases ty) auto
    have "mem s3 x = mem s2 x"
      using ld3 that page_of_user [of _ MMU_SPACE_DATA] q [of _ MMU_SPACE_DATA] unfolding loaded_def by blast
    moreover have "mem s2 x = mem s1 x"
      using ld2 that page_of_user [of _ MMU_SPACE_CODE] q [of _ MMU_SPACE_CODE] unfolding loaded_def by blast
    moreover have "mem s1 x = m x"
      using mem1 that data_page_user [OF data_pool.avail_bound [OF q0]] by blast
    ultimately show ?thesis by (simp add: m4)
  qed
  have ctx: "get_cpu_context s3 = get_cpu_context s" "get_cpu_index s3 = get_cpu_index s" "timg s3 = timg s"
    "dport s3 = dport s"
    by (subst eq3, simp, subst eq2, simp add: s1_def, subst eq0, simp)+
  have "get_cpu_index s4 = get_cpu_index s3" using sf by (simp add: sched_frame_def get_cpu_index_def)
  then have "app_loaded pf app p s s4"
    unfolding app_loaded_def Let_def h_def [symmetric] d_def [symmetric]
    using sv1 sv2 sv3 sv4 codeb datab others doms ctx c4 sf m kmem
    by (auto simp: get_current_task_def sched_frame_def)
  then show ?thesis using that [OF run inv4 pn] tm4 dp4 ctx by simp
qed

subsection \<open>Errors\<close>

lemma free_pages_none: "set is \<subseteq> {..<n} \<Longrightarrow> free_pages is (replicate n (- 1)) u = Inr u"
  by (induction "is") auto

lemma cleanup_no_pages:
  assumes "err \<noteq> NO_ERROR"
  shows "loader_cleanup err p (replicate (2 * MAX_PAGE_COUNT) (- 1)) s =
    (if p = NULL then Inr (err, s) else Inl (Assert_failed ''TODO: release_task''))"
proof -
  have "free_pages [0..<2 * MAX_PAGE_COUNT] (replicate (2 * MAX_PAGE_COUNT) (- 1)) u = Inr u" for u
    by (rule free_pages_none) auto
  then show ?thesis
    using assms by (simp add: loader_cleanup_def SAFE_RELEASE_TASK_def release_task_def)
qed

lemma cleanup_stops:
  assumes "err \<noteq> NO_ERROR" "p \<noteq> NULL"
  shows "loader_cleanup err p pages s \<noteq> Inr r"
  using assms by (auto simp: loader_cleanup_def SAFE_RELEASE_TASK_def release_task_def run_simps)

lemma load_rejected:
  assumes "check_app_header (read_app_header (mem s) app) app_size = Some line"
  shows "loader_load_app pf junk name app app_size s =
    (if junk = NULL then Inr (ERROR_CHECK_FAILED, say (load_check_failed ERROR_CHECK_FAILED line) s)
     else Inl (Assert_failed ''TODO: release_task''))"
  using assms by (simp add: loader_load_app_def Let_def cleanup_no_pages)

lemma load_no_task:
  assumes "check_app_header (read_app_header (mem s) app) app_size = None"
    and "create_task pf (app_entry (read_app_header (mem s) app)) (c_string name (mem s)) [] s = Inr (NULL, s1)"
  shows "loader_load_app pf junk name app app_size s =
    Inr (ERROR_OUT_OF_RESOURCES, say (load_check_failed ERROR_OUT_OF_RESOURCES 24) s1)"
  using assms by (simp add: loader_load_app_def Let_def cleanup_no_pages)

text \<open>Once the task exists, an error is never returned.\<close>

lemma load_error_stops:
  assumes "check_app_header (read_app_header (mem s) app) app_size = None"
    and "create_task pf (app_entry (read_app_header (mem s) app)) (c_string name (mem s)) [] s = Inr (p, s1)"
    and "p \<noteq> NULL" "loader_load_app pf junk name app app_size s = Inr (err, s')"
  shows "err = NO_ERROR"
proof -
  have no: "loader_cleanup e p pages s2 = Inr r \<Longrightarrow> e \<noteq> NO_ERROR \<Longrightarrow> False" for e pages s2 r
    using cleanup_stops assms(3) by blast
  show ?thesis
    using assms no
    by (auto simp: loader_load_app_def Let_def run_simps split: if_splits dest: no)
qed

end
