(* ===== verification/Kmain.thy ===== *)
theory Kmain
  imports System Loader_Load
begin

section \<open>From reset to the first task\<close>

text \<open>
  \<^verbatim>\<open>mem/mem.c\<close>, \<^verbatim>\<open>initrd.h\<close> and \<^verbatim>\<open>main.c\<close>: the kernel heap's bounds, the initial
  ramdisk and the boot sequence. \<open>reset_ok\<close> is what the hardware and the cleared data section
  leave; the boot sequence turns it into a state with the system invariant, running the first
  application.
\<close>

subsection \<open>The kernel heap\<close>

text \<open>\<^verbatim>\<open>_heap_start\<close> and \<^verbatim>\<open>_heap_size\<close> are symbols of the linker script.\<close>

definition heap_line :: "u32 \<Rightarrow> u32 \<Rightarrow> string \<Rightarrow> string run" where
  "heap_line addr n = TRACE ''Kernel heap: %p (%S)'' [VInt addr, VInt n]"

definition init_mem :: "platform \<Rightarrow> u32 \<Rightarrow> u32 \<Rightarrow> kernel \<Rightarrow> (err_t \<times> u32 \<times> u32 \<times> kernel) run" where
  "init_mem pf heap_start heap_size s =
     (let tmp_start = ALIGN_UP heap_start 4;
          added = tmp_start - heap_start;
          heap_size' = ALIGN_DOWN (heap_size - added) 4
      in andthen (kprint (heap_line tmp_start heap_size') s) (\<lambda>s1.
         Inr (NO_ERROR, tmp_start, heap_size', s1\<lparr>mem := umm_init pf tmp_start heap_size' (mem s1)\<rparr>)))"

definition malloc :: "platform \<Rightarrow> u32 \<Rightarrow> memory \<Rightarrow> ptr \<times> memory" where
  "malloc pf n m = umm_malloc pf n m"

definition free :: "platform \<Rightarrow> ptr \<Rightarrow> memory \<Rightarrow> memory" where
  "free pf p m = umm_free pf p m"

subsection \<open>The initial ramdisk\<close>

definition INITRD_HANDOFF :: u32 where "INITRD_HANDOFF = 0x3FFC2000"
definition INITRD_HEADER_SIZE :: u32 where "INITRD_HEADER_SIZE = 8"
definition INITRD_ENTRY_SIZE :: u32 where "INITRD_ENTRY_SIZE = 68"

definition initrd_count :: "u32 \<Rightarrow> memory \<Rightarrow> u8" where
  "initrd_count header m = m (header + 4)"

definition INITRD_NEXT_ENTRY :: "u32 \<Rightarrow> memory \<Rightarrow> u32" where
  "INITRD_NEXT_ENTRY entry m = entry + INITRD_ENTRY_SIZE + load32 m entry"

text \<open>The loop of \<^verbatim>\<open>load_from_initrd\<close>; it reads the count and the sizes from memory as it goes.\<close>

definition loading_line :: "string \<Rightarrow> u32 \<Rightarrow> string \<Rightarrow> string run" where
  "loading_line name n = TRACE (CHR 0x09 # ''Loading %s - %d bytes'') [VStr (Some name), VInt n]"

definition initrd_line :: "u32 \<Rightarrow> u32 \<Rightarrow> string \<Rightarrow> string run" where
  "initrd_line count n = TRACE ''Loading from initrd (%d entries - %d bytes)'' [VInt count, VInt n]"

definition in_here_line :: "string \<Rightarrow> string \<Rightarrow> string run" where
  "in_here_line name = TRACE ''IN HERE - %s'' [VStr (Some name)]"

lemma says_initrd_lines [simp]:
  "says (loading_line name n)" "says (initrd_line c n)" "says (in_here_line name)" "says (TRACE ''LOL'' [])"
  "says (TRACE ''Hello from kernel!'' [])"
  unfolding loading_line_def initrd_line_def in_here_line_def
  by (rule says_lines, simp add: printable_def CRLF_def spec_simps, simp add: has_def FLAGS_defs)
    (rule says_lines, simp add: printable_def CRLF_def spec_simps, simp add: has_def FLAGS_defs,
      rule says_lines, simp add: printable_def CRLF_def spec_simps, (rule says_plain, simp)+)

function load_entries :: "platform \<Rightarrow> ptr \<Rightarrow> u32 \<Rightarrow> nat \<Rightarrow> u32 \<Rightarrow> kernel \<Rightarrow> (err_t \<times> kernel) run" where
  "load_entries pf junk header i entry s =
     (if i < unat (initrd_count header (mem s)) then
        andthen (kprint (TRACE ''LOL'' []) s) (\<lambda>s1.
        andthen (kprint (loading_line (c_string (entry + 4) (mem s1)) (load32 (mem s1) entry)) s1) (\<lambda>s2.
        andthen (loader_load_app pf junk (entry + 4) (entry + INITRD_ENTRY_SIZE) (load32 (mem s2) entry) s2) (\<lambda>(err, s3).
        if IS_ERROR err
        then andthen (kprint (rethrown ''load_from_initrd'' ''src/main.c'' 54) s3) (\<lambda>s4. Inr (err, s4))
        else load_entries pf junk header (i + 1) (INITRD_NEXT_ENTRY entry (mem s3)) s3)))
      else Inr (NO_ERROR, s))"
  by pat_completeness auto
termination
proof (relation "measure (\<lambda>(pf, junk, header, i, entry, s). 256 - i)", goal_cases)
  case (2 pf junk header i entry s)
  have "unat (initrd_count header (mem s)) < 256" using unsigned_less [of "initrd_count header (mem s)"] by simp
  with 2 show ?case by simp
qed simp

declare load_entries.simps [simp del]

definition load_from_initrd :: "platform \<Rightarrow> ptr \<Rightarrow> kernel \<Rightarrow> (err_t \<times> kernel) run" where
  "load_from_initrd pf junk s =
     andthen (kprint (initrd_line (ucast (initrd_count INITRD_HANDOFF (mem s))) (load32 (mem s) INITRD_HANDOFF)) s) (\<lambda>s0.
     let (header, m) = malloc pf (load32 (mem s0) INITRD_HANDOFF) (mem s0); s1 = s0\<lparr>mem := m\<rparr> in
     if header = NULL
     then andthen (kprint (check_failed ERROR_OUT_OF_RESOURCES ''load_from_initrd'' ''src/main.c'' 46) s1) (\<lambda>s2.
          Inr (ERROR_OUT_OF_RESOURCES, s2))
     else
       let s2 = s1\<lparr>mem := memcpy header INITRD_HANDOFF (load32 (mem s1) INITRD_HANDOFF) (mem s1)\<rparr>;
           entry = header + INITRD_HEADER_SIZE in
       andthen (kprint (in_here_line (c_string (entry + 4) (mem s2))) s2) (\<lambda>s3.
       andthen (load_entries pf junk header 0 entry s3) (\<lambda>(err, s4).
       Inr (err, s4\<lparr>mem := free pf header (mem s4)\<rparr>))))"

subsection \<open>The boot sequence\<close>

record special_regs =
  PS :: u32
  INTENABLE :: u32
  INTCLEAR :: u32

record boot =
  special :: special_regs
  serial :: uart
  UMM_MALLOC_CFG_HEAP_ADDR :: u32
  UMM_MALLOC_CFG_HEAP_SIZE :: u32
  kern :: kernel

text \<open>What the sources take from the linker, the hardware and the call of \<^verbatim>\<open>kmain\<close>.\<close>

record boot_params =
  vecbase :: u32
  heap_start_sym :: u32
  heap_size_sym :: u32
  pro_cache_reads :: "nat \<Rightarrow> u32"
  app_cache_reads :: "nat \<Rightarrow> u32"
  loader_junk :: ptr
  kmain_regs :: task_regs

text \<open>\<^verbatim>\<open>excm = 0, intlevel = 0xF, um = 1, woe = 1\<close>, then \<^verbatim>\<open>intlevel = 0\<close>.\<close>

definition ps_masked :: "u32 \<Rightarrow> u32" where
  "ps_masked w = (w AND NOT (push_bit 4 1)) OR 0xF OR push_bit 5 1 OR push_bit 18 1"

definition ps_enabled :: "u32 \<Rightarrow> u32" where
  "ps_enabled w = w AND NOT 0xF"

definition scheduler_drop_current :: "platform \<Rightarrow> task_regs \<Rightarrow> kernel \<Rightarrow> machine run" where
  "scheduler_drop_current pf regs s = common_syscall_handler pf (set_ret SYSCALL_SCHED_DROP regs) s"

text \<open>\<^verbatim>\<open>CHECK_AND_RETHROW\<close> in \<^verbatim>\<open>kmain\<close>: an error is reported and ends in the assertion after \<^verbatim>\<open>cleanup\<close>.\<close>

definition kmain_check :: "err_t \<Rightarrow> u32 \<Rightarrow> kernel \<Rightarrow> kernel run" where
  "kmain_check err line s =
     (if IS_ERROR err
      then andthen (kprint (rethrown ''kmain'' ''src/main.c'' line) s) (\<lambda>_. Inl (Assert_failed ''!IS_ERROR(err)''))
      else Inr s)"

text \<open>The part before the initial ramdisk.\<close>

definition kmain_init :: "platform \<Rightarrow> boot_params \<Rightarrow> boot \<Rightarrow> boot run" where
  "kmain_init pf bp b =
     (let sp1 = (special b)\<lparr>PS := ps_masked (PS (special b))\<rparr>; u = init_uart (serial b) in
      andthen (kprint (TRACE ''Hello from kernel!'' []) (kern b)) (\<lambda>s0.
      andthen (ASSERT (get_cpu_index s0 = 0) ''get_cpu_index() == 0'') (\<lambda>_.
      andthen (init_dport (vecbase bp) (pro_cache_reads bp) (app_cache_reads bp) (dport s0)) (\<lambda>d.
      let (_, s1) = init_mmu (s0\<lparr>dport := d\<rparr>);
          s2 = init_pid (vecbase bp) s1
      in andthen (init_mem pf (heap_start_sym bp) (heap_size_sym bp) s2) (\<lambda>(err, addr, n, s3).
         andthen (kmain_check err 90 s3) (\<lambda>s4.
         let sp2 = sp1\<lparr>PS := ps_enabled (PS sp1), INTCLEAR := 1, INTENABLE := 1\<rparr> in
         Inr \<lparr>special = sp2, serial = u, UMM_MALLOC_CFG_HEAP_ADDR = addr, UMM_MALLOC_CFG_HEAP_SIZE = n,
              kern = s4\<rparr>))))))"

definition kmain :: "platform \<Rightarrow> boot_params \<Rightarrow> boot \<Rightarrow> (boot \<times> machine) run" where
  "kmain pf bp b =
     andthen (kmain_init pf bp b) (\<lambda>b1.
     andthen (load_from_initrd pf (loader_junk bp) (kern b1)) (\<lambda>(err, s4).
     andthen (kmain_check err 107 s4) (\<lambda>s5.
     andthen (init_wdt s5) (\<lambda>(err, s6).
     andthen (kmain_check err 110 s6) (\<lambda>s7.
     andthen (scheduler_drop_current pf (kmain_regs bp) s7) (\<lambda>m. Inr (b1, m)))))))"

subsection \<open>Heap bounds\<close>

lemma says_heap_line [simp]: "says (heap_line a n)"
proof -
  obtain cs where cs: "size_text n 0 0 0 = Inr cs"
    using size_text_ok by blast
  show ?thesis
    unfolding heap_line_def
    by (rule says_lines) (simp add: printable_def CRLF_def spec_simps cs)
qed

lemma unat_and_3: "unat (x AND 3 :: u32) = unat x mod 4"
proof -
  have "x AND 3 = take_bit 2 x" by (simp add: take_bit_eq_mask mask_eq_exp_minus_1)
  then show ?thesis by (simp add: take_bit_eq_mod unat_mod)
qed

lemma unat_and_not_3: "unat (x AND NOT 3 :: u32) = unat x div 4 * 4"
proof -
  have m: "(3 :: u32) = mask 2" by (simp add: mask_eq_exp_minus_1)
  have s: "Suc (Suc (n - 2)) = n" if "2 \<le> n" for n :: nat using that by arith
  have "x AND NOT 3 = push_bit 2 (drop_bit 2 x)"
    unfolding m by (rule bit_word_eqI) (auto simp: bit_simps s not_less)
  also have "\<dots> = of_nat (unat x div 4 * 4)"
  proof -
    have "drop_bit 2 x = of_nat (unat x div 4)" by (simp add: drop_bit_eq_div word_unat_eq_iff unat_div unat_of_nat le_less_trans [OF div_le_dividend unat_bound32])
    then show ?thesis by (simp add: push_bit_eq_mult)
  qed
  also have "unat (of_nat (unat x div 4 * 4) :: u32) = unat x div 4 * 4"
    by (rule unat_of_nat_small) (rule le_less_trans [OF div_times_less_eq_dividend unat_bound32])
  finally show ?thesis .
qed

lemma ALIGN_DOWN_4: "unat (ALIGN_DOWN x 4) = unat x div 4 * 4"
proof -
  have "unat (x AND 3) \<le> unat x" by (simp add: unat_and_3)
  then have "unat (x - (x AND 3)) = unat x - unat x mod 4" by (subst unat_sub) (simp_all add: word_le_nat_alt unat_and_3)
  then show ?thesis by (simp add: ALIGN_DOWN_def minus_mod_eq_div_mult)
qed

lemma ALIGN_UP_4:
  assumes "unat x + 3 < 4294967296"
  shows "unat (ALIGN_UP x 4) = (unat x + 3) div 4 * 4"
proof -
  have "unat (x + 3) = unat x + 3" using assms by (simp add: unat_word_ariths)
  moreover have "ALIGN_UP x 4 = (x + 3) AND NOT 3" by (simp add: ALIGN_UP_def)
  ultimately show ?thesis by (simp only: unat_and_not_3)
qed

text \<open>The heap handed to the allocator is word aligned, inside the linker's, and at most six bytes smaller.\<close>

lemma init_mem_bounds:
  assumes fits: "unat start + unat n < 4294967296" "3 \<le> unat n"
    and run: "init_mem pf start n s = Inr (err, addr, sz, s')"
  shows "err = NO_ERROR \<and> unat addr mod 4 = 0 \<and> unat sz mod 4 = 0 \<and>
    unat start \<le> unat addr \<and> unat addr + unat sz \<le> unat start + unat n \<and>
    unat n \<le> unat sz + 6 \<and> s' = (say (heap_line addr sz) s)\<lparr>mem := umm_init pf addr sz (mem s)\<rparr>"
proof -
  have a: "addr = ALIGN_UP start 4" and s: "sz = ALIGN_DOWN (n - (addr - start)) 4"
    and e: "err = NO_ERROR" "s' = (say (heap_line addr sz) s)\<lparr>mem := umm_init pf addr sz (mem s)\<rparr>"
    using run by (auto simp: init_mem_def Let_def)
  have ua: "unat addr = (unat start + 3) div 4 * 4" unfolding a by (rule ALIGN_UP_4) (use fits in simp)
  then have le: "unat start \<le> unat addr" "unat addr \<le> unat start + 3" by linarith+
  have d: "unat (addr - start) = unat addr - unat start"
    by (rule unat_sub) (use le in \<open>simp add: word_le_nat_alt\<close>)
  have "unat (n - (addr - start)) = unat n - (unat addr - unat start)"
    using d le fits(2) by (subst unat_sub) (simp_all add: word_le_nat_alt)
  then have us: "unat sz = (unat n - (unat addr - unat start)) div 4 * 4" unfolding s ALIGN_DOWN_4 by simp
  have "unat addr mod 4 = 0" "unat sz mod 4 = 0" by (simp_all add: ua us)
  moreover have "unat sz \<le> unat n - (unat addr - unat start)" unfolding us by (rule div_times_less_eq_dividend)
  moreover have "unat n - (unat addr - unat start) \<le> unat sz + 3" unfolding us by linarith
  ultimately show ?thesis using e le fits(2) by (intro conjI) linarith+
qed

subsection \<open>What reset leaves, and what the first half of the boot makes of it\<close>

text \<open>
  The data section is cleared, so there is no task, no binding and no queue; the page tables
  grant nothing to the PIDs the kernel hands out.
\<close>

definition reset_ok :: "kernel \<Rightarrow> bool" where
  "reset_ok s \<longleftrightarrow> get_cpu_index s = 0 \<and> tasks s = Map.empty \<and>
     (\<forall>k < 6. bound_space (the_binding k s) = NULL) \<and>
     get_current_task s = NULL \<and> park_callback (get_cpu_context s) = NULL \<and>
     head (m_global_run_queue s) = NULL \<and> tail (m_global_run_queue s) = NULL \<and>
     m_global_run_queue_size s = 0 \<and> umem s = umem_init \<and>
     m_free_peripheral_interrupt (dport s) = initial_free_interrupts \<and>
     (\<forall>q < 16. access_rights (DPORT_IMMU_TABLE (dport s) q) < 2 \<and> access_rights (DPORT_DMMU_TABLE (dport s) q) < 2)"

lemma init_dport_frame:
  assumes "init_dport vb rd1 rd2 d = Inr d'"
  shows "DPORT_IMMU_TABLE d' = DPORT_IMMU_TABLE d" "DPORT_DMMU_TABLE d' = DPORT_DMMU_TABLE d"
    "m_free_peripheral_interrupt d' = m_free_peripheral_interrupt d"
  using assms by (auto simp: init_dport_def Let_def andthen_eq_Inr)

lemma init_bindings_at:
  "init_bindings is bs k = (if k \<in> set is then (bs k)\<lparr>pid := of_nat (k + 2)\<rparr> else bs k)"
  by (induction "is" arbitrary: bs) auto

lemma the_binding_say [simp]: "the_binding k (say line s) = the_binding k s"
  by (simp add: the_binding_def)

lemma the_binding_init_pid:
  "k < 6 \<Longrightarrow> the_binding k (init_pid vb s) = (the_binding k s)\<lparr>pid := pid_of_slot k\<rparr>"
  by (simp add: init_pid_def Let_def the_binding_def init_bindings_at PID_BINDING_COUNT_def pid_of_slot_def)

lemma init_pid_frame [simp]:
  "tasks (init_pid vb s) = tasks s" "dport (init_pid vb s) = dport s" "mem (init_pid vb s) = mem s"
  "umem (init_pid vb s) = umem s" "m_global_run_queue (init_pid vb s) = m_global_run_queue s"
  "m_global_run_queue_size (init_pid vb s) = m_global_run_queue_size s" "timg (init_pid vb s) = timg s"
  "get_cpu_index (init_pid vb s) = get_cpu_index s" "console (init_pid vb s) = console s"
  "current_task (get_cpu_context (init_pid vb s)) = current_task (get_cpu_context s)"
  "park_callback (get_cpu_context (init_pid vb s)) = park_callback (get_cpu_context s)"
  by (simp_all add: init_pid_def Let_def)

lemma init_mmu_tables:
  "DPORT_IMMU_TABLE (dport (snd (init_mmu s))) = (DPORT_IMMU_TABLE (dport s))(15 :=
     (DPORT_IMMU_TABLE (dport s) 15)\<lparr>address := 15, access_rights := 1\<rparr>)"
  "DPORT_DMMU_TABLE (dport (snd (init_mmu s))) = DPORT_DMMU_TABLE (dport s)"
  "m_free_peripheral_interrupt (dport (snd (init_mmu s))) = m_free_peripheral_interrupt (dport s)"
  by (simp_all add: init_mmu_def Let_def)

definition booted :: "kernel \<Rightarrow> bool" where
  "booted s \<longleftrightarrow> kernel_inv s [] \<and> get_current_task s = NULL \<and> park_callback (get_cpu_context s) = NULL \<and>
     tasks s = Map.empty \<and> umem s = umem_init \<and> get_cpu_index s = 0 \<and>
     m_free_peripheral_interrupt (dport s) = initial_free_interrupts"

lemma public_not_granted: "r < (2 :: 3 word) \<Longrightarrow> k < 6 \<Longrightarrow> r \<noteq> pid_of_slot k"
  using unat_pid_of_slot(2) [of k] by (auto simp: word_less_nat_alt)

lemma kmain_init_ok:
  assumes reset: "reset_ok (kern b)" and run: "kmain_init pf bp b = Inr b1"
  shows "booted (kern b1) \<and> mem (kern b1) = umm_init pf (ALIGN_UP (heap_start_sym bp) 4)
    (ALIGN_DOWN (heap_size_sym bp - (ALIGN_UP (heap_start_sym bp) 4 - heap_start_sym bp)) 4) (mem (kern b))"
proof -
  obtain d where d: "init_dport (vecbase bp) (pro_cache_reads bp) (app_cache_reads bp) (dport (kern b)) = Inr d"
    and b1: "kern b1 = (say (heap_line (ALIGN_UP (heap_start_sym bp) 4)
        (ALIGN_DOWN (heap_size_sym bp - (ALIGN_UP (heap_start_sym bp) 4 - heap_start_sym bp)) 4))
      (init_pid (vecbase bp) (snd (init_mmu ((say (TRACE ''Hello from kernel!'' []) (kern b))\<lparr>dport := d\<rparr>)))))\<lparr>mem :=
      umm_init pf (ALIGN_UP (heap_start_sym bp) 4) (ALIGN_DOWN (heap_size_sym bp - (ALIGN_UP (heap_start_sym bp) 4 -
        heap_start_sym bp)) 4) (mem (kern b))\<rparr>"
    using run by (auto simp: kmain_init_def Let_def andthen_eq_Inr init_mmu_def init_mem_def kmain_check_def IS_ERROR_def)
  note fr = init_dport_frame [OF d]
  let ?s = "kern b1" and ?r = "kern b"
  have cpu: "get_cpu_index ?s = 0" using reset by (simp add: b1 init_mmu_def Let_def reset_ok_def)
  have ts: "tasks ?s = Map.empty" using reset by (simp add: b1 init_mmu_def Let_def reset_ok_def)
  have im: "DPORT_IMMU_TABLE (dport ?s) = (DPORT_IMMU_TABLE (dport ?r))(15 :=
      (DPORT_IMMU_TABLE (dport ?r) 15)\<lparr>address := 15, access_rights := 1\<rparr>)"
    "DPORT_DMMU_TABLE (dport ?s) = DPORT_DMMU_TABLE (dport ?r)"
    by (simp_all add: b1 init_mmu_tables fr)
  have bs: "the_binding k ?s = (the_binding k ?r)\<lparr>pid := pid_of_slot k\<rparr>" if "k < 6" for k
    using that by (simp add: b1 the_binding_init_pid init_mmu_def Let_def)
  have none: "owner sel ?s k = None" if "k < 6" for sel k
    using reset that by (simp add: owner_def bs reset_ok_def Let_def)
  have "bindings_ok ?s" using reset by (simp add: bindings_ok_def bs reset_ok_def)
  moreover have "tbl_ok (DPORT_IMMU_TABLE (dport ?s)) (owner immu ?s)" "tbl_ok (DPORT_DMMU_TABLE (dport ?s)) (owner dmmu ?s)"
    using reset public_not_granted by (auto simp: tbl_ok_def none im reset_ok_def)
  moreover have "vdso_ok (dport ?s)" by (simp add: vdso_ok_def im)
  ultimately have "mmu_inv ?s" by (simp add: mmu_inv_def tasks_ok_def ts)
  moreover have "run_queue ?s []"
    using reset by (simp add: run_queue_def queue_rep_def b1 init_mmu_def Let_def reset_ok_def)
  moreover have cur: "get_current_task ?s = NULL"
    using reset by (simp add: get_current_task_def b1 init_mmu_def Let_def reset_ok_def)
  ultimately have "sched_inv ?s []" by (simp add: sched_inv_def uctx_ok_def status_ok_def ts)
  moreover have um: "umem ?s = umem_init" using reset by (simp add: b1 init_mmu_def Let_def reset_ok_def)
  then have "pages_inv ?s" by (simp add: pages_inv_def code_free_init ts)
  ultimately have "kernel_inv ?s []" by (simp add: kernel_inv_def)
  then show ?thesis
    using cur um ts cpu reset by (auto simp: booted_def b1 init_mmu_def Let_def reset_ok_def fr init_mem_def)
qed

end
