(* ===== verification/Boot_Loader.thy ===== *)
theory Boot_Loader
  imports Kmain
begin

section \<open>The boot loader\<close>

text \<open>
  \<^verbatim>\<open>loader/src/main.c\<close>: it reads the initial ramdisk and the kernel from a littlefs image in
  flash and jumps to the kernel. littlefs and the ROM are not in the sources: their functions
  are fields of an environment, over a file system state of their own.
\<close>

subsection \<open>Environment\<close>

record 'f loader_env =
  lfs_mount :: "'f \<Rightarrow> u32 \<times> 'f"
  lfs_stat :: "string \<Rightarrow> 'f \<Rightarrow> (u32 \<times> u32) \<times> 'f"
  lfs_file_opencfg :: "string \<Rightarrow> 'f \<Rightarrow> u32 \<times> 'f"
  lfs_file_seek :: "u32 \<Rightarrow> 'f \<Rightarrow> u32 \<times> 'f"
  lfs_file_read :: "u32 \<Rightarrow> 'f \<Rightarrow> (u32 \<times> u8 list) \<times> 'f"
  esp_rom_spiflash_read :: "u32 \<Rightarrow> u32 \<Rightarrow> u32 \<times> u8 list"
  esp_rom_spiflash_config_param :: "u32"
  uart_rx_one_char :: "nat \<Rightarrow> u32"

text \<open>
  The state: the memory, the three watchdog registers, the file system with its one open file, and the calls
  of the ROM's \<^verbatim>\<open>ets_printf\<close> so far, each with its format and arguments.
\<close>

record 'f loader =
  lmem :: memory
  TIMG0_Tx_WDTCONFIG0 :: u32
  TIMG1_Tx_WDTCONFIG0 :: u32
  RTC_CNTL_WDTCONFIG0 :: u32
  lfs :: 'f
  ets_calls :: "(string \<times> va list) list"

definition ets_printf :: "string \<Rightarrow> va list \<Rightarrow> 'f loader \<Rightarrow> 'f loader" where
  "ets_printf fmt va l = l\<lparr>ets_calls := ets_calls l @ [(fmt, va)]\<rparr>"

definition loader_TRACE :: "string \<Rightarrow> va list \<Rightarrow> 'f loader \<Rightarrow> 'f loader" where
  "loader_TRACE fmt va l = ets_printf (''[*] '' @ fmt @ CRLF) va l"

abbreviation TAB :: char where "TAB \<equiv> CHR 0x09"

definition m_temp_buffer :: u32 where "m_temp_buffer = 0x3FFD0000"
definition m_initrd_buffer :: u32 where "m_initrd_buffer = 0x3FFC2000"
definition KERNEL_MAGIC :: u32 where "KERNEL_MAGIC = 0x4c4e524b"
definition KERNEL_CODE_BASE :: u32 where "KERNEL_CODE_BASE = 0x400A0000"
definition KERNEL_DATA_BASE :: u32 where "KERNEL_DATA_BASE = 0x3FFE0000"
definition KERNEL_VDSO_BASE :: u32 where "KERNEL_VDSO_BASE = 0x4009E000"

record kernel_header =
  k_magic :: u32
  k_code_size :: u32
  k_data_size :: u32
  k_vdso_size :: u32
  entry_point :: u32

definition KERNEL_HEADER_SIZE :: u32 where "KERNEL_HEADER_SIZE = 20"

text \<open>The header from the bytes read into the static variable, which starts out zero.\<close>

definition header_of_bytes :: "u8 list \<Rightarrow> kernel_header" where
  "header_of_bytes bs = (let ws = map (\<lambda>i. word_of_bytes (take 4 (drop (4 * i) (bs @ replicate 20 0)))) [0..<5] in
     \<lparr>k_magic = ws ! 0, k_code_size = ws ! 1, k_data_size = ws ! 2, k_vdso_size = ws ! 3, entry_point = ws ! 4\<rparr>)"

subsection \<open>Flash\<close>

definition LFS_BLOCK_SIZE :: u32 where "LFS_BLOCK_SIZE = 4096"
definition LFS_BLOCK_COUNT :: u32 where "LFS_BLOCK_COUNT = 4096 - 4"
definition LFS_ERR_OK :: u32 where "LFS_ERR_OK = 0"
definition LFS_ERR_IO :: u32 where "LFS_ERR_IO = - 5"

text \<open>The read callback of the file system. Four blocks at the start belong to the loader.\<close>

definition spi_flash_read :: "'f loader_env \<Rightarrow> u32 \<Rightarrow> u32 \<Rightarrow> u32 \<Rightarrow> (u32 \<times> u8 list) run" where
  "spi_flash_read env block off n =
     andthen (ASSERT (off mod 4 = 0) ''(off % 4) == 0'') (\<lambda>_.
     andthen (ASSERT (n mod 4 = 0) ''(size % 4) == 0'') (\<lambda>_.
     andthen (ASSERT (block + 4 < LFS_BLOCK_COUNT + 4) ''block + 4 < c->block_count + 4'') (\<lambda>_.
     let addr = (block + 4) * LFS_BLOCK_SIZE + off;
         (err, bs) = esp_rom_spiflash_read env addr n
     in Inr (if err = 0 then LFS_ERR_OK else LFS_ERR_IO, bs))))"

subsection \<open>Files\<close>

definition disable_watchdogs :: "'f loader \<Rightarrow> 'f loader" where
  "disable_watchdogs l = l\<lparr>TIMG0_Tx_WDTCONFIG0 := 0, TIMG1_Tx_WDTCONFIG0 := 0, RTC_CNTL_WDTCONFIG0 := 0\<rparr>"

text \<open>A call into the file system, and a read into memory: the bytes delivered are stored.\<close>

definition lfs_call :: "('f \<Rightarrow> 'r \<times> 'f) \<Rightarrow> 'f loader \<Rightarrow> 'r \<times> 'f loader" where
  "lfs_call op l = (let (r, f) = op (lfs l) in (r, l\<lparr>lfs := f\<rparr>))"

definition read_into :: "'f loader_env \<Rightarrow> u32 \<Rightarrow> u32 \<Rightarrow> 'f loader \<Rightarrow> u32 \<times> 'f loader" where
  "read_into env buf n l = (let ((r, bs), l1) = lfs_call (lfs_file_read env n) l
     in (r, l1\<lparr>lmem := store_bytes buf bs (lmem l1)\<rparr>))"

text \<open>\<^verbatim>\<open>strrchr(name, '/')\<close>, then the character after it, or the whole name.\<close>

definition basename :: "string \<Rightarrow> string" where
  "basename name = rev (takeWhile (\<lambda>c. c \<noteq> CHR ''/'') (rev name))"

definition load_initrd_file :: "'f loader_env \<Rightarrow> string \<Rightarrow> u32 \<Rightarrow> 'f loader \<Rightarrow> 'f loader run" where
  "load_initrd_file env name entry l =
     (let ((st, n), l1) = lfs_call (lfs_stat env name) l in
      andthen (ASSERT (st = 0) ''lfs_stat'') (\<lambda>_.
      let l1' = loader_TRACE (TAB # ''Loading %s (%d bytes)'') [VStr (Some name), VInt n] l1;
          l2 = l1'\<lparr>lmem := store32 entry n (lmem l1')\<rparr>;
          l3 = l2\<lparr>lmem := store_bytes (entry + 4) (map of_char (basename name) @ [0]) (lmem l2)\<rparr>;
          (op, l4) = lfs_call (lfs_file_opencfg env name) l3
      in andthen (ASSERT (op = 0) ''lfs_file_opencfg'') (\<lambda>_.
         let (r, l5) = read_into env (entry + INITRD_ENTRY_SIZE) n l4
         in andthen (ASSERT (r = n) ''lfs_file_read'') (\<lambda>_. Inr l5))))"

definition load_initrd :: "'f loader_env \<Rightarrow> 'f loader \<Rightarrow> 'f loader run" where
  "load_initrd env l =
     (let header = m_initrd_buffer;
          l0 = loader_TRACE ''Loading initrd'' [] l;
          l1 = l0\<lparr>lmem := (lmem l0)(header + 4 := 1)\<rparr>;
          entry = header + INITRD_HEADER_SIZE
      in andthen (load_initrd_file env ''/apps/init'' entry l1) (\<lambda>l2.
         let entry' = INITRD_NEXT_ENTRY entry (lmem l2);
             l3 = l2\<lparr>lmem := store32 header (entry' - header) (lmem l2)\<rparr>
         in Inr (loader_TRACE ''Total size: %d bytes'' [VInt (load32 (lmem l3) header)] l3)))"

subsection \<open>The kernel\<close>

text \<open>
  The checks on the header. Sizes are signed, so the upper bounds are signed comparisons; the
  last comparison is unsigned.
\<close>

definition check_kernel_header :: "kernel_header \<Rightarrow> bool" where
  "check_kernel_header h \<longleftrightarrow>
     k_magic h = KERNEL_MAGIC \<and>
     sint (k_code_size h + k_data_size h) \<le> 128 * 1024 \<and>
     k_code_size h mod 4 = 0 \<and> k_data_size h mod 4 = 0 \<and> k_vdso_size h mod 4 = 0 \<and>
     KERNEL_CODE_BASE \<le> entry_point h \<and> entry_point h < KERNEL_CODE_BASE + k_code_size h \<and>
     sint (k_code_size h) \<le> 65535 \<and> sint (k_data_size h) \<le> 65535 \<and> sint (k_vdso_size h) \<le> 65535"

text \<open>One section: seek, read into the temporary buffer, copy to its place.\<close>

definition load_section :: "'f loader_env \<Rightarrow> u32 \<Rightarrow> u32 \<Rightarrow> u32 \<Rightarrow> 'f loader \<Rightarrow> 'f loader run" where
  "load_section env base off n l =
     (let (sk, l1) = lfs_call (lfs_file_seek env off) l in
      andthen (ASSERT (sk = off) ''lfs_file_seek'') (\<lambda>_.
      let (r, l2) = read_into env m_temp_buffer n l1 in
      andthen (ASSERT (r = n) ''lfs_file_read'') (\<lambda>_.
      Inr (l2\<lparr>lmem := memcpy base m_temp_buffer n (lmem l2)\<rparr>))))"

definition section_line :: "string \<Rightarrow> u32 \<Rightarrow> u32 \<Rightarrow> 'f loader \<Rightarrow> 'f loader" where
  "section_line name base n l =
     loader_TRACE (TAB # ''Loading '' @ name @ '' %p (%d bytes)'') [VInt base, VInt n] l"

text \<open>The result is the address jumped to and the state at the jump.\<close>

definition load_kernel :: "'f loader_env \<Rightarrow> 'f loader \<Rightarrow> (u32 \<times> 'f loader) run" where
  "load_kernel env l =
     (let (op, l1) = lfs_call (lfs_file_opencfg env ''/kernel'') (loader_TRACE ''Loading kernel'' [] l) in
      andthen (ASSERT (op = 0) ''lfs_file_opencfg'') (\<lambda>_.
      let ((r, bs), l2) = lfs_call (lfs_file_read env KERNEL_HEADER_SIZE) l1;
          h = header_of_bytes bs;
          code_offset = KERNEL_HEADER_SIZE;
          data_offset = code_offset + k_code_size h;
          vdso_offset = data_offset + k_data_size h
      in andthen (ASSERT (check_kernel_header h) ''kernel_header'') (\<lambda>_.
         andthen (load_section env KERNEL_CODE_BASE code_offset (k_code_size h) (section_line ''code'' KERNEL_CODE_BASE (k_code_size h) l2)) (\<lambda>l3.
         andthen (load_section env KERNEL_VDSO_BASE vdso_offset (k_vdso_size h) (section_line ''vdso'' KERNEL_VDSO_BASE (k_vdso_size h) l3)) (\<lambda>l4.
         andthen (load_section env KERNEL_DATA_BASE data_offset (k_data_size h) (section_line ''data'' KERNEL_DATA_BASE (k_data_size h) l4)) (\<lambda>l5.
         Inr (entry_point h, l5)))))))"

subsection \<open>Start\<close>

partial_function (option) drain_uart :: "(nat \<Rightarrow> u32) \<Rightarrow> nat \<Rightarrow> nat option" where
  "drain_uart rd n = (if rd n \<noteq> 0 then drain_uart rd (Suc n) else Some (Suc n))"

definition loader_start :: "'f loader_env \<Rightarrow> 'f loader \<Rightarrow> (u32 \<times> 'f loader) run" where
  "loader_start env l =
     (let l1 = disable_watchdogs l in
      andthen (loop_result (drain_uart (uart_rx_one_char env) 0)) (\<lambda>_.
      let l2 = loader_TRACE (TAB # ''Configuring flash'') [] (loader_TRACE ''Welcome from the loader!'' [] l1) in
      andthen (ASSERT (esp_rom_spiflash_config_param env = 0) ''esp_rom_spiflash_config_param'') (\<lambda>_.
      let (r, l3) = lfs_call (lfs_mount env) (loader_TRACE (TAB # ''Mounting rootfs'') [] l2) in
      andthen (ASSERT (r = 0) ''lfs_mount'') (\<lambda>_.
      andthen (load_initrd env l3) (\<lambda>l4. load_kernel env l4)))))"

subsection \<open>Hex dump\<close>

text \<open>\<^verbatim>\<open>loader/src/trace.c\<close>: the hex dump on the console of the ROM, with the 17 bytes of its right-hand column.\<close>

fun ets_printf_n :: "nat \<Rightarrow> string \<Rightarrow> 'f loader \<Rightarrow> 'f loader" where
  "ets_printf_n 0 fmt l = l"
| "ets_printf_n (Suc k) fmt l = ets_printf_n k fmt (ets_printf fmt [] l)"

definition loader_hex_step :: "u8 list \<Rightarrow> nat \<Rightarrow> string \<times> 'f loader \<Rightarrow> string \<times> 'f loader" where
  "loader_hex_step bs i = (\<lambda>(ascii, l).
     let n = length bs; b = bs ! i; j = (i + 1) mod 16; line = ''|  %s '' @ [CHR 0x0A];
         l1 = ets_printf ''%02x '' [VInt (ucast b)] l;
         ascii1 = ascii[i mod 16 := ascii_char b]
     in if (i + 1) mod 8 = 0 \<or> i + 1 = n then
          let l2 = ets_printf '' '' [] l1 in
          if j = 0 then
            let l3 = ets_printf line [VStr (Some ascii1)] l2
            in (ascii1, if i + 1 \<noteq> n then ets_printf ''[*] '' [] l3 else l3)
          else if i + 1 = n then
            let ascii2 = ascii1[j := NUL];
                l3 = (if j \<le> 8 then ets_printf '' '' [] l2 else l2);
                l4 = ets_printf_n (16 - j) ''   '' l3
            in (ascii2, ets_printf line [VStr (Some ascii2)] l4)
          else (ascii1, l2)
        else (ascii1, l1))"

definition loader_trace_hex :: "u8 list \<Rightarrow> 'f loader \<Rightarrow> 'f loader" where
  "loader_trace_hex bs l =
     snd (fold (loader_hex_step bs) [0..<length bs] (replicate 17 NUL, ets_printf ''[*] '' [] l))"

end
