(* ===== verification/Boot_Loader_Correct.thy ===== *)
theory Boot_Loader_Correct
  imports Boot_Loader
begin

section \<open>The boot loader delivers the kernel and the ramdisk\<close>

text \<open>
  A file behaves as documented (\<open>file_env\<close>): seeking sets the position, reading delivers the
  bytes from there and advances. Then the kernel's sections arrive at their addresses, and the
  ramdisk the loader writes is the ramdisk the kernel reads.
\<close>

subsection \<open>Flash addresses\<close>

text \<open>A read the callback lets through is behind the loader's four blocks, or its block number wraps around.\<close>

lemma spi_flash_read_addr:
  assumes run: "spi_flash_read env block off n = Inr r" and off: "off < LFS_BLOCK_SIZE"
  shows "unat block < 4092 \<and> 0x4000 \<le> unat ((block + 4) * LFS_BLOCK_SIZE + off) \<and>
      unat ((block + 4) * LFS_BLOCK_SIZE + off) < 0x1000000 \<or> 4294967292 \<le> unat block"
proof (cases "unat block + 4 < 4294967296")
  case False
  then show ?thesis by linarith
next
  case True
  then have b4: "unat (block + 4) = unat block + 4" by (simp add: unat_word_ariths)
  have "block + 4 < 4096"
    using run by (auto simp: spi_flash_read_def LFS_BLOCK_COUNT_def andthen_eq_Inr ASSERT_eq_Inr)
  then have b: "unat block < 4092" using b4 by (simp add: word_less_nat_alt)
  have o: "unat off < 4096" using off by (simp add: LFS_BLOCK_SIZE_def word_less_nat_alt)
  have "(block + 4) * LFS_BLOCK_SIZE + off = of_nat ((unat block + 4) * 4096 + unat off)"
    by (simp add: LFS_BLOCK_SIZE_def)
  moreover have m: "(unat block + 4) * 4096 \<le> 4095 * 4096" by (intro mult_le_mono) (use b in simp_all)
  then have "(unat block + 4) * 4096 + unat off < 4294967296" using o by simp
  ultimately have "unat ((block + 4) * LFS_BLOCK_SIZE + off) = (unat block + 4) * 4096 + unat off"
    by (simp only: unat_of_nat_small)
  then show ?thesis using b o m by simp
qed

subsection \<open>Lines on the console of the ROM\<close>

definition trace_call :: "string \<Rightarrow> va list \<Rightarrow> string \<times> va list" where
  "trace_call fmt va = (''[*] '' @ fmt @ CRLF, va)"

lemma loader_TRACE_simps [simp]:
  "lmem (loader_TRACE fmt va l) = lmem l" "lfs (loader_TRACE fmt va l) = lfs l"
  "ets_calls (loader_TRACE fmt va l) = ets_calls l @ [trace_call fmt va]"
  "lmem (section_line nm b n l) = lmem l" "lfs (section_line nm b n l) = lfs l"
  "ets_calls (section_line nm b n l) =
     ets_calls l @ [trace_call (TAB # ''Loading '' @ nm @ '' %p (%d bytes)'') [VInt b, VInt n]]"
  by (simp_all add: section_line_def loader_TRACE_def ets_printf_def trace_call_def)

definition initrd_lines :: "u32 \<Rightarrow> (string \<times> va list) list" where
  "initrd_lines n =
     [trace_call ''Loading initrd'' [],
      trace_call (TAB # ''Loading %s (%d bytes)'') [VStr (Some ''/apps/init''), VInt n],
      trace_call ''Total size: %d bytes'' [VInt (76 + n)]]"

definition kernel_lines :: "kernel_header \<Rightarrow> (string \<times> va list) list" where
  "kernel_lines h =
     [trace_call ''Loading kernel'' [],
      trace_call (TAB # ''Loading code %p (%d bytes)'') [VInt KERNEL_CODE_BASE, VInt (k_code_size h)],
      trace_call (TAB # ''Loading vdso %p (%d bytes)'') [VInt KERNEL_VDSO_BASE, VInt (k_vdso_size h)],
      trace_call (TAB # ''Loading data %p (%d bytes)'') [VInt KERNEL_DATA_BASE, VInt (k_data_size h)]]"

definition start_lines :: "(string \<times> va list) list" where
  "start_lines =
     [trace_call ''Welcome from the loader!'' [], trace_call (TAB # ''Configuring flash'') [],
      trace_call (TAB # ''Mounting rootfs'') []]"

subsection \<open>Files\<close>

definition file_env :: "'f loader_env \<Rightarrow> (string \<Rightarrow> u8 list) \<Rightarrow> ('f \<Rightarrow> string \<times> nat) \<Rightarrow> bool" where
  "file_env env files cur \<longleftrightarrow>
     (\<forall>f. fst (lfs_mount env f) = 0) \<and>
     (\<forall>name f. fst (lfs_stat env name f) = (0, of_nat (length (files name)))) \<and>
     (\<forall>name f. fst (lfs_file_opencfg env name f) = 0 \<and> cur (snd (lfs_file_opencfg env name f)) = (name, 0)) \<and>
     (\<forall>off f. fst (lfs_file_seek env off f) = off \<and> cur (snd (lfs_file_seek env off f)) = (fst (cur f), unat off)) \<and>
     (\<forall>n f. let (name, pos) = cur f; k = min (unat n) (length (files name) - pos) in
        fst (lfs_file_read env n f) = (of_nat k, take k (drop pos (files name))) \<and>
        cur (snd (lfs_file_read env n f)) = (name, pos + k))"

lemma file_env_stat:
  assumes "file_env env files cur"
  obtains f' where "lfs_stat env name f = ((0, of_nat (length (files name))), f')"
  using assms that unfolding file_env_def by (metis prod.collapse)

lemma file_env_open:
  assumes "file_env env files cur"
  obtains f' where "lfs_file_opencfg env name f = (0, f')" "cur f' = (name, 0)"
  using assms that unfolding file_env_def by (metis prod.collapse)

lemma file_env_seek:
  assumes "file_env env files cur" "cur f = (name, pos)"
  obtains f' where "lfs_file_seek env off f = (off, f')" "cur f' = (name, unat off)"
  using assms that unfolding file_env_def by (metis prod.collapse fst_conv)

lemma file_env_read:
  assumes env: "file_env env files cur" and c: "cur f = (name, pos)" "pos + unat n \<le> length (files name)"
  obtains f' where "lfs_file_read env n f = ((n, take (unat n) (drop pos (files name))), f')" "cur f' = (name, pos + unat n)"
proof -
  have "min (unat n) (length (files name) - pos) = unat n" using c(2) by simp
  then have "fst (lfs_file_read env n f) = (n, take (unat n) (drop pos (files name)))"
    "cur (snd (lfs_file_read env n f)) = (name, pos + unat n)"
    using env c(1) unfolding file_env_def Let_def by (auto split: prod.splits)
  then show ?thesis using that by (metis prod.collapse)
qed

text \<open>A section of the kernel image: its bytes are at \<open>base\<close> afterwards, and only the buffer changes besides.\<close>

lemma load_section_ok:
  assumes env: "file_env env files cur" and c: "fst (cur (lfs l)) = name" and content: "content = files name"
    and fits: "unat off + unat n \<le> length content"
  obtains l' where "load_section env base off n l = Inr l'"
    "load_bytes (lmem l') base (unat n) = take (unat n) (drop (unat off) content)"
    "\<And>x. x \<notin> region base (unat n) \<Longrightarrow> x \<notin> region m_temp_buffer (unat n) \<Longrightarrow> lmem l' x = lmem l x"
    "fst (cur (lfs l')) = name" "ets_calls l' = ets_calls l"
proof -
  let ?bs = "take (unat n) (drop (unat off) content)"
  obtain f where sk: "lfs_file_seek env off (lfs l) = (off, f)" "cur f = (name, unat off)"
    using file_env_seek [OF env, of "lfs l" name "snd (cur (lfs l))" off] c by (metis prod.collapse)
  obtain f' where rd: "lfs_file_read env n f = ((n, ?bs), f')" "cur f' = (name, unat off + unat n)"
    using file_env_read [OF env sk(2), of n] fits content by blast
  have len: "length ?bs = unat n" using fits by simp
  have b32: "unat n \<le> 4294967296" by (rule less_imp_le [OF unat_bound32])
  let ?m = "store_bytes m_temp_buffer ?bs (lmem l)"
  let ?l = "(l\<lparr>lfs := f', lmem := memcpy base m_temp_buffer n ?m\<rparr>)"
  have run: "load_section env base off n l = Inr ?l"
    by (simp add: load_section_def lfs_call_def read_into_def sk(1) rd(1) Let_def)
  show ?thesis
  proof (rule that [OF run])
    have "load_bytes ?m m_temp_buffer (unat n) = ?bs"
      by (rule load_store_bytes) (use len b32 in simp_all)
    then show "load_bytes (lmem ?l) base (unat n) = ?bs"
      using load_store_bytes [of ?bs "unat n" base ?m] len b32 by (simp add: memcpy_def)
    show "lmem ?l x = lmem l x" if "x \<notin> region base (unat n)" "x \<notin> region m_temp_buffer (unat n)" for x
      using that len b32 by (simp add: memcpy_at store_bytes_at region_def)
  qed (simp_all add: rd(2))
qed

subsection \<open>The kernel\<close>

lemma region_bounds:
  assumes "x \<in> region a n" "unat a + n \<le> 4294967296"
  shows "unat a \<le> unat x \<and> unat x < unat a + n"
proof -
  let ?d = "unat (x - a)"
  have d: "?d < n" using assms(1) by (simp add: region_def)
  have x: "x = of_nat (unat a + ?d)" by simp
  have "unat a + ?d < 4294967296" using d assms(2) by simp
  then have "unat x = unat a + ?d" using arg_cong [OF x, of unat] by (simp only: unat_of_nat_small)
  then show ?thesis using d by simp
qed

lemma small_size:
  assumes "0 \<le> sint (n :: u32)" "sint n \<le> 65535"
  shows "unat n \<le> 65535"
proof -
  have "uint n = uint (word_of_int (sint n) :: u32)" by simp
  also have "\<dots> = sint n" by (rule uint_word_of_int_u32) (use assms in simp_all)
  finally have "int (unat n) \<le> 65535" using assms(2) by simp
  then show ?thesis by (simp only: of_nat_le_numeral_iff)
qed

text \<open>A kernel image as the build tool writes it: the header's sizes are those of its sections.\<close>

definition kernel_image :: "u8 list \<Rightarrow> bool" where
  "kernel_image content \<longleftrightarrow> (let h = header_of_bytes (take 20 content) in
     check_kernel_header h \<and> 0 \<le> sint (k_code_size h) \<and> 0 \<le> sint (k_data_size h) \<and> 0 \<le> sint (k_vdso_size h) \<and>
     20 + unat (k_code_size h) + unat (k_data_size h) + unat (k_vdso_size h) \<le> length content)"

lemma kernel_imageD:
  assumes "kernel_image content" "h = header_of_bytes (take 20 content)"
  shows "check_kernel_header h" "unat (k_code_size h) \<le> 65535" "unat (k_data_size h) \<le> 65535" "unat (k_vdso_size h) \<le> 65535"
    "20 + unat (k_code_size h) + unat (k_data_size h) + unat (k_vdso_size h) \<le> length content"
  using assms small_size by (auto simp: kernel_image_def Let_def check_kernel_header_def)

text \<open>
  The kernel as the loader leaves it: its sections at their bases. The code is intact if the
  vDSO does not reach it.
\<close>

definition kernel_loaded :: "u8 list \<Rightarrow> memory \<Rightarrow> bool" where
  "kernel_loaded content m \<longleftrightarrow> (let h = header_of_bytes (take 20 content);
       c = unat (k_code_size h); d = unat (k_data_size h); v = unat (k_vdso_size h) in
     (v \<le> 8192 \<longrightarrow> load_bytes m KERNEL_CODE_BASE c = take c (drop 20 content)) \<and>
     load_bytes m KERNEL_DATA_BASE d = take d (drop (20 + c) content) \<and>
     load_bytes m KERNEL_VDSO_BASE v = take v (drop (20 + c + d) content))"

lemma load_kernel_ok:
  assumes env: "file_env env files cur" and content: "content = files ''/kernel''" and img: "kernel_image content"
    and h: "h = header_of_bytes (take 20 content)"
  obtains l' where "load_kernel env l = Inr (entry_point h, l')"
    "kernel_loaded content (lmem l')"
    "\<And>x. unat x < 0x3FFD0000 \<Longrightarrow> lmem l' x = lmem l x" "ets_calls l' = ets_calls l @ kernel_lines h"
proof -
  let ?c = "k_code_size h" and ?d = "k_data_size h" and ?v = "k_vdso_size h"
  note im = kernel_imageD [OF img h]
  have uc: "unat ?c \<le> 65535" and ud: "unat ?d \<le> 65535" and uv: "unat ?v \<le> 65535"
    and len: "20 + unat ?c + unat ?d + unat ?v \<le> length content" by (fact im)+
  obtain f where op: "lfs_file_opencfg env ''/kernel'' (lfs l) = (0, f)" "cur f = (''/kernel'', 0)"
    by (rule file_env_open [OF env])
  obtain f2 where rd: "lfs_file_read env KERNEL_HEADER_SIZE f = ((KERNEL_HEADER_SIZE, take 20 content), f2)"
    and c2: "fst (cur f2) = ''/kernel''"
  proof (rule file_env_read [OF env op(2), of KERNEL_HEADER_SIZE])
    show "0 + unat KERNEL_HEADER_SIZE \<le> length (files ''/kernel'')" using len content by (simp add: KERNEL_HEADER_SIZE_def)
  next
    fix f2 assume "lfs_file_read env KERNEL_HEADER_SIZE f =
        ((KERNEL_HEADER_SIZE, take (unat KERNEL_HEADER_SIZE) (drop 0 (files ''/kernel''))), f2)"
      and c: "cur f2 = (''/kernel'', 0 + unat KERNEL_HEADER_SIZE)"
    then have "lfs_file_read env KERNEL_HEADER_SIZE f = ((KERNEL_HEADER_SIZE, take 20 content), f2)"
      by (simp add: KERNEL_HEADER_SIZE_def content)
    then show thesis by (rule that) (simp only: c fst_conv)
  qed
  let ?l2 = "section_line ''code'' KERNEL_CODE_BASE ?c ((loader_TRACE ''Loading kernel'' [] l)\<lparr>lfs := f2\<rparr>)"
  have o1: "unat KERNEL_HEADER_SIZE = 20" by (simp add: KERNEL_HEADER_SIZE_def)
  have o2: "unat (KERNEL_HEADER_SIZE + ?c) = 20 + unat ?c"
    using uc by (simp add: KERNEL_HEADER_SIZE_def unat_word_ariths)
  have o3: "unat (KERNEL_HEADER_SIZE + ?c + ?d) = 20 + unat ?c + unat ?d"
    using uc ud by (simp add: KERNEL_HEADER_SIZE_def unat_word_ariths)
  have bases: "unat KERNEL_CODE_BASE = 1074397184" "unat KERNEL_DATA_BASE = 1073610752"
    "unat KERNEL_VDSO_BASE = 1074388992" "unat m_temp_buffer = 1073545216"
    by (simp_all add: KERNEL_CODE_BASE_def KERNEL_DATA_BASE_def KERNEL_VDSO_BASE_def m_temp_buffer_def)
  have rb: "unat a \<le> unat x \<and> unat x < unat a + unat n"
    if "x \<in> region a (unat n)" "unat n \<le> 65535" "a \<in> {KERNEL_CODE_BASE, KERNEL_DATA_BASE, KERNEL_VDSO_BASE, m_temp_buffer}" for x a n
    by (rule region_bounds [OF that(1)]) (use that bases in auto)
  obtain l3 where s3: "load_section env KERNEL_CODE_BASE KERNEL_HEADER_SIZE ?c ?l2 = Inr l3"
    "load_bytes (lmem l3) KERNEL_CODE_BASE (unat ?c) = take (unat ?c) (drop 20 content)"
    "\<And>x. x \<notin> region KERNEL_CODE_BASE (unat ?c) \<Longrightarrow> x \<notin> region m_temp_buffer (unat ?c) \<Longrightarrow> lmem l3 x = lmem ?l2 x"
    "fst (cur (lfs l3)) = ''/kernel''" "ets_calls l3 = ets_calls ?l2"
    by (rule load_section_ok [OF env _ content, of ?l2 KERNEL_HEADER_SIZE ?c KERNEL_CODE_BASE]) (use len o1 c2 in auto)
  let ?l3 = "section_line ''vdso'' KERNEL_VDSO_BASE ?v l3"
  obtain l4 where s4: "load_section env KERNEL_VDSO_BASE (KERNEL_HEADER_SIZE + ?c + ?d) ?v ?l3 = Inr l4"
    "load_bytes (lmem l4) KERNEL_VDSO_BASE (unat ?v) = take (unat ?v) (drop (20 + unat ?c + unat ?d) content)"
    "\<And>x. x \<notin> region KERNEL_VDSO_BASE (unat ?v) \<Longrightarrow> x \<notin> region m_temp_buffer (unat ?v) \<Longrightarrow> lmem l4 x = lmem ?l3 x"
    "fst (cur (lfs l4)) = ''/kernel''" "ets_calls l4 = ets_calls ?l3"
    by (rule load_section_ok [OF env _ content, of ?l3 "KERNEL_HEADER_SIZE + ?c + ?d" ?v KERNEL_VDSO_BASE]) (use len o3 s3(4) in auto)
  let ?l4 = "section_line ''data'' KERNEL_DATA_BASE ?d l4"
  obtain l5 where s5: "load_section env KERNEL_DATA_BASE (KERNEL_HEADER_SIZE + ?c) ?d ?l4 = Inr l5"
    "load_bytes (lmem l5) KERNEL_DATA_BASE (unat ?d) = take (unat ?d) (drop (20 + unat ?c) content)"
    "\<And>x. x \<notin> region KERNEL_DATA_BASE (unat ?d) \<Longrightarrow> x \<notin> region m_temp_buffer (unat ?d) \<Longrightarrow> lmem l5 x = lmem ?l4 x"
    "ets_calls l5 = ets_calls ?l4"
    by (rule load_section_ok [OF env _ content, of ?l4 "KERNEL_HEADER_SIZE + ?c" ?d KERNEL_DATA_BASE]) (use len o2 s4(4) in auto)
  note s4 = s4 [unfolded loader_TRACE_simps] and s5 = s5 [unfolded loader_TRACE_simps]
  have run: "load_kernel env l = Inr (entry_point h, l5)"
    unfolding load_kernel_def lfs_call_def loader_TRACE_simps op(1)
    using im(1) s3(1) s4(1) s5(1) by (simp add: rd h [symmetric] Let_def)
  have keep: "load_bytes (lmem l5) b (unat n) = load_bytes m b (unat n)"
    if "b \<in> {KERNEL_CODE_BASE, KERNEL_VDSO_BASE}" "unat n \<le> 65535" "\<And>x. x \<in> region b (unat n) \<Longrightarrow> lmem l4 x = m x" for b n m
  proof (rule load_bytes_cong)
    fix x assume x: "x \<in> region b (unat n)"
    have "x \<notin> region KERNEL_DATA_BASE (unat ?d)" "x \<notin> region m_temp_buffer (unat ?d)"
      using rb [OF x that(2)] rb [of x KERNEL_DATA_BASE ?d, OF _ ud] rb [of x m_temp_buffer ?d, OF _ ud] that(1) bases ud
      by auto
    then show "lmem l5 x = m x" using s5(3) that(3) [OF x] by simp
  qed (use that(2) in simp)
  have code: "load_bytes (lmem l5) KERNEL_CODE_BASE (unat ?c) = take (unat ?c) (drop 20 content)" if v: "unat ?v \<le> 8192"
  proof -
    have "lmem l4 x = lmem l3 x" if x: "x \<in> region KERNEL_CODE_BASE (unat ?c)" for x
      using rb [OF x uc] rb [of x KERNEL_VDSO_BASE ?v, OF _ uv] rb [of x m_temp_buffer ?v, OF _ uv] bases v
      by (intro s4(3)) auto
    then show ?thesis using keep [OF _ uc] s3(2) by simp
  qed
  have vdso: "load_bytes (lmem l5) KERNEL_VDSO_BASE (unat ?v) = take (unat ?v) (drop (20 + unat ?c + unat ?d) content)"
    using keep [of KERNEL_VDSO_BASE ?v, OF _ uv refl] s4(2) by simp
  show ?thesis
  proof (rule that [OF run])
    show "kernel_loaded content (lmem l5)"
      unfolding kernel_loaded_def h [symmetric] Let_def using code s5(2) vdso by blast
    fix x :: u32 assume x: "unat x < 0x3FFD0000"
    have low: "x \<notin> region a (unat n)"
      if "a \<in> {KERNEL_CODE_BASE, KERNEL_DATA_BASE, KERNEL_VDSO_BASE, m_temp_buffer}" "unat n \<le> 65535" for a n
    proof
      assume "x \<in> region a (unat n)"
      from rb [OF this that(2,1)] have "unat a \<le> unat x" by simp
      moreover have "1073545216 \<le> unat a" using that(1) bases by auto
      ultimately show False using x by simp
    qed
    have "lmem l5 x = lmem l4 x" by (rule s5(3); rule low) (use ud in simp_all)
    also have "\<dots> = lmem l3 x" by (rule s4(3); rule low) (use uv in simp_all)
    also have "\<dots> = lmem ?l2 x" by (rule s3(3); rule low) (use uc in simp_all)
    finally show "lmem l5 x = lmem l x" by simp
  next
    show "ets_calls l5 = ets_calls l @ kernel_lines h"
      using s3(5) s4(5) s5(4) by (simp add: kernel_lines_def)
  qed
qed

text \<open>Negative sizes pass the checks: only the upper bounds are tested, as signed numbers.\<close>

lemma negative_data_size:
  "\<exists>h. check_kernel_header h \<and> sint (k_data_size h) < 0"
proof -
  let ?h = "\<lparr>k_magic = KERNEL_MAGIC, k_code_size = 4, k_data_size = - 4, k_vdso_size = 0, entry_point = KERNEL_CODE_BASE\<rparr>"
  have "check_kernel_header ?h \<and> sint (k_data_size ?h) < 0"
    by (simp add: check_kernel_header_def KERNEL_CODE_BASE_def)
  then show ?thesis by blast
qed

subsection \<open>The ramdisk\<close>

lemma takeWhile_init: "basename ''/apps/init'' = ''init''"
  by (simp add: basename_def)

lemma region_disjoint:
  assumes "x \<in> region (a + of_nat i) n" "x \<in> region (a + of_nat j) k" "i + n \<le> j \<or> j + k \<le> i"
    "i + n \<le> 4294967296" "j + k \<le> 4294967296"
  shows False
proof -
  have off: "i \<le> unat (x - a) \<and> unat (x - a) < i + n" if "x \<in> region (a + of_nat i) n" "i + n \<le> 4294967296" for i n
  proof -
    let ?d = "unat (x - (a + of_nat i))"
    have d: "?d < n" using that(1) by (simp add: region_def)
    have "x - a = of_nat (i + ?d)" by simp
    moreover have "i + ?d < 4294967296" using d that(2) by simp
    ultimately have "unat (x - a) = i + ?d" by (simp only: unat_of_nat_small)
    then show ?thesis using d by simp
  qed
  show False using off [OF assms(1,4)] off [OF assms(2,5)] assms(3) by linarith
qed

lemma load32_frame:
  assumes "\<And>x. x \<in> region a n \<Longrightarrow> m' x = m x" "4 \<le> n"
  shows "load32 m' a = load32 m a"
  by (rule load32_cong) (use assms in \<open>auto simp: region_def\<close>)

text \<open>The name the loader writes, with its terminator, and the string the kernel reads there.\<close>

definition init_name :: "u8 list" where
  "init_name = map of_char ''init'' @ [0]"

lemma c_string_init:
  assumes "load_bytes m a 5 = init_name"
  shows "c_string a m = ''init''"
proof -
  have at: "m (a + of_nat i) = init_name ! i" if "i < 5" for i
    using arg_cong [OF assms, of "\<lambda>l. l ! i"] that by (simp add: load_bytes_def)
  have nth: "init_name ! i = of_char (''init'' ! i)" if "i < 4" for i
    using that by (simp add: init_name_def less_Suc_eq numeral_eq_Suc) auto
  show ?thesis
    unfolding c_string_def
  proof (rule cstring_at)
    show "m (a + of_nat i) = of_char (''init'' ! i)" if "i < length ''init''" for i
      using at [of i] nth [of i] that by simp
    show "m (a + of_nat (length ''init'')) = 0" using at [of 4] by (simp add: init_name_def)
  qed auto
qed

text \<open>
  The ramdisk the boot loader leaves: the count, the total size, and one entry with the file's
  size, its name and its bytes.
\<close>

lemma load_initrd_ok:
  assumes env: "file_env env files cur" and content: "content = files ''/apps/init''"
    and small: "length content \<le> 0x10000"
  obtains l' where "load_initrd env l = Inr l'"
    "load32 (lmem l') m_initrd_buffer = of_nat (76 + length content)"
    "initrd_count m_initrd_buffer (lmem l') = 1"
    "load32 (lmem l') (m_initrd_buffer + 8) = of_nat (length content)"
    "load_bytes (lmem l') (m_initrd_buffer + 12) 5 = init_name"
    "load_bytes (lmem l') (m_initrd_buffer + 76) (length content) = content"
    "ets_calls l' = ets_calls l @ initrd_lines (of_nat (length content))"
proof -
  let ?H = m_initrd_buffer and ?n = "of_nat (length content) :: u32"
  have n: "unat ?n = length content" using small by simp
  obtain f where f: "lfs_stat env ''/apps/init'' (lfs l) = ((0, ?n), f)"
    by (rule file_env_stat [OF env, of "''/apps/init''" "lfs l"]) (simp add: content)
  obtain f1 where op: "lfs_file_opencfg env ''/apps/init'' f = (0, f1)" "cur f1 = (''/apps/init'', 0)"
    by (rule file_env_open [OF env])
  obtain f2 where rd: "lfs_file_read env ?n f1 = ((?n, content), f2)"
  proof (rule file_env_read [OF env op(2), of ?n])
    show "0 + unat ?n \<le> length (files ''/apps/init'')" using n content by simp
  next
    fix f2 assume "lfs_file_read env ?n f1 = ((?n, take (unat ?n) (drop 0 (files ''/apps/init''))), f2)"
    then have "lfs_file_read env ?n f1 = ((?n, content), f2)" by (simp only: n content [symmetric] drop_0 take_all order_refl)
    then show thesis by (rule that)
  qed
  define nm where "nm = init_name"
  have lnm: "length nm = 5" by (simp add: nm_def init_name_def)
  let ?m1 = "(lmem l)(?H + 4 := 1)"
  let ?m2 = "store32 (?H + 8) ?n ?m1"
  let ?m3 = "store_bytes (?H + 12) nm ?m2"
  let ?m4 = "store_bytes (?H + 76) content ?m3"
  have len: "length content \<le> 4294967296" using small by simp
  have sz4: "load32 ?m4 (?H + 8) = ?n"
  proof -
    have "load32 ?m4 (?H + 8) = load32 ?m2 (?H + 8)"
    proof (rule load32_cong)
      fix x assume x: "x \<in> region (?H + 8) 4"
      have "x \<notin> region (?H + 76) (length content)"
        using region_disjoint [of x ?H 8 4 76 "length content"] x small by auto
      moreover have "x \<notin> region (?H + 12) 5" using region_disjoint [of x ?H 8 4 12 5] x by auto
      ultimately show "?m4 x = ?m2 x" using len lnm by (simp add: store_bytes_at region_def)
    qed
    then show ?thesis by (simp add: load_store32)
  qed
  have next_e: "INITRD_NEXT_ENTRY (?H + 8) ?m4 - ?H = of_nat (76 + length content)"
    by (simp add: INITRD_NEXT_ENTRY_def INITRD_ENTRY_SIZE_def sz4)
  let ?m5 = "store32 ?H (of_nat (76 + length content)) ?m4"
  let ?l = "l\<lparr>lfs := f2, lmem := ?m5, ets_calls := ets_calls l @ initrd_lines ?n\<rparr>"
  have e76: "?H + 8 + 68 = ?H + 76" "?H + 8 + 4 = ?H + 12" by simp_all
  have run: "load_initrd env l = Inr ?l"
    using f op(1) rd next_e
    by (simp add: load_initrd_def load_initrd_file_def lfs_call_def read_into_def takeWhile_init Let_def nm_def init_name_def
        INITRD_HEADER_SIZE_def INITRD_ENTRY_SIZE_def e76 add.commute loader_TRACE_def ets_printf_def initrd_lines_def
        trace_call_def load_store32)
  have k5: "?m5 x = ?m4 x" if "x \<in> region (?H + of_nat j) k" "4 \<le> j" "j + k \<le> 4294967296" for x j k
  proof (rule store32_other)
    show "x \<notin> region ?H 4" using region_disjoint [of x ?H 0 4 j k] that by auto
  qed
  show ?thesis
  proof (rule that [OF run])
    show "load32 (lmem ?l) ?H = of_nat (76 + length content)" by (simp add: load_store32)
    show "load32 (lmem ?l) (?H + 8) = ?n"
    proof -
      have "load32 ?m5 (?H + 8) = load32 ?m4 (?H + 8)"
        by (rule load32_cong) (use k5 [of _ 8 4] in simp)
      then show ?thesis using sz4 by simp
    qed
    show "load_bytes (lmem ?l) (?H + 76) (length content) = content"
    proof -
      have "load_bytes ?m5 (?H + 76) (length content) = load_bytes ?m4 (?H + 76) (length content)"
        by (rule load_bytes_cong) (use k5 [of _ 76 "length content"] small len in simp_all)
      then show ?thesis using load_store_bytes [OF len refl] by simp
    qed
    show "ets_calls ?l = ets_calls l @ initrd_lines ?n" by simp
    show "initrd_count ?H (lmem ?l) = 1"
    proof -
      have o: "?H + 4 \<notin> region (?H + of_nat j) k" if "5 \<le> j" "j + k \<le> 4294967296" for j k
        using region_disjoint [of "?H + 4" ?H 4 1 j k] that by (auto simp: region_def)
      have "?m5 (?H + 4) = ?m4 (?H + 4)" by (rule k5 [of _ 4 1]) (simp_all add: region_def)
      also have "\<dots> = ?m3 (?H + 4)"
        by (rule store_bytes_other) (use len o [of 76 "length content"] small in simp_all)
      also have "\<dots> = ?m2 (?H + 4)"
        by (rule store_bytes_other) (use lnm o [of 12 5] in simp_all)
      also have "\<dots> = 1" by (subst store32_other) (use o [of 8 4] in simp_all)
      finally show ?thesis by (simp add: initrd_count_def)
    qed
    show "load_bytes (lmem ?l) (?H + 12) 5 = init_name"
    proof -
      have at: "?m5 (?H + 12 + of_nat i) = nm ! i" if i: "i < 5" for i
      proof -
        have r: "?H + 12 + of_nat i \<in> region (?H + of_nat 12) 5" using i by (simp add: region_def)
        have "?m5 (?H + 12 + of_nat i) = ?m4 (?H + 12 + of_nat i)" by (rule k5 [OF r]) simp_all
        also have "\<dots> = ?m3 (?H + 12 + of_nat i)"
          by (rule store_bytes_other [OF len])
            (use region_disjoint [OF r, of 76 "length content"] small in auto)
        also have "\<dots> = nm ! i" using i lnm by (simp add: store_bytes_at)
        finally show ?thesis .
      qed
      show ?thesis by (rule nth_equalityI) (use at lnm in \<open>simp_all add: nm_def load_bytes_def\<close>)
    qed
  qed
qed

subsection \<open>The whole loader\<close>

lemma drain_uart_returns: "rd n = 0 \<Longrightarrow> k \<le> n \<Longrightarrow> \<exists>m. drain_uart rd k = Some m"
proof (induction "n - k" arbitrary: k)
  case 0
  then show ?case by (subst drain_uart.simps) simp
next
  case (Suc d)
  show ?case
  proof (cases "rd k = 0")
    case True
    then show ?thesis by (subst drain_uart.simps) simp
  next
    case False
    then show ?thesis using Suc.hyps(1) [of "Suc k"] Suc.hyps(2) Suc.prems by (subst drain_uart.simps) simp
  qed
qed

text \<open>The loader waits for a character: as long as every read finds nothing it stays in its loop.\<close>

lemma drain_uart_found: "drain_uart rd k = Some m \<Longrightarrow> \<exists>n. rd n = 0"
  by (erule drain_uart.raw_induct [rotated 1]) (auto split: if_splits)

lemma drain_uart_spins: "(\<And>n. rd n \<noteq> 0) \<Longrightarrow> drain_uart rd k = None"
  using drain_uart_found by (cases "drain_uart rd k") blast+

definition initrd_image :: "u32 \<Rightarrow> u8 list \<Rightarrow> memory \<Rightarrow> bool" where
  "initrd_image a content m \<longleftrightarrow>
     load32 m a = of_nat (76 + length content) \<and> initrd_count a m = 1 \<and>
     load32 m (a + INITRD_HEADER_SIZE) = of_nat (length content) \<and>
     load_bytes m (a + 12) 5 = init_name \<and>
     load_bytes m (a + INITRD_HEADER_SIZE + INITRD_ENTRY_SIZE) (length content) = content"


lemma load_initrd_image:
  assumes "file_env env files cur" "content = files ''/apps/init''" "length content \<le> 0x10000"
  obtains l' where "load_initrd env l = Inr l'" "initrd_image m_initrd_buffer content (lmem l')"
    "ets_calls l' = ets_calls l @ initrd_lines (of_nat (length content))"
proof (rule load_initrd_ok [OF assms, of l])
  fix l'
  assume run: "load_initrd env l = Inr l'" and "load32 (lmem l') m_initrd_buffer = of_nat (76 + length content)"
    "initrd_count m_initrd_buffer (lmem l') = 1" "load32 (lmem l') (m_initrd_buffer + 8) = of_nat (length content)"
    "load_bytes (lmem l') (m_initrd_buffer + 12) 5 = init_name"
    "load_bytes (lmem l') (m_initrd_buffer + 76) (length content) = content"
    "ets_calls l' = ets_calls l @ initrd_lines (of_nat (length content))"
  then show thesis
    by (intro that [OF run]) (simp_all add: initrd_image_def INITRD_HEADER_SIZE_def INITRD_ENTRY_SIZE_def add.assoc)
qed


lemma initrd_image_frame:
  assumes img: "initrd_image a content m" and a: "unat a + 76 + length content \<le> 4294967296"
    and same: "\<And>x. unat a \<le> unat x \<Longrightarrow> unat x < unat a + 76 + length content \<Longrightarrow> m' x = m x"
  shows "initrd_image a content m'"
proof -
  have eq: "m' x = m x" if "x \<in> region (a + of_nat j) k" "j + k \<le> 76 + length content" for x j k
  proof -
    have ua: "unat (a + of_nat j) = unat a + j" if "j + unat a < 4294967296" for j
      using that by (simp add: unat_word_ariths unat_of_nat)
    show ?thesis
    proof (cases "k = 0")
      case False
      have uj: "unat (a + of_nat j) = unat a + j" by (rule ua) (use a that False in linarith)
      show ?thesis using region_bounds [OF that(1)] that(2) a uj by (intro same) linarith+
    qed (use that in \<open>simp add: region_def\<close>)
  qed
  have "load32 m' a = load32 m a" by (rule load32_frame [of a 4]) (use eq [of _ 0 4] in simp_all)
  moreover have "load32 m' (a + 8) = load32 m (a + 8)" by (rule load32_frame [of "a + 8" 4]) (use eq [of _ 8 4] in simp_all)
  moreover have "m' (a + 4) = m (a + 4)" using eq [of "a + 4" 4 1] by (simp add: region_def)
  moreover have "load_bytes m' (a + 12) 5 = load_bytes m (a + 12) 5"
    using eq [of _ 12 5] by (intro load_bytes_cong) simp_all
  moreover have "load_bytes m' (a + 76) (length content) = load_bytes m (a + 76) (length content)"
    using eq [of _ 76 "length content"] a by (intro load_bytes_cong) simp_all
  ultimately show ?thesis
    using img by (simp add: initrd_image_def initrd_count_def INITRD_HEADER_SIZE_def INITRD_ENTRY_SIZE_def add.assoc)
qed


lemma loader_start_ok:
  assumes env: "file_env env files cur" and uart: "uart_rx_one_char env n = 0"
    and cfg: "esp_rom_spiflash_config_param env = 0"
    and krn: "kernel_image (files ''/kernel'')" and app: "length (files ''/apps/init'') \<le> 0xE000 - 76"
  obtains l' where
    "loader_start env l = Inr (entry_point (header_of_bytes (take 20 (files ''/kernel''))), l')"
    "kernel_loaded (files ''/kernel'') (lmem l')" "initrd_image m_initrd_buffer (files ''/apps/init'') (lmem l')"
    "ets_calls l' = ets_calls l @ start_lines @ initrd_lines (of_nat (length (files ''/apps/init''))) @
       kernel_lines (header_of_bytes (take 20 (files ''/kernel'')))"
proof -
  obtain k where k: "drain_uart (uart_rx_one_char env) 0 = Some k"
    using drain_uart_returns [where rd = "uart_rx_one_char env", OF uart] by blast
  obtain f where mt: "lfs_mount env (lfs l) = (0, f)"
    using env unfolding file_env_def by (metis prod.collapse)
  let ?l2 = "(loader_TRACE (TAB # ''Mounting rootfs'') [] (loader_TRACE (TAB # ''Configuring flash'') []
      (loader_TRACE ''Welcome from the loader!'' [] (disable_watchdogs l))))\<lparr>lfs := f\<rparr>"
  have l2: "ets_calls ?l2 = ets_calls l @ start_lines" "lfs (disable_watchdogs l) = lfs l"
    by (simp_all add: start_lines_def disable_watchdogs_def)
  have small: "length (files ''/apps/init'') \<le> 0x10000" using app by simp
  obtain l3 where l3: "load_initrd env ?l2 = Inr l3" "initrd_image m_initrd_buffer (files ''/apps/init'') (lmem l3)"
    "ets_calls l3 = ets_calls ?l2 @ initrd_lines (of_nat (length (files ''/apps/init'')))"
    by (rule load_initrd_image [OF env refl small, of ?l2])
  obtain l' where run: "load_kernel env l3 = Inr (entry_point (header_of_bytes (take 20 (files ''/kernel''))), l')"
    and kl: "kernel_loaded (files ''/kernel'') (lmem l')" and low: "\<And>x. unat x < 0x3FFD0000 \<Longrightarrow> lmem l' x = lmem l3 x"
    and calls: "ets_calls l' = ets_calls l3 @ kernel_lines (header_of_bytes (take 20 (files ''/kernel'')))"
    by (rule load_kernel_ok [OF env refl krn refl, of l3]) blast
  have base: "unat m_initrd_buffer = 0x3FFC2000" by (simp add: m_initrd_buffer_def)
  have "loader_start env l = Inr (entry_point (header_of_bytes (take 20 (files ''/kernel''))), l')"
    using cfg l3(1) run
    by (simp add: loader_start_def k lfs_call_def mt l2(2))
  moreover have "initrd_image m_initrd_buffer (files ''/apps/init'') (lmem l')"
  proof (rule initrd_image_frame [OF l3(2)])
    show "unat m_initrd_buffer + 76 + length (files ''/apps/init'') \<le> 4294967296" using base app by simp
    show "lmem l' x = lmem l3 x" if "unat x < unat m_initrd_buffer + 76 + length (files ''/apps/init'')" for x
      by (rule low) (use that base app in simp)
  qed
  moreover have "ets_calls l' = ets_calls l @ start_lines @ initrd_lines (of_nat (length (files ''/apps/init''))) @
      kernel_lines (header_of_bytes (take 20 (files ''/kernel'')))"
    using calls l3(3) l2(1) by simp
  ultimately show ?thesis using that kl by blast
qed

end
