(* ===== verification/Boot_Correct.thy ===== *)
theory Boot_Correct
  imports Kmain
begin

section \<open>The boot sequence starts the first application\<close>

text \<open>
  The boot loader puts one application in the initial ramdisk. If the kernel finds it loadable,
  \<^verbatim>\<open>kmain\<close> ends in user mode: the system invariant holds, the application is the running task
  with its initial registers, its image is in its address space and its time slice is running.
\<close>

subsection \<open>Memory outside the kernel's data\<close>

lemma kernel_inv_mem: "kernel_inv s xs \<Longrightarrow> kernel_inv (s\<lparr>mem := m\<rparr>) xs"
proof -
  assume inv: "kernel_inv s xs"
  have "mmu_inv (s\<lparr>mem := m\<rparr>)"
    by (rule mmu_inv_same [of s]) (use inv in \<open>simp_all add: kernel_inv_def sched_inv_def\<close>)
  then show ?thesis
    using inv by (simp add: kernel_inv_def sched_inv_def run_queue_def pages_inv_def get_current_task_def)
qed

text \<open>The image of an application as its task finds it: registers, code and data.\<close>

definition holds_app :: "platform \<Rightarrow> memory \<Rightarrow> u32 \<Rightarrow> ptr \<Rightarrow> kernel \<Rightarrow> bool" where
  "holds_app pf m app p s \<longleftrightarrow> (let h = read_app_header m app in
     saved_regs s p = Some (initial_regs pf (app_entry h)) \<and>
     (\<forall>off < unat (code_size h). space_byte MMU_SPACE_CODE s p off = Some (m (app + 20 + of_nat off))) \<and>
     (\<forall>off < unat (data_size h). off < unat (page_count (data_size h + bss_size h)) * 8192 \<longrightarrow>
        space_byte MMU_SPACE_DATA s p off = Some (m (app + 20 + code_size h + of_nat off))))"

lemma app_loaded_holds: "app_loaded pf app p s s' \<Longrightarrow> holds_app pf (mem s) app p s'"
  by (simp add: app_loaded_def holds_app_def Let_def)

lemma holds_app_frame:
  assumes "holds_app pf m app p s" "saved_regs s' p = saved_regs s p"
    "\<And>ty off. space_byte ty s' p off = space_byte ty s p off"
  shows "holds_app pf m app p s'"
  using assms by (simp add: holds_app_def Let_def)

text \<open>A change of memory outside the user pages changes nothing a task sees.\<close>

lemma user_view_mem:
  assumes inv: "kernel_inv s xs" and m: "\<And>x. x \<in> user_memory \<Longrightarrow> m x = mem s x"
  shows "saved_regs (s\<lparr>mem := m\<rparr>) r = saved_regs s r" "space_byte ty (s\<lparr>mem := m\<rparr>) r off = space_byte ty s r off"
proof -
  have tok: "tasks_ok (tasks s)" and uok: "uctx_ok (tasks s)"
    using inv by (simp_all add: kernel_inv_def sched_inv_def mmu_inv_def)
  show "saved_regs (s\<lparr>mem := m\<rparr>) r = saved_regs s r"
  proof (cases "tasks s r")
    case (Some u)
    have "read_regs (ucontext u + UCONTEXT_REGS) m = read_regs (ucontext u + UCONTEXT_REGS) (mem s)"
      by (rule read_regs_cong) (use uctx_in_user [OF uok Some] m in blast)
    then show ?thesis using Some by (simp add: saved_regs_def)
  qed (simp add: saved_regs_def)
  show "space_byte ty (s\<lparr>mem := m\<rparr>) r off = space_byte ty s r off"
  proof (cases "tasks s r")
    case (Some u)
    show ?thesis
    proof (rule space_byte_cong [OF Some])
      show "tasks (s\<lparr>mem := m\<rparr>) r = Some u" using Some by simp
      fix q x assume q: "q \<in> pages_of (space_of ty (task_mmu u))" and x: "x \<in> page_of ty q"
      have "space_wf (if ty = MMU_SPACE_CODE then 15 else 16) (space_of ty (task_mmu u))"
        using tok Some unfolding tasks_ok_kinds by blast
      then have "q < 16" using q by (auto simp: space_wf_def split: if_splits)
      then show "mem (s\<lparr>mem := m\<rparr>) x = mem s x" using page_of_user [of q ty] x m by auto
    qed simp
  qed (simp add: space_byte_def)
qed

lemma user_view_say:
  "saved_regs ((say line s)\<lparr>mem := m\<rparr>) = saved_regs (s\<lparr>mem := m\<rparr>)"
  "space_byte ty ((say line s)\<lparr>mem := m\<rparr>) r off = space_byte ty (s\<lparr>mem := m\<rparr>) r off"
  by (simp add: saved_regs_def fun_eq_iff) (cases "tasks s r"; simp add: space_byte_def Let_def)

subsection \<open>One application in the ramdisk\<close>

lemma load_entries_one:
  assumes inv: "kernel_inv s xs" and heap: "heap_ok pf s" and one: "initrd_count header (mem s) = 1"
    and ld: "loadable pf (entry + 4) (entry + INITRD_ENTRY_SIZE) (load32 (mem s) entry) s"
    and kept: "header + 4 \<notin> user_memory"
      "snd (umm_malloc pf (sizeof_task_t pf) (mem s)) (header + 4) = mem s (header + 4)"
  obtains p s' where "load_entries pf junk header 0 entry s = Inr (NO_ERROR, s')"
    "kernel_inv s' (xs @ [p])" "p \<notin> dom (tasks s)" "app_loaded pf (entry + INITRD_ENTRY_SIZE) p s s'" "timg s' = timg s"
    "dport s' = dport s"
proof -
  let ?s = "say (loading_line (c_string (entry + 4) (mem s)) (load32 (mem s) entry)) (say (TRACE ''LOL'' []) s)"
  have pre: "kernel_inv ?s xs" "heap_ok pf ?s"
    "loadable pf (entry + 4) (entry + INITRD_ENTRY_SIZE) (load32 (mem s) entry) ?s"
    using inv heap ld by simp_all
  obtain p s' where run: "loader_load_app pf junk (entry + 4) (entry + INITRD_ENTRY_SIZE) (load32 (mem s) entry) ?s = Inr (NO_ERROR, s')"
    and s': "kernel_inv s' (xs @ [p])" "p \<notin> dom (tasks s)" "app_loaded pf (entry + INITRD_ENTRY_SIZE) p s s'" "timg s' = timg s"
    "dport s' = dport s"
    by (rule loader_load_app_ok [OF pre, of junk]) simp
  have "mem s' (header + 4) = mem s (header + 4)"
    using s'(3) kept by (simp add: app_loaded_def Let_def)
  then have one': "initrd_count header (mem s') = 1" using one by (simp add: initrd_count_def)
  have "load_entries pf junk header 1 e s' = Inr (NO_ERROR, s')" for e
    by (subst load_entries.simps) (simp add: one')
  then have "load_entries pf junk header 0 entry s = Inr (NO_ERROR, s')"
    by (subst load_entries.simps) (simp add: one run)
  then show ?thesis using that s' by blast
qed

text \<open>The kernel's copy of the ramdisk: where it is and the state after copying.\<close>

definition initrd_copy :: "platform \<Rightarrow> kernel \<Rightarrow> ptr \<times> kernel" where
  "initrd_copy pf s = (let (header, m) = malloc pf (load32 (mem s) INITRD_HANDOFF) (mem s) in
     (header, s\<lparr>mem := memcpy header INITRD_HANDOFF (load32 m INITRD_HANDOFF) m\<rparr>))"

definition first_app :: "platform \<Rightarrow> kernel \<Rightarrow> u32" where
  "first_app pf s = fst (initrd_copy pf s) + INITRD_HEADER_SIZE + INITRD_ENTRY_SIZE"

definition initrd_ready :: "platform \<Rightarrow> kernel \<Rightarrow> bool" where
  "initrd_ready pf s \<longleftrightarrow> (let (header, s2) = initrd_copy pf s; entry = header + INITRD_HEADER_SIZE in
     header \<noteq> NULL \<and> heap_ok pf s2 \<and> initrd_count header (mem s2) = 1 \<and>
     loadable pf (entry + 4) (entry + INITRD_ENTRY_SIZE) (load32 (mem s2) entry) s2 \<and>
     header + 4 \<notin> user_memory \<and>
     snd (umm_malloc pf (sizeof_task_t pf) (mem s2)) (header + 4) = mem s2 (header + 4) \<and>
     (\<forall>m x. x \<in> user_memory \<longrightarrow> umm_free pf header m x = m x))"

lemma load_from_initrd_ok:
  assumes inv: "kernel_inv s xs" and rd: "initrd_ready pf s"
  obtains p s' where "load_from_initrd pf junk s = Inr (NO_ERROR, s')" "kernel_inv s' (xs @ [p])" "p \<notin> dom (tasks s)"
    "holds_app pf (mem (snd (initrd_copy pf s))) (first_app pf s) p s'" "timg s' = timg s" "dport s' = dport s"
    "get_current_task s' = get_current_task s" "park_callback (get_cpu_context s') = park_callback (get_cpu_context s)"
    "get_cpu_index s' = get_cpu_index s"
proof -
  obtain header m where m: "malloc pf (load32 (mem s) INITRD_HANDOFF) (mem s) = (header, m)" by fastforce
  let ?m2 = "memcpy header INITRD_HANDOFF (load32 m INITRD_HANDOFF) m"
  let ?s0 = "say (initrd_line (ucast (initrd_count INITRD_HANDOFF (mem s))) (load32 (mem s) INITRD_HANDOFF)) s"
  let ?s2 = "s\<lparr>mem := ?m2\<rparr>" and ?s2' = "?s0\<lparr>mem := ?m2\<rparr>"
  let ?entry = "header + INITRD_HEADER_SIZE"
  have cp: "initrd_copy pf s = (header, ?s2)" by (simp add: initrd_copy_def m)
  from rd [unfolded initrd_ready_def cp Let_def prod.case] have rd': "header \<noteq> NULL" "heap_ok pf ?s2"
    "initrd_count header (mem ?s2) = 1"
    "loadable pf (?entry + 4) (?entry + INITRD_ENTRY_SIZE) (load32 (mem ?s2) ?entry) ?s2"
    "header + 4 \<notin> user_memory" "snd (umm_malloc pf (sizeof_task_t pf) (mem ?s2)) (header + 4) = mem ?s2 (header + 4)"
    and fr: "\<And>m x. x \<in> user_memory \<Longrightarrow> umm_free pf header m x = m x" by blast+
  let ?s3 = "say (in_here_line (c_string (?entry + 4) ?m2)) ?s2'"
  have same: "heap_ok pf ?s2' = heap_ok pf ?s2" "loadable pf name app n ?s2' = loadable pf name app n ?s2"
    "app_loaded pf app p ?s2' s3 = app_loaded pf app p ?s2 s3" for name app n p s3
    by (simp_all add: heap_ok_def loadable_def app_loaded_def get_current_task_def user_view_say)
  have inv3: "kernel_inv ?s3 xs" using kernel_inv_mem [of ?s0 xs ?m2] inv by simp
  obtain p s3 where run: "load_entries pf junk header 0 ?entry ?s3 = Inr (NO_ERROR, s3)"
    and s3: "kernel_inv s3 (xs @ [p])" "p \<notin> dom (tasks ?s2)" "app_loaded pf (?entry + INITRD_ENTRY_SIZE) p ?s2 s3"
    "timg s3 = timg ?s2" "dport s3 = dport ?s2"
    by (rule load_entries_one [OF inv3, of pf header ?entry junk]) (use rd' same in simp_all)
  let ?s' = "s3\<lparr>mem := umm_free pf header (mem s3)\<rparr>"
  have "load_from_initrd pf junk s = Inr (NO_ERROR, ?s')"
    using run rd'(1) by (simp add: load_from_initrd_def m Let_def free_def)
  moreover have "kernel_inv ?s' (xs @ [p])" by (rule kernel_inv_mem [OF s3(1)])
  moreover have "holds_app pf (mem (snd (initrd_copy pf s))) (first_app pf s) p ?s'"
  proof (rule holds_app_frame)
    show "holds_app pf (mem (snd (initrd_copy pf s))) (first_app pf s) p s3"
      using app_loaded_holds [OF s3(3)] by (simp add: cp first_app_def)
  qed (use user_view_mem [OF s3(1)] fr in auto)
  moreover have "get_current_task ?s' = get_current_task s" "get_cpu_index ?s' = get_cpu_index s"
    "park_callback (get_cpu_context ?s') = park_callback (get_cpu_context s)"
    using s3(3) by (simp_all add: app_loaded_def Let_def get_current_task_def)
  ultimately show ?thesis using that [of ?s' p] s3 by simp
qed

subsection \<open>Starting the watchdog\<close>

lemma init_wdt_ok:
  assumes fi: "m_free_peripheral_interrupt (dport s) = initial_free_interrupts"
  obtains line d t where "says line" "init_wdt s = Inr (NO_ERROR, (say line s)\<lparr>dport := d, timg := t\<rparr>)"
    "DPORT_IMMU_TABLE d = DPORT_IMMU_TABLE (dport s)" "DPORT_DMMU_TABLE d = DPORT_DMMU_TABLE (dport s)"
    "DPORT_PRO_INT_MAP d 16 = 0" "wdt_enabled t" "wdt_locked t"
proof -
  have fr: "free_interrupts False (dport s) = {0, 1, 2, 3, 4, 5, 8, 9, 12, 13, 17, 18}"
    unfolding free_interrupts_def fi initial_free_interrupts_def bits_of_bits by auto
  have mn: "Min (free_interrupts False (dport s)) = 0"
    unfolding fr by (rule Min_eqI) auto
  have mp: "dport_map_interrupt TG_WDT_LEVEL_INT False s = Inr (NO_ERROR, interrupt_mapped 16 0 s)"
    by (subst dport_map_interrupt_success) (simp_all add: TG_WDT_LEVEL_INT_def mn, simp add: fr)
  show ?thesis
    by (rule that [OF says_mapping]) (simp add: init_wdt_def mp interrupt_mapped_def Let_def,
      simp_all add: wdt_enabled_def wdt_locked_def wdt_defs bit_simps)
qed

lemma init_wdt_inv:
  assumes inv: "kernel_inv s xs" and "DPORT_IMMU_TABLE d = DPORT_IMMU_TABLE (dport s)"
    "DPORT_DMMU_TABLE d = DPORT_DMMU_TABLE (dport s)"
  shows "kernel_inv (s\<lparr>dport := d, timg := t\<rparr>) xs"
proof -
  let ?s' = "s\<lparr>dport := d, timg := t\<rparr>"
  have bs: "the_binding k ?s' = the_binding k s" for k by (simp add: the_binding_def)
  have "owner sel ?s' = owner sel s" for sel by (simp add: owner_def fun_eq_iff bs Let_def)
  then have "mmu_inv ?s'"
    using inv assms(2,3) by (simp add: kernel_inv_def sched_inv_def mmu_inv_def bindings_ok_def bs vdso_ok_def)
  then show ?thesis
    using inv by (simp add: kernel_inv_def sched_inv_def run_queue_def pages_inv_def get_current_task_def)
qed

subsection \<open>The whole boot\<close>

lemma SYSCALL_drop [simp]:
  "regs_wf r \<Longrightarrow> common_syscall_handler pf (set_ret SYSCALL_SCHED_DROP r) s =
     scheduler_on_drop (set_ret 0 (set_ret SYSCALL_SCHED_DROP r)) s"
  by (simp add: common_syscall_handler_def Let_def set_ret_def regs_wf_def SYSCALL_RET_def SYSCALL_NUM_def
      SYSCALL_SCHED_DROP_def SYSCALL_SCHED_PARK_def SYSCALL_SCHED_YIELD_def)

text \<open>Dropping from the boot context runs the first task of the queue.\<close>

lemma first_drop:
  assumes inv: "kernel_inv s (p # xs)" and c: "get_current_task s = NULL"
    and cb: "park_callback (get_cpu_context s) = NULL" and wf: "regs_wf r"
  obtains r' s' where "scheduler_drop_current pf r s = Inr (r', s')" "system_inv (r', s')"
    "get_current_task s' = p" "saved_regs s p = Some r'" "saved_regs s' = saved_regs s"
    "\<And>ty off. space_byte ty s' p off = space_byte ty s p off" "wdt_enabled (timg s')" "kernel_inv s' xs"
proof -
  have si: "sched_inv s (p # xs)" and pi: "pages_inv s" using inv by (simp_all add: kernel_inv_def)
  obtain r' s' where run: "scheduler_on_drop (set_ret 0 (set_ret SYSCALL_SCHED_DROP r)) s = Inr (r', s')"
    and s': "saved_regs s p = Some r'" "sched_inv s' xs" "get_current_task s' = p" "saved_regs s' = saved_regs s"
    "switches_to s' p" "wdt_enabled (timg s')" "sched_frame s s'" "mem s' = mem s"
    by (rule on_drop_starts [OF si c]) blast
  have "p \<noteq> NULL"
    using si grq.rep_elem [of s "p # xs" p] by (simp add: sched_inv_def run_queue_elem_def queue_elem_def)
  moreover have "regs_wf r'" using s'(1) by (auto simp: saved_regs_def)
  moreover have k: "kernel_inv s' xs" using s'(2) pages_inv_frame [OF pi s'(7)] by (simp add: kernel_inv_def)
  moreover have "park_callback (get_cpu_context s') = NULL" using s'(7) cb by (simp add: sched_frame_def)
  ultimately have "system_inv (r', s')" using s'(3,5) by (intro system_invI) simp_all
  moreover have "same_maps (tasks s) (tasks s')" using s'(7) by (simp add: sched_frame_def)
  ultimately show ?thesis
    using that [of r' s'] run s' same_maps_bytes wf k by (simp add: scheduler_drop_current_def)
qed

lemma kmain_ok:
  assumes reset: "reset_ok (kern b)" and init: "kmain_init pf bp b = Inr b1"
    and rd: "initrd_ready pf (kern b1)" and wf: "regs_wf (kmain_regs bp)"
  obtains p r s where "kmain pf bp b = Inr (b1, (r, s))" "system_inv (r, s)" "get_current_task s = p"
    "holds_app pf (mem (snd (initrd_copy pf (kern b1)))) (first_app pf (kern b1)) p s"
    "r = initial_regs pf (app_entry (read_app_header (mem (snd (initrd_copy pf (kern b1)))) (first_app pf (kern b1))))"
    "wdt_enabled (timg s)"
proof -
  let ?m = "mem (snd (initrd_copy pf (kern b1)))" and ?app = "first_app pf (kern b1)"
  have bt: "kernel_inv (kern b1) []" "get_current_task (kern b1) = NULL" "park_callback (get_cpu_context (kern b1)) = NULL"
    "m_free_peripheral_interrupt (dport (kern b1)) = initial_free_interrupts"
    using kmain_init_ok [OF reset init] by (simp_all add: booted_def)
  obtain p s4 where l: "load_from_initrd pf (loader_junk bp) (kern b1) = Inr (NO_ERROR, s4)"
    and inv4: "kernel_inv s4 [p]" and h4: "holds_app pf ?m ?app p s4" and d4: "dport s4 = dport (kern b1)"
    and c4: "get_current_task s4 = NULL" "park_callback (get_cpu_context s4) = NULL"
    by (rule load_from_initrd_ok [OF bt(1) rd, of "loader_junk bp"]) (simp add: bt)
  obtain line d t where w: "init_wdt s4 = Inr (NO_ERROR, (say line s4)\<lparr>dport := d, timg := t\<rparr>)"
    "DPORT_IMMU_TABLE d = DPORT_IMMU_TABLE (dport s4)" "DPORT_DMMU_TABLE d = DPORT_DMMU_TABLE (dport s4)"
    by (rule init_wdt_ok [of s4]) (simp_all add: d4 bt)
  let ?s5 = "(say line s4)\<lparr>dport := d, timg := t\<rparr>"
  have inv5: "kernel_inv ?s5 [p]" by (rule init_wdt_inv) (use inv4 w(2,3) in simp_all)
  have v5: "saved_regs ?s5 = saved_regs s4" "\<And>ty off. space_byte ty ?s5 p off = space_byte ty s4 p off"
    by (simp_all add: saved_regs_def space_byte_def fun_eq_iff Let_def split: option.split)
  have c5: "get_current_task ?s5 = NULL" "park_callback (get_cpu_context ?s5) = NULL"
    using c4 by (simp_all add: get_current_task_def)
  obtain r s where f: "scheduler_drop_current pf (kmain_regs bp) ?s5 = Inr (r, s)" "system_inv (r, s)"
    "get_current_task s = p" "saved_regs ?s5 p = Some r" "saved_regs s = saved_regs ?s5"
    "\<And>ty off. space_byte ty s p off = space_byte ty ?s5 p off" "wdt_enabled (timg s)"
    by (rule first_drop [OF inv5 c5 wf]) blast
  have "kmain pf bp b = Inr (b1, (r, s))" by (simp add: kmain_def kmain_check_def IS_ERROR_def init l w(1) f(1) Let_def)
  moreover have "holds_app pf ?m ?app p s" by (rule holds_app_frame [OF h4]) (simp_all add: f v5)
  moreover have "r = initial_regs pf (app_entry (read_app_header ?m ?app))"
    using h4 f(4) v5 by (simp add: holds_app_def Let_def)
  ultimately show ?thesis using that f by simp
qed

text \<open>Any error of the loader stops the boot; so does a kernel without an application.\<close>

lemma kmain_no_app:
  assumes "kmain_init pf bp b = Inr b1" "load_from_initrd pf (loader_junk bp) (kern b1) = Inr (err, s)" "err \<noteq> NO_ERROR"
  shows "kmain pf bp b = Inl (Assert_failed ''!IS_ERROR(err)'')"
  using assms by (simp add: kmain_def kmain_check_def IS_ERROR_def)

end
