(* ===== verification/Boot_Chain.thy ===== *)
theory Boot_Chain
  imports Boot_Loader_Correct Boot_Correct
begin

section \<open>From flash to user mode\<close>

text \<open>
  The boot loader and the kernel together: the ramdisk the loader leaves is the one the kernel
  copies, and an application that is well formed as a file is loadable in the booted kernel.
\<close>

subsection \<open>Images as byte lists\<close>

definition app_header_of_bytes :: "u8 list \<Rightarrow> app_header" where
  "app_header_of_bytes bs = (let w = (\<lambda>i. word_of_bytes (take 4 (drop (4 * i) bs))) in
     \<lparr>app_magic = w 0, code_size = w 1, data_size = w 2, bss_size = w 3, app_entry = w 4\<rparr>)"

text \<open>
  A well-formed application: the loader's checks pass, code and data are inside the file, and
  it needs at most fifteen pages of each kind.
\<close>

definition app_image :: "u8 list \<Rightarrow> bool" where
  "app_image content \<longleftrightarrow> (let h = app_header_of_bytes content in
     check_app_header h (of_nat (length content)) = None \<and>
     page_count (code_size h) < 16 \<and> page_count (data_size h + bss_size h) < 16 \<and>
     20 + unat (code_size h) + unat (data_size h) \<le> length content)"

lemma load_bytes_sub: "j + k \<le> n \<Longrightarrow> load_bytes m (a + of_nat j) k = take k (drop j (load_bytes m a n))"
  by (rule nth_equalityI) (simp_all add: load_bytes_def add.assoc)

lemma read_app_header_bytes:
  assumes at: "load_bytes m a (length content) = content" and len: "20 \<le> length content"
  shows "read_app_header m a = app_header_of_bytes content"
proof -
  have w: "load32 m (a + of_nat j) = word_of_bytes (take 4 (drop j content))" if "j + 4 \<le> 20" for j
    using load_bytes_sub [of j 4 "length content" m a] that len at by (simp add: load32_def)
  show ?thesis
    using w [of 0] w [of 4] w [of 8] w [of 12] w [of 16]
    by (simp add: read_app_header_def app_header_of_bytes_def Let_def)
qed

lemma initrd_image_move:
  assumes img: "initrd_image a content m" and eq: "\<And>i. i < 76 + length content \<Longrightarrow> m' (b + of_nat i) = m (a + of_nat i)"
  shows "initrd_image b content m'"
proof -
  have sub: "load_bytes m' (b + of_nat j) k = load_bytes m (a + of_nat j) k" if "j + k \<le> 76 + length content" for j k
    by (rule nth_equalityI) (use eq that in \<open>simp_all add: load_bytes_def add.assoc flip: of_nat_add\<close>)
  have "load32 m' b = load32 m a" "load32 m' (b + 8) = load32 m (a + 8)"
    using sub [of 0 4] sub [of 8 4] by (simp_all add: load32_def)
  moreover have "m' (b + 4) = m (a + 4)" using eq [of 4] by simp
  moreover have "load_bytes m' (b + 12) 5 = load_bytes m (a + 12) 5"
    "load_bytes m' (b + 76) (length content) = load_bytes m (a + 76) (length content)"
    using sub [of 12 5] sub [of 76 "length content"] by simp_all
  ultimately show ?thesis
    using img by (simp add: initrd_image_def initrd_count_def INITRD_HEADER_SIZE_def INITRD_ENTRY_SIZE_def add.assoc)
qed

subsection \<open>What the heap must provide\<close>

text \<open>
  The two allocations of the boot, the copy of the ramdisk and the task, succeed and spare
  the ramdisk, its copy and the user pages.
\<close>

definition boot_heap :: "platform \<Rightarrow> kernel \<Rightarrow> nat \<Rightarrow> bool" where
  "boot_heap pf s n \<longleftrightarrow>
     (let (header, m1) = umm_malloc pf (of_nat n) (mem s);
          m2 = memcpy header INITRD_HANDOFF (of_nat n) m1;
          (p, m3) = umm_malloc pf (sizeof_task_t pf) m2
      in header \<noteq> NULL \<and> p \<noteq> NULL \<and>
         (\<forall>i<n. m1 (INITRD_HANDOFF + of_nat i) = mem s (INITRD_HANDOFF + of_nat i)) \<and>
         (\<forall>i<n. header + of_nat i \<notin> user_memory \<and> m3 (header + of_nat i) = m2 (header + of_nat i)) \<and>
         (\<forall>k x. x \<in> user_memory \<longrightarrow> snd (umm_malloc pf k m2) x = m2 x) \<and>
         (\<forall>q m x. x \<in> user_memory \<longrightarrow> umm_free pf q m x = m x))"

lemma initrd_copied:
  assumes img: "initrd_image INITRD_HANDOFF content (mem s)" and n: "n = 76 + length content" "n \<le> 0xE000"
    and heap: "boot_heap pf s n"
  shows "initrd_copy pf s = (fst (umm_malloc pf (of_nat n) (mem s)),
      s\<lparr>mem := memcpy (fst (umm_malloc pf (of_nat n) (mem s))) INITRD_HANDOFF (of_nat n) (snd (umm_malloc pf (of_nat n) (mem s)))\<rparr>)"
    "initrd_image (fst (initrd_copy pf s)) content (mem (snd (initrd_copy pf s)))"
proof -
  obtain header m1 where m: "umm_malloc pf (of_nat n) (mem s) = (header, m1)" by fastforce
  have sz: "load32 (mem s) INITRD_HANDOFF = of_nat n" using img n by (simp add: initrd_image_def)
  have eq1: "m1 (INITRD_HANDOFF + of_nat i) = mem s (INITRD_HANDOFF + of_nat i)" if "i < n" for i
    using heap m that by (auto simp: boot_heap_def Let_def split: prod.splits)
  have img1: "initrd_image INITRD_HANDOFF content m1"
    by (rule initrd_image_move [OF img]) (use eq1 n in simp)
  then have sz1: "load32 m1 INITRD_HANDOFF = of_nat n" using n by (simp add: initrd_image_def)
  have cp: "initrd_copy pf s = (header, s\<lparr>mem := memcpy header INITRD_HANDOFF (of_nat n) m1\<rparr>)"
    by (simp add: initrd_copy_def malloc_def sz m sz1)
  then show "initrd_copy pf s = (fst (umm_malloc pf (of_nat n) (mem s)),
      s\<lparr>mem := memcpy (fst (umm_malloc pf (of_nat n) (mem s))) INITRD_HANDOFF (of_nat n) (snd (umm_malloc pf (of_nat n) (mem s)))\<rparr>)"
    by (simp add: m)
  have "unat (of_nat n :: u32) = n" by (rule unat_of_nat_small) (use n in simp)
  then have "memcpy header INITRD_HANDOFF (of_nat n) m1 (header + of_nat i) = m1 (INITRD_HANDOFF + of_nat i)" if "i < n" for i
    using memcpy_at [of header INITRD_HANDOFF "of_nat n" m1 "header + of_nat i"] that n
    by (simp add: unat_of_nat)
  then have "initrd_image header content (memcpy header INITRD_HANDOFF (of_nat n) m1)"
    by (intro initrd_image_move [OF img1]) (use n in simp)
  then show "initrd_image (fst (initrd_copy pf s)) content (mem (snd (initrd_copy pf s)))" by (simp add: cp)
qed

lemma app_imageD:
  assumes "app_image content" "h = app_header_of_bytes content"
  shows "check_app_header h (of_nat (length content)) = None" "page_count (code_size h) < 16"
    "page_count (data_size h + bss_size h) < 16" "20 + unat (code_size h) + unat (data_size h) \<le> length content"
  using assms by (auto simp: app_image_def Let_def)

text \<open>The booted kernel finds the loader's ramdisk ready to load.\<close>

lemma initrd_image_ready:
  assumes bt: "booted s" and img: "initrd_image INITRD_HANDOFF content (mem s)" and app: "app_image content"
    and n: "n = 76 + length content" "n \<le> 0xE000" and heap: "boot_heap pf s n"
  shows "initrd_ready pf s"
    "read_app_header (mem (snd (initrd_copy pf s))) (first_app pf s) = app_header_of_bytes content"
    "\<And>i. i < length content \<Longrightarrow> mem (snd (initrd_copy pf s)) (first_app pf s + of_nat i) = content ! i"
proof -
  obtain header s2 where cp: "initrd_copy pf s = (header, s2)" by fastforce
  obtain p m3 where p: "umm_malloc pf (sizeof_task_t pf) (mem s2) = (p, m3)" by fastforce
  note cpd = initrd_copied [OF img n heap]
  have s2: "s2 = s\<lparr>mem := mem s2\<rparr>" using cpd(1) cp by auto
  have img2: "initrd_image header content (mem s2)" using cpd(2) cp by simp
  have ts: "tasks s2 = Map.empty" and um: "umem s2 = umem_init"
    using bt by (subst s2, simp add: booted_def)+
  have hp: "header \<noteq> NULL" "p \<noteq> NULL" "\<And>i. i < n \<Longrightarrow> header + of_nat i \<notin> user_memory \<and> m3 (header + of_nat i) = mem s2 (header + of_nat i)"
    "\<And>k x. x \<in> user_memory \<Longrightarrow> snd (umm_malloc pf k (mem s2)) x = mem s2 x" "\<And>q m x. x \<in> user_memory \<Longrightarrow> umm_free pf q m x = m x"
    using heap p cpd(1) cp by (auto simp: boot_heap_def Let_def split: prod.splits)
  let ?h = "app_header_of_bytes content" and ?app = "header + INITRD_HEADER_SIZE + INITRD_ENTRY_SIZE"
  note ai = app_imageD [OF app refl]
  have app76: "?app + of_nat i = header + of_nat (76 + i)" for i
    by (simp add: INITRD_HEADER_SIZE_def INITRD_ENTRY_SIZE_def add.assoc)
  have bytes: "load_bytes (mem s2) ?app (length content) = content" using img2 by (simp add: initrd_image_def)
  have hdr: "read_app_header (mem s2) ?app = ?h" by (rule read_app_header_bytes [OF bytes]) (use ai(4) in simp)
  have c12: "c_string (header + INITRD_HEADER_SIZE + 4) (mem s2) = ''init''"
    using c_string_init [of "mem s2" "header + 12"] img2 by (simp add: initrd_image_def INITRD_HEADER_SIZE_def add.assoc)
  have cnt: "initrd_count header (mem s2) = 1" "load32 (mem s2) (header + INITRD_HEADER_SIZE) = of_nat (length content)"
    using img2 by (simp_all add: initrd_image_def)
  have ld: "loadable pf (header + INITRD_HEADER_SIZE + 4) ?app (of_nat (length content)) s2"
    unfolding loadable_def Let_def hdr c12
  proof (intro conjI allI impI)
    show "unat (page_count (code_size ?h)) \<le> card (code_free (umem s2))"
      using ai(2) by (simp add: um code_free_init word_less_nat_alt)
    show "unat (page_count (data_size ?h + bss_size ?h)) < card (data_free (umem s2))"
      using ai(3) by (simp add: um data_free_init word_less_nat_alt)
    show "\<exists>cs. format_text ''init'' [] = Inr cs" by simp
    fix j assume "j < 20 + unat (code_size ?h) + unat (data_size ?h)"
    then have j: "76 + j < n" using ai(4) n by simp
    show "?app + of_nat j \<notin> user_memory" "snd (umm_malloc pf (sizeof_task_t pf) (mem s2)) (?app + of_nat j) = mem s2 (?app + of_nat j)"
      unfolding app76 p snd_conv using hp(3) [OF j] by blast+
  qed (use ai p hp(2) in simp_all)
  have hk: "heap_ok pf s2" using hp ts by (simp add: heap_ok_def)
  show "initrd_ready pf s"
    unfolding initrd_ready_def cp Let_def prod.case
    using hp cnt ld hk p n hp(3) [of 4] by (auto simp: add.assoc INITRD_ENTRY_SIZE_def)
  show "read_app_header (mem (snd (initrd_copy pf s))) (first_app pf s) = ?h"
    using hdr by (simp add: cp first_app_def)
  show "mem (snd (initrd_copy pf s)) (first_app pf s + of_nat i) = content ! i" if "i < length content" for i
    using arg_cong [OF bytes, of "\<lambda>l. l ! i"] that by (simp add: cp first_app_def)
qed

subsection \<open>Power on\<close>

text \<open>The first task has the file's code and data in its address space.\<close>

definition runs_app :: "platform \<Rightarrow> u8 list \<Rightarrow> ptr \<Rightarrow> kernel \<Rightarrow> bool" where
  "runs_app pf content p s \<longleftrightarrow> (let h = app_header_of_bytes content in
     (\<forall>off < unat (code_size h). space_byte MMU_SPACE_CODE s p off = Some (content ! (20 + off))) \<and>
     (\<forall>off < unat (data_size h). off < unat (page_count (data_size h + bss_size h)) * 8192 \<longrightarrow>
        space_byte MMU_SPACE_DATA s p off = Some (content ! (20 + unat (code_size h) + off))))"

lemma holds_app_runs:
  assumes h: "holds_app pf m app p s" and hdr: "read_app_header m app = app_header_of_bytes content"
    and bytes: "\<And>i. i < length content \<Longrightarrow> m (app + of_nat i) = content ! i" and app: "app_image content"
  shows "runs_app pf content p s"
  unfolding runs_app_def Let_def
proof (intro conjI allI impI)
  let ?h = "app_header_of_bytes content"
  note len = app_imageD(4) [OF app refl]
  show "space_byte MMU_SPACE_CODE s p off = Some (content ! (20 + off))" if "off < unat (code_size ?h)" for off
    using h bytes [of "20 + off"] len that by (simp add: holds_app_def hdr Let_def add.assoc)
  show "space_byte MMU_SPACE_DATA s p off = Some (content ! (20 + unat (code_size ?h) + off))"
    if "off < unat (data_size ?h)" "off < unat (page_count (data_size ?h + bss_size ?h)) * 8192" for off
    using h bytes [of "20 + unat (code_size ?h) + off"] len that by (simp add: holds_app_def hdr Let_def add.assoc)
qed

lemma power_on_ok:
  assumes img: "initrd_image m_initrd_buffer content m" and app: "app_image content"
    and n: "n = 76 + length content" "n \<le> 0xE000"
    and reset: "reset_ok (kern b)" and init: "kmain_init pf bp b = Inr b1"
    and kept: "\<And>i. i < n \<Longrightarrow> mem (kern b1) (INITRD_HANDOFF + of_nat i) = m (m_initrd_buffer + of_nat i)"
    and heap: "boot_heap pf (kern b1) n" and wf: "regs_wf (kmain_regs bp)"
  obtains p r s where "kmain pf bp b = Inr (b1, (r, s))" "system_inv (r, s)" "get_current_task s = p"
    "r = initial_regs pf (app_entry (app_header_of_bytes content))" "runs_app pf content p s" "wdt_enabled (timg s)"
proof -
  have bt: "booted (kern b1)" using kmain_init_ok [OF reset init] by blast
  have img1: "initrd_image INITRD_HANDOFF content (mem (kern b1))"
    by (rule initrd_image_move [OF img]) (use kept n in simp)
  note rd = initrd_image_ready [OF bt img1 app n heap]
  obtain p r s where k: "kmain pf bp b = Inr (b1, (r, s))" "system_inv (r, s)" "get_current_task s = p"
    "holds_app pf (mem (snd (initrd_copy pf (kern b1)))) (first_app pf (kern b1)) p s"
    "r = initial_regs pf (app_entry (read_app_header (mem (snd (initrd_copy pf (kern b1)))) (first_app pf (kern b1))))"
    "wdt_enabled (timg s)"
    by (rule kmain_ok [OF reset init rd(1) wf])
  have "runs_app pf content p s" by (rule holds_app_runs [OF k(4) rd(2,3) app])
  then show ?thesis using that k rd(2) by simp
qed

end
