(* ===== verification/Example.thy ===== *)
theory Example
  imports Boot_Chain
begin

section \<open>A machine to try the kernel on\<close>

text \<open>
  Concrete files, a concrete heap and the state after reset. Booting them gives a running
  kernel, which shows that the hypotheses of the theorems can hold.
\<close>

subsection \<open>The files in flash\<close>

definition demo_app :: "u8 list" where
  "demo_app = [0x41, 0x50, 0x50, 0x20] @ [4, 0, 0, 0] @ [4, 0, 0, 0] @ [8, 0, 0, 0] @ [0, 0, 0x08, 0x40] @
     [1, 2, 3, 4] @ [5, 6, 7, 8]"

definition demo_kernel :: "u8 list" where
  "demo_kernel = [0x4b, 0x52, 0x4e, 0x4c] @ [4, 0, 0, 0] @ [8, 0, 0, 0] @ [4, 0, 0, 0] @ [0, 0, 0x0a, 0x40] @
     [10, 11, 12, 13] @ [20, 21, 22, 23, 24, 25, 26, 27] @ [30, 31, 32, 33]"

definition demo_files :: "string \<Rightarrow> u8 list" where
  "demo_files name = (if name = ''/kernel'' then demo_kernel else if name = ''/apps/init'' then demo_app else [])"

text \<open>The file system's state is the open file's name and position.\<close>

definition demo_env :: "(string \<times> nat) loader_env" where
  "demo_env = \<lparr>
     lfs_mount = (\<lambda>f. (0, f)),
     lfs_stat = (\<lambda>name f. ((0, of_nat (length (demo_files name))), f)),
     lfs_file_opencfg = (\<lambda>name f. (0, (name, 0))),
     lfs_file_seek = (\<lambda>off f. (off, (fst f, unat off))),
     lfs_file_read = (\<lambda>n f. let k = min (unat n) (length (demo_files (fst f)) - snd f) in
       ((of_nat k, take k (drop (snd f) (demo_files (fst f)))), (fst f, snd f + k))),
     esp_rom_spiflash_read = (\<lambda>a n. (0, replicate (unat n) 0)),
     esp_rom_spiflash_config_param = 0,
     uart_rx_one_char = (\<lambda>n. if n < 3 then 1 else 0)\<rparr>"

lemma demo_file_env: "file_env demo_env demo_files (\<lambda>f. f)"
  by (simp add: file_env_def demo_env_def Let_def split: prod.split)

lemma demo_kernel_header: "header_of_bytes (take 20 demo_kernel) =
    \<lparr>k_magic = KERNEL_MAGIC, k_code_size = 4, k_data_size = 8, k_vdso_size = 4, entry_point = KERNEL_CODE_BASE\<rparr>"
  by (simp add: header_of_bytes_def demo_kernel_def word_of_bytes_def KERNEL_MAGIC_def KERNEL_CODE_BASE_def Let_def)

lemma demo_kernel_image: "kernel_image (demo_files ''/kernel'')"
  by (simp add: demo_files_def kernel_image_def demo_kernel_header check_kernel_header_def KERNEL_CODE_BASE_def)
    (simp add: demo_kernel_def)

lemma demo_app_header: "app_header_of_bytes demo_app =
    \<lparr>app_magic = APP_HEADER_MAGIC, code_size = 4, data_size = 4, bss_size = 8, app_entry = USER_CODE_BASE\<rparr>"
  by (simp add: app_header_of_bytes_def demo_app_def word_of_bytes_def APP_HEADER_MAGIC_def USER_CODE_BASE_def Let_def)

lemma length_demo_app: "length demo_app = 28" by (simp add: demo_app_def)

lemma demo_app_image: "app_image demo_app"
  by (simp add: app_image_def demo_app_header check_app_header_def APP_HEADER_SIZE_def USER_CODE_BASE_def length_demo_app
      page_count_def ALIGN_UP_def USER_PAGE_SIZE_def)

subsection \<open>The heap\<close>

text \<open>A heap that never reuses a block: the next free address is kept in one word of memory.\<close>

definition demo_cell :: u32 where "demo_cell = 0x3FFF0000"

definition demo_pf :: platform where
  "demo_pf = \<lparr>
     umm_malloc = (\<lambda>n m. (load32 m demo_cell, store32 demo_cell (load32 m demo_cell + n) m)),
     umm_free = (\<lambda>p m. m),
     umm_init = (\<lambda>a n m. store32 demo_cell a m),
     task_trampoline = 0x4009E000,
     sizeof_task_t = 0x200,
     park_call = (\<lambda>cb arg s. Inr s)\<rparr>"

subsection \<open>The state after reset\<close>

definition demo_dport :: dport where
  "demo_dport = \<lparr>DPORT_PRO_BOOT_REMAP_CTRL = 1, DPORT_APP_BOOT_REMAP_CTRL = 1, DPORT_CACHE_MUX_MODE = 1,
     DPORT_INTR_FROM_CPU = (\<lambda>_. 0), DPORT_PRO_INTR_STATUS = (\<lambda>_. 0), DPORT_PRO_INT_MAP = (\<lambda>_. 0),
     DPORT_APP_INT_MAP = (\<lambda>_. 0), DPORT_PRO_CACHE_CTRL = 0, DPORT_APP_CACHE_CTRL = 0, DPORT_IMMU_PAGE_MODE = 0,
     DPORT_DMMU_PAGE_MODE = 0, DPORT_AHB_MPU_TABLE = (\<lambda>_. 0), DPORT_AHBLITE_MPU_TABLE = (\<lambda>_. 0),
     DPORT_IMMU_TABLE = (\<lambda>_. \<lparr>address = 0, access_rights = 0, mmu_reserved = 0\<rparr>),
     DPORT_DMMU_TABLE = (\<lambda>_. \<lparr>address = 0, access_rights = 0, mmu_reserved = 0\<rparr>),
     DPORT_PRO_VECBASE_CTRL_REG = 0, DPORT_PRO_VECBASE_SET_REG = 0, DPORT_APP_VECBASE_CTRL_REG = 0,
     DPORT_APP_VECBASE_SET_REG = 0, m_free_peripheral_interrupt = initial_free_interrupts\<rparr>"

definition demo_core :: per_cpu_context where
  "demo_core = \<lparr>next_stamp = 0, pid_bindings = (\<lambda>_. \<lparr>primary_stamp = 0, bound_space = NULL, pid = 0\<rparr>),
     primary_binding = None, preempt_disable_depth = 0, current_task = NULL, park_callback = NULL, park_arg = NULL\<rparr>"

definition demo_reset :: "memory \<Rightarrow> kernel" where
  "demo_reset m = \<lparr>prid = 0xCDCD, dport = demo_dport,
     pidctrl = \<lparr>PIDCTRL_INTERRUPT_ENABLE = 0, PIDCTRL_INTERRUPT_ADDR = (\<lambda>_. 0), PIDCTRL_PID_DELAY = 0, PIDCTRL_LEVEL = 0,
       PIDCTRL_FROM = (\<lambda>_. 0), PIDCTRL_PID_NEW_REG = 0\<rparr>,
     timg = \<lparr>timg_regs = (\<lambda>_. 0), timg_writes = []\<rparr>, g_per_cpu_context = (\<lambda>_. demo_core), tasks = Map.empty, mem = m,
     m_global_run_queue = \<lparr>head = NULL, tail = NULL\<rparr>, m_global_run_queue_size = 0, umem = umem_init,
     m_pid_gen = 0, console = []\<rparr>"

lemma demo_reset_ok: "reset_ok (demo_reset m)"
  by (simp add: reset_ok_def demo_reset_def demo_dport_def demo_core_def get_cpu_index_def get_current_task_def
      get_cpu_context_def the_binding_def)

subsection \<open>The loader's run\<close>

definition demo_loader :: "(string \<times> nat) loader" where
  "demo_loader = \<lparr>lmem = (\<lambda>_. 0), TIMG0_Tx_WDTCONFIG0 = 1, TIMG1_Tx_WDTCONFIG0 = 1, RTC_CNTL_WDTCONFIG0 = 1, lfs = ([], 0),
     ets_calls = []\<rparr>"

definition demo_flashed :: memory where
  "demo_flashed = (case loader_start demo_env demo_loader of Inr (_, l) \<Rightarrow> lmem l | Inl _ \<Rightarrow> (\<lambda>_. 0))"

lemma demo_uart: "uart_rx_one_char demo_env 3 = 0" and demo_flash_config: "esp_rom_spiflash_config_param demo_env = 0"
  by (simp_all add: demo_env_def)

lemma demo_flashed: "kernel_loaded demo_kernel demo_flashed" "initrd_image m_initrd_buffer demo_app demo_flashed"
proof -
  have files: "demo_files ''/kernel'' = demo_kernel" "demo_files ''/apps/init'' = demo_app"
    by (simp_all add: demo_files_def)
  obtain l' where "loader_start demo_env demo_loader =
      Inr (entry_point (header_of_bytes (take 20 (demo_files ''/kernel''))), l')"
    "kernel_loaded (demo_files ''/kernel'') (lmem l')" "initrd_image m_initrd_buffer (demo_files ''/apps/init'') (lmem l')"
    by (rule loader_start_ok [OF demo_file_env demo_uart demo_flash_config demo_kernel_image, of demo_loader])
      (simp add: files length_demo_app)
  then show "kernel_loaded demo_kernel demo_flashed" "initrd_image m_initrd_buffer demo_app demo_flashed"
    by (simp_all add: demo_flashed_def files)
qed

subsection \<open>The kernel's boot\<close>

definition zero_regs :: task_regs where
  "zero_regs = \<lparr>ar = replicate 64 0, sar = 0, lbeg = 0, lend = 0, lcount = 0, pc = 0, ps = 0, windowbase = 0,
     windowstart = 0, windowmask = 0, windowsize = 0\<rparr>"

definition demo_bp :: boot_params where
  "demo_bp = \<lparr>vecbase = 0x400A0000, heap_start_sym = 0x3FFE8002, heap_size_sym = 0x4000,
     pro_cache_reads = (\<lambda>n. if n < 3 then 0 else 0x20), app_cache_reads = (\<lambda>_. 0x20), loader_junk = NULL,
     kmain_regs = zero_regs\<rparr>"

definition demo_boot :: boot where
  "demo_boot = \<lparr>special = \<lparr>PS = 0, INTENABLE = 0, INTCLEAR = 0\<rparr>, serial = \<lparr>UART0_INT_ENA = 1, uart_fifo_writes = []\<rparr>,
     UMM_MALLOC_CFG_HEAP_ADDR = 0, UMM_MALLOC_CFG_HEAP_SIZE = 0, kern = demo_reset demo_flashed\<rparr>"

definition demo_booted :: boot where
  "demo_booted = (case kmain_init demo_pf demo_bp demo_boot of Inr b \<Rightarrow> b | Inl _ \<Rightarrow> demo_boot)"

lemma zero_regs_wf: "regs_wf zero_regs" by (simp add: zero_regs_def regs_wf_def)

lemma demo_init: "kmain_init demo_pf demo_bp demo_boot = Inr demo_booted"
proof -
  have p: "poll_flush_done (pro_cache_reads demo_bp) 1 = Some 4" "poll_flush_done (app_cache_reads demo_bp) 1 = Some 2"
    by (simp_all add: demo_bp_def poll_flush_done.simps)
  have v: "vecbase demo_bp AND (push_bit 10 1 - 1) = 0" by (simp add: demo_bp_def)
  have c: "get_cpu_index (kern demo_boot) = 0" by (simp add: demo_boot_def demo_reset_def get_cpu_index_def)
  have "kmain_init demo_pf demo_bp demo_boot \<noteq> Inl x" for x
    using p v c by (simp add: kmain_init_def init_dport_def flushed_and_enabled_def init_mem_def init_mmu_def
        kmain_check_def IS_ERROR_def Let_def)
  then show ?thesis by (cases "kmain_init demo_pf demo_bp demo_boot") (auto simp: demo_booted_def)
qed

lemma demo_booted_mem: "mem (kern demo_booted) = store32 demo_cell 0x3FFE8004 demo_flashed"
proof -
  have "reset_ok (kern demo_boot)" by (simp add: demo_boot_def demo_reset_ok)
  from kmain_init_ok [OF this demo_init] show ?thesis
    by (auto simp: init_mem_def Let_def demo_bp_def demo_pf_def demo_boot_def demo_reset_def ALIGN_UP_def)
qed

lemma user_memory_bounds:
  assumes "x \<in> user_memory"
  shows "0x3FFC0000 \<le> unat x \<and> unat x < 0x3FFE0000 \<or> 0x40080000 \<le> unat x \<and> unat x < 0x400A0000"
proof -
  have a: "unat (of_nat q * 0x2000 + b :: u32) = q * 0x2000 + unat b" if "q < 16" "unat b + 0x20000 < 4294967296" for q b
  proof -
    have "of_nat q * 0x2000 + b = (of_nat (q * 0x2000 + unat b) :: u32)" by simp
    moreover have "q * 0x2000 + unat b < 4294967296" using that by simp
    ultimately show ?thesis by (simp only: unat_of_nat_small)
  qed
  obtain q where q: "q < 16" "x \<in> data_page q \<or> x \<in> code_page q" using assms by (auto simp: user_memory_def)
  have d: "unat (DATA_PAGE_ADDR (of_nat q)) = q * 0x2000 + 0x3FFC0000" "unat (CODE_PAGE_ADDR (of_nat q)) = q * 0x2000 + 0x40080000"
    using a [OF q(1), of USER_DATA_BASE] a [OF q(1), of USER_CODE_BASE]
    by (simp_all add: DATA_PAGE_ADDR_def CODE_PAGE_ADDR_def USER_PAGE_SIZE_def USER_DATA_BASE_def USER_CODE_BASE_def)
  from q(2) show ?thesis
  proof
    assume "x \<in> data_page q"
    from region_bounds [OF this [unfolded data_page_def]] d q(1) show ?thesis by simp
  next
    assume "x \<in> code_page q"
    from region_bounds [OF this [unfolded code_page_def]] d q(1) show ?thesis by simp
  qed
qed

lemma kernel_memory: "0x3FFE0000 \<le> unat x \<Longrightarrow> unat x < 0x40080000 \<Longrightarrow> x \<notin> user_memory"
  using user_memory_bounds [of x] by auto

lemma demo_cell_region: "x \<in> region demo_cell 4 \<Longrightarrow> 0x3FFF0000 \<le> unat x \<and> unat x < 0x3FFF0004"
  using region_bounds [of x demo_cell 4] by (simp add: demo_cell_def)

lemma demo_malloc_elsewhere: "\<not> (0x3FFF0000 \<le> unat x \<and> unat x < 0x3FFF0004) \<Longrightarrow> snd (umm_malloc demo_pf n m) x = m x"
  using demo_cell_region by (auto simp: demo_pf_def intro: store32_other)

lemma demo_malloc_user: "x \<in> user_memory \<Longrightarrow> snd (umm_malloc demo_pf n m) x = m x"
  by (rule demo_malloc_elsewhere) (use user_memory_bounds [of x] in auto)

lemma demo_boot_heap: "boot_heap demo_pf (kern demo_booted) 104"
proof -
  let ?m = "store32 demo_cell 0x3FFE8004 demo_flashed" and ?h = "0x3FFE8004 :: u32"
  define m1 where "m1 = store32 demo_cell (?h + 104) ?m"
  have m1: "umm_malloc demo_pf 104 ?m = (?h, m1)" by (simp add: demo_pf_def load_store32 m1_def)
  let ?m2 = "memcpy ?h INITRD_HANDOFF 104 m1"
  have uh: "unat (?h + of_nat i) = 0x3FFE8004 + i" if "i < 104" for i
    using that by (simp add: unat_word_ariths unat_of_nat)
  have uo: "unat (INITRD_HANDOFF + of_nat i) = 0x3FFC2000 + i" if "i < 104" for i
    using that by (simp add: unat_word_ariths unat_of_nat INITRD_HANDOFF_def)
  have cell: "load32 ?m2 demo_cell = ?h + 104"
  proof -
    have "load32 ?m2 demo_cell = load32 m1 demo_cell"
    proof (rule load32_cong)
      fix x assume x: "x \<in> region demo_cell 4"
      have "\<not> unat (x - ?h) < 104"
        using region_bounds [of x ?h 104] demo_cell_region [OF x] by (auto simp: region_def)
      then show "?m2 x = m1 x" by (simp add: memcpy_at)
    qed
    then show ?thesis by (simp add: m1_def load_store32)
  qed
  then have p: "fst (umm_malloc demo_pf (sizeof_task_t demo_pf) ?m2) \<noteq> NULL" by (simp add: demo_pf_def)
  obtain t m3 where t: "umm_malloc demo_pf (sizeof_task_t demo_pf) ?m2 = (t, m3)" by fastforce
  have "m1 (INITRD_HANDOFF + of_nat i) = ?m (INITRD_HANDOFF + of_nat i)" if i: "i < 104" for i
    using demo_malloc_elsewhere [of "INITRD_HANDOFF + of_nat i" 104 ?m] uo [OF i] i unfolding m1 by simp
  moreover have "?h + of_nat i \<notin> user_memory" if "i < 104" for i
    by (rule kernel_memory) (use uh [OF that] that in simp_all)
  moreover have "m3 (?h + of_nat i) = ?m2 (?h + of_nat i)" if i: "i < 104" for i
  proof -
    have "snd (umm_malloc demo_pf (sizeof_task_t demo_pf) ?m2) (?h + of_nat i) = ?m2 (?h + of_nat i)"
      by (rule demo_malloc_elsewhere) (use uh [OF i] i in simp)
    then show ?thesis unfolding t snd_conv .
  qed
  moreover have "umm_free demo_pf q m x = m x" for q m x by (simp add: demo_pf_def)
  moreover have "t \<noteq> NULL" using p unfolding t fst_conv .
  moreover have "?h \<noteq> NULL" by simp
  ultimately show ?thesis
    unfolding boot_heap_def demo_booted_mem of_nat_numeral m1 Let_def prod.case t
    using demo_malloc_user by blast
qed

subsection \<open>Two tasks\<close>

definition demo_spawn :: "u32 \<Rightarrow> kernel \<Rightarrow> kernel run" where
  "demo_spawn entry s = andthen (create_task demo_pf entry ''worker'' [] s) (\<lambda>(t, s1). scheduler_ready_task t s1)"

lemma demo_spawn_ok:
  assumes inv: "kernel_inv s xs" and a: "load32 (mem s) demo_cell = a" "a \<noteq> NULL" "a \<notin> dom (tasks s)"
    and q: "data_free (umem s) \<noteq> {}"
  obtains s' where "demo_spawn entry s = Inr s'" "kernel_inv s' (xs @ [a])" "dom (tasks s') = insert a (dom (tasks s))"
    "load32 (mem s') demo_cell = a + 0x200" "data_free (umem s') = data_free (umem s) - {Min (data_free (umem s))}"
    "saved_regs s' = (saved_regs s)(a \<mapsto> initial_regs demo_pf entry)" "get_current_task s' = get_current_task s"
    "park_callback (get_cpu_context s') = park_callback (get_cpu_context s)"
proof -
  have heap: "heap_ok demo_pf s"
    using a demo_malloc_user by (auto simp: heap_ok_def) (auto simp: demo_pf_def)
  let ?m = "store32 demo_cell (a + 0x200) (mem s)" and ?q = "Min (data_free (umem s))"
  have m: "umm_malloc demo_pf (sizeof_task_t demo_pf) (mem s) = (a, ?m)" using a by (simp add: demo_pf_def)
  have nm: "format_text ''worker'' [] = Inr ''worker''" by simp
  obtain s1 where c: "create_task demo_pf entry ''worker'' [] s = Inr (a, s1)" "kernel_inv s1 xs"
    "tasks s1 = (tasks s)(a \<mapsto> \<lparr>task_pid = m_pid_gen s, task_mmu = uctx_space ?q,
        status = TASK_STATUS_WAITING, sched_link = NULL, ucontext = DATA_PAGE_ADDR (of_nat ?q)\<rparr>)"
    "data_free (umem s1) = data_free (umem s) - {?q}"
    "saved_regs s1 = (saved_regs s)(a \<mapsto> initial_regs demo_pf entry)"
    "get_current_task s1 = get_current_task s" "\<And>x. x \<notin> data_page ?q \<Longrightarrow> mem s1 x = ?m x"
    "s1 = s\<lparr>tasks := tasks s1, mem := mem s1, umem := umem s1, m_pid_gen := m_pid_gen s + 1\<rparr>"
    by (rule create_task_ok [OF inv heap m a(2) q refl nm]) blast
  have si: "sched_inv s1 xs" and pi: "pages_inv s1" using c(2) by (simp_all add: kernel_inv_def)
  obtain s' where r: "scheduler_ready_task a s1 = Inr s'" "sched_inv s' (xs @ [a])" "saved_regs s' = saved_regs s1"
    "sched_frame s1 s'" "get_current_task s' = get_current_task s1" "mem s' = mem s1"
    by (rule ready_task_ok [OF si, of a]) (use c(3) in auto)
  have "kernel_inv s' (xs @ [a])" using r(2) pages_inv_frame [OF pi r(4)] by (simp add: kernel_inv_def)
  moreover have "load32 (mem s') demo_cell = a + 0x200"
  proof -
    have "load32 (mem s1) demo_cell = load32 ?m demo_cell"
    proof (rule load32_cong)
      fix x assume x: "x \<in> region demo_cell 4"
      have "x \<notin> user_memory" by (rule kernel_memory) (use demo_cell_region [OF x] in simp_all)
      moreover have "?q < 16" using Min_in [OF data_pool.finite_avail q] data_pool.avail_bound by blast
      ultimately have "x \<notin> data_page ?q" using data_page_user by blast
      then show "mem s1 x = ?m x" by (rule c(7))
    qed
    then show ?thesis by (simp add: r(6) load_store32)
  qed
  moreover have "dom (tasks s') = insert a (dom (tasks s))"
    using r(4) c(3) same_maps_dom [of "tasks s1" "tasks s'"] by (simp add: sched_frame_def)
  moreover have "park_callback (get_cpu_context s1) = park_callback (get_cpu_context s)"
    by (subst c(8)) (simp add: get_cpu_context_def get_cpu_index_def)
  ultimately show ?thesis
    using that [of s'] r c by (simp add: demo_spawn_def sched_frame_def)
qed

text \<open>From the booted kernel, two tasks are created; the first one then runs and the second is ready.\<close>

abbreviation (input) demo_a :: ptr where "demo_a \<equiv> 0x3FFE8004"
abbreviation (input) demo_b :: ptr where "demo_b \<equiv> 0x3FFE8204"

definition demo_ready :: kernel where
  "demo_ready = (case andthen (demo_spawn USER_CODE_BASE (kern demo_booted)) (demo_spawn USER_CODE_BASE)
     of Inr s \<Rightarrow> s | Inl _ \<Rightarrow> kern demo_booted)"

definition demo_two :: machine where
  "demo_two = (case scheduler_drop_current demo_pf zero_regs demo_ready of Inr m \<Rightarrow> m | Inl _ \<Rightarrow> (zero_regs, demo_ready))"

lemma demo_ready: "kernel_inv demo_ready [demo_a, demo_b]" "dom (tasks demo_ready) = {demo_a, demo_b}"
  "get_current_task demo_ready = NULL" "park_callback (get_cpu_context demo_ready) = NULL"
  "saved_regs demo_ready demo_a = Some (initial_regs demo_pf USER_CODE_BASE)"
  "data_free (umem demo_ready) \<noteq> {}" "load32 (mem demo_ready) demo_cell = 0x3FFE8404"
proof -
  let ?s = "kern demo_booted"
  have rs: "reset_ok (kern demo_boot)" by (simp add: demo_boot_def demo_reset_ok)
  have bt: "booted ?s" using kmain_init_ok [OF rs demo_init] by blast
  have b: "kernel_inv ?s []" "tasks ?s = Map.empty" "data_free (umem ?s) = {..<16}" "get_current_task ?s = NULL"
    "park_callback (get_cpu_context ?s) = NULL"
    using bt by (simp_all add: booted_def data_free_init)
  have ne: "data_free (umem ?s) \<noteq> {}" using b(3) by (auto simp: lessThan_empty_iff)
  have m0: "Min {..<16 :: nat} = 0" by (rule Min_eqI) auto
  have a: "load32 (mem ?s) demo_cell = demo_a" by (simp add: demo_booted_mem load_store32)
  obtain s1 where s1: "demo_spawn USER_CODE_BASE ?s = Inr s1" "kernel_inv s1 ([] @ [demo_a])"
    "dom (tasks s1) = insert demo_a (dom (tasks ?s))" "load32 (mem s1) demo_cell = demo_a + 0x200"
    "data_free (umem s1) = data_free (umem ?s) - {Min (data_free (umem ?s))}"
    "saved_regs s1 = (saved_regs ?s)(demo_a \<mapsto> initial_regs demo_pf USER_CODE_BASE)"
    "get_current_task s1 = get_current_task ?s" "park_callback (get_cpu_context s1) = park_callback (get_cpu_context ?s)"
    by (rule demo_spawn_ok [OF b(1) a, of USER_CODE_BASE]) (use b(2) ne in simp_all)
  have c1: "4 \<in> data_free (umem s1) \<and> 5 \<in> data_free (umem s1)" using s1(5) b(3) m0 by simp
  obtain s2 where s2: "demo_spawn USER_CODE_BASE s1 = Inr s2" "kernel_inv s2 (([] @ [demo_a]) @ [demo_b])"
    "dom (tasks s2) = insert demo_b (dom (tasks s1))" "load32 (mem s2) demo_cell = demo_b + 0x200"
    "data_free (umem s2) = data_free (umem s1) - {Min (data_free (umem s1))}"
    "saved_regs s2 = (saved_regs s1)(demo_b \<mapsto> initial_regs demo_pf USER_CODE_BASE)"
    "get_current_task s2 = get_current_task s1" "park_callback (get_cpu_context s2) = park_callback (get_cpu_context s1)"
    by (rule demo_spawn_ok [OF s1(2), of demo_b USER_CODE_BASE]) (use b(2) s1(3,4) c1 in \<open>simp_all, blast?\<close>)
  have d: "demo_ready = s2" by (simp add: demo_ready_def s1(1) s2(1))
  show "kernel_inv demo_ready [demo_a, demo_b]" "dom (tasks demo_ready) = {demo_a, demo_b}"
    "get_current_task demo_ready = NULL" "park_callback (get_cpu_context demo_ready) = NULL"
    "saved_regs demo_ready demo_a = Some (initial_regs demo_pf USER_CODE_BASE)"
    "load32 (mem demo_ready) demo_cell = 0x3FFE8404"
    using s1 s2 b by (auto simp: d)
  have "4 \<in> {Min (data_free (umem s1))}" "5 \<in> {Min (data_free (umem s1))}" if "data_free (umem s2) = {}"
    using s2(5) c1 that by blast+
  then show "data_free (umem demo_ready) \<noteq> {}" unfolding d by fastforce
qed

lemma demo_two: "system_inv demo_two" "kernel_inv (snd demo_two) [demo_b]" "get_current_task (snd demo_two) = demo_a"
  "regs_wf (fst demo_two)" "fst demo_two = initial_regs demo_pf USER_CODE_BASE"
  "scheduler_drop_current demo_pf zero_regs demo_ready = Inr demo_two"
proof -
  obtain r s where "scheduler_drop_current demo_pf zero_regs demo_ready = Inr (r, s)" "system_inv (r, s)"
    "get_current_task s = demo_a" "saved_regs demo_ready demo_a = Some r" "kernel_inv s [demo_b]"
    by (rule first_drop [OF demo_ready(1,3,4) zero_regs_wf]) blast
  then show "system_inv demo_two" "kernel_inv (snd demo_two) [demo_b]" "get_current_task (snd demo_two) = demo_a"
    "regs_wf (fst demo_two)" "fst demo_two = initial_regs demo_pf USER_CODE_BASE"
    "scheduler_drop_current demo_pf zero_regs demo_ready = Inr demo_two"
    using demo_ready(5) by (auto simp: demo_two_def system_inv_def)
qed

subsection \<open>The whole boot\<close>

text \<open>The state in which the first application starts.\<close>

definition demo_run :: machine where
  "demo_run = (case kmain demo_pf demo_bp demo_boot of Inr (_, m) \<Rightarrow> m | Inl _ \<Rightarrow> (zero_regs, kern demo_boot))"

lemma demo_reset_boot: "reset_ok (kern demo_boot)"
  by (simp add: demo_boot_def demo_reset_ok)

lemma demo_handoff:
  assumes "i < 104"
  shows "mem (kern demo_booted) (INITRD_HANDOFF + of_nat i) = demo_flashed (m_initrd_buffer + of_nat i)"
proof -
  have "unat (INITRD_HANDOFF + of_nat i) = 0x3FFC2000 + i"
    using assms by (simp add: unat_word_ariths unat_of_nat INITRD_HANDOFF_def)
  then have "INITRD_HANDOFF + of_nat i \<notin> region demo_cell 4" using demo_cell_region assms by fastforce
  then show ?thesis
    unfolding demo_booted_mem by (simp add: store32_other INITRD_HANDOFF_def m_initrd_buffer_def)
qed

lemma demo_params: "104 = 76 + length demo_app" "(104 :: nat) \<le> 0xE000" "regs_wf (kmain_regs demo_bp)"
  by (simp_all add: length_demo_app zero_regs_wf demo_bp_def)

lemma demo_run: "system_inv demo_run" "runs_app demo_pf demo_app (get_current_task (snd demo_run)) (snd demo_run)"
  "kmain demo_pf demo_bp demo_boot = Inr (demo_booted, demo_run)"
proof -
  obtain p r s where "kmain demo_pf demo_bp demo_boot = Inr (demo_booted, (r, s))" "system_inv (r, s)"
    "get_current_task s = p" "runs_app demo_pf demo_app p s"
    by (rule power_on_ok [OF demo_flashed(2) demo_app_image demo_params(1,2) demo_reset_boot demo_init demo_handoff
        demo_boot_heap demo_params(3)]) blast
  then show "system_inv demo_run" "runs_app demo_pf demo_app (get_current_task (snd demo_run)) (snd demo_run)"
    "kmain demo_pf demo_bp demo_boot = Inr (demo_booted, demo_run)"
    by (simp_all add: demo_run_def)
qed

text \<open>The first data page of the application is mapped.\<close>

lemma demo_run_page:
  obtains t where "tasks (snd demo_run) (get_current_task (snd demo_run)) = Some t"
    "entry_type (entries (dmmu (task_mmu t)) 0) = PAGE_MAPPED"
proof -
  let ?s = "snd demo_run"
  have "space_byte MMU_SPACE_DATA ?s (get_current_task ?s) 0 \<noteq> None"
    using demo_run(2) unfolding runs_app_def
    by (simp add: demo_app_header page_count_def ALIGN_UP_def USER_PAGE_SIZE_def)
  then show ?thesis
    using that by (auto simp: space_byte_def space_of_def Let_def split: option.splits if_splits)
qed

lemma demo_ramdisk: "initrd_ready demo_pf (kern demo_booted)"
proof -
  have bt: "booted (kern demo_booted)" using kmain_init_ok [OF demo_reset_boot demo_init] by blast
  have "initrd_image INITRD_HANDOFF demo_app (mem (kern demo_booted))"
    by (rule initrd_image_move [OF demo_flashed(2)]) (use demo_handoff length_demo_app in simp)
  from initrd_image_ready(1) [OF bt this demo_app_image demo_params(1,2) demo_boot_heap] show ?thesis .
qed

end
