(* ===== verification/Exceptions.thy ===== *)
theory Exceptions
  imports Syscall
begin

section \<open>Exceptions\<close>

text \<open>
  The rest of \<^verbatim>\<open>arch/interrupts.c\<close> and \<^verbatim>\<open>task_regs_dump\<close>: the dispatch table, the
  report an exception prints, and the loop the handler ends in. Nothing is resumed after an
  exception: the handler does not return.
\<close>

subsection \<open>Causes and the dispatch table\<close>

datatype trap_entry = common_exception_entry | common_interrupt_entry | syscall_entry

definition SyscallCause :: nat where "SyscallCause = 1"
definition Level1InterruptCause :: nat where "Level1InterruptCause = 4"

definition g_fast_interrupts :: "trap_entry list" where
  "g_fast_interrupts = (replicate 64 common_exception_entry)
     [SyscallCause := syscall_entry, Level1InterruptCause := common_interrupt_entry]"

definition m_cause_str :: "string option list" where
  "m_cause_str =
    [Some ''IllegalInstructionCause'', Some ''SyscallCause'', Some ''InstructionFetchErrorCause'',
     Some ''LoadStoreErrorCause'', Some ''Level1InterruptCause'', Some ''AllocaCause'',
     Some ''IntegerDivideByZero'', None, Some ''PrivilegedCause'', Some ''LoadStoreAlignmentCause'',
     None, None, Some ''InstrPIFDataErrorCause'', Some ''LoadStorePIFDataErrorCause'',
     Some ''InstrPIFAddrErrorCause'', Some ''LoadStorePIFAddrErrorCause'', Some ''InstTLBMissCause'',
     Some ''InstTLBMultiHitCause'', Some ''InstFetchPrivilegeCause'', None,
     Some ''InstFetchProhibitedCause'', None, None, None, Some ''LoadStoreTLBMissCause'',
     Some ''LoadStoreTLBMultiHitCause'', Some ''LoadStorePrivilegeCause'', None,
     Some ''LoadProhibitedCause'', Some ''StoreProhibitedCause'', None, None,
     Some ''Coprocessor0Disabled'', Some ''Coprocessor1Disabled'', Some ''Coprocessor2Disabled'',
     Some ''Coprocessor3Disabled'', Some ''Coprocessor4Disabled'', Some ''Coprocessor5Disabled'',
     Some ''Coprocessor6Disabled'', Some ''Coprocessor7Disabled'']"

text \<open>The causes for which \<^verbatim>\<open>EXCVADDR\<close> is printed.\<close>

definition prints_vaddr :: "u32 \<Rightarrow> bool" where
  "prints_vaddr cause \<longleftrightarrow> unat cause \<in> {2, 3, 9, 12, 13, 14, 15, 16, 17, 18, 20, 24, 25, 26, 28, 29}"

subsection \<open>Opcodes\<close>

definition rri8_t :: "u32 \<Rightarrow> u32" where "rri8_t v = drop_bit 4 v AND 0xF"
definition rri8_s :: "u32 \<Rightarrow> u32" where "rri8_s v = drop_bit 8 v AND 0xF"
definition rri8_r :: "u32 \<Rightarrow> u32" where "rri8_r v = drop_bit 12 v AND 0xF"
definition rri8_imm8 :: "u32 \<Rightarrow> u32" where "rri8_imm8 v = drop_bit 16 v AND 0xFF"

definition is_l32i :: "u32 \<Rightarrow> bool" where
  "is_l32i v \<longleftrightarrow> v AND 0xF = 0b0010 \<and> rri8_r v = 0b0010"

definition read_opcode :: "memory \<Rightarrow> u32 \<Rightarrow> u32" where
  "read_opcode m a = ucast (m a) OR push_bit 8 (ucast (m (a + 1))) OR push_bit 16 (ucast (m (a + 2)))"

text \<open>Addition on \<^verbatim>\<open>int32_t\<close>: a sum outside the type is undefined.\<close>

definition add_int32 :: "int \<Rightarrow> int \<Rightarrow> int run" where
  "add_int32 a b = (if - 2147483648 \<le> a + b \<and> a + b \<le> 2147483647 then Inr (a + b) else Inl (Undefined ''int32_t overflow''))"

text \<open>One turn of the loop: the line for the opcode \<open>v\<close> at \<open>ptr\<close>, and what it makes of \<open>len\<close>.\<close>

definition print_opcode :: "u32 \<Rightarrow> u32 \<Rightarrow> int \<Rightarrow> string \<Rightarrow> (int \<times> string) run" where
  "print_opcode ptr v len con =
     andthen (prints ''[-] %08x: '' [VInt ptr] con) (\<lambda>con1.
     andthen (if is_l32i v then prints ''L32I a%d, a%d, %u'' [VInt (rri8_t v), VInt (rri8_s v), VInt (rri8_imm8 v)] con1
              else prints ''Invalid opcode %08x'' [VInt v] con1) (\<lambda>con2.
     andthen (if is_l32i v then add_int32 len 3 else add_int32 len (- 3)) (\<lambda>len1.
     andthen (prints CRLF [] con2) (\<lambda>con3. Inr (len1, con3)))))"

lemma print_opcode_len:
  "print_opcode ptr v len con = Inr (len1, con1) \<Longrightarrow> len1 = (if is_l32i v then len + 3 else len - 3) \<and> len1 \<le> 2147483647"
  by (auto simp: print_opcode_def andthen_eq_Inr add_int32_def split: if_splits)

text \<open>
  The pointer never advances, so every turn is for the same opcode, and \<open>len\<close> goes down to zero or, for the
  one instruction the loop knows, up to the largest \<^verbatim>\<open>int32_t\<close>.
\<close>

function print_opcodes :: "memory \<Rightarrow> u32 \<Rightarrow> int \<Rightarrow> string \<Rightarrow> string run" where
  "print_opcodes m ptr len con =
     (if len > 0 then
        andthen (print_opcode ptr (read_opcode m ptr) len con) (\<lambda>(len1, con1). print_opcodes m ptr len1 con1)
      else Inr con)"
  by pat_completeness auto
termination
  by (relation "measure (\<lambda>(m, ptr, len, con). nat (if is_l32i (read_opcode m ptr) then 2147483648 - len else len))")
    (auto dest!: print_opcode_len)

declare print_opcodes.simps [simp del]

subsection \<open>The register dump\<close>

fun prints_all :: "(string \<times> va list) run list \<Rightarrow> string \<Rightarrow> string run" where
  "prints_all [] con = Inr con"
| "prints_all (Inl e # xs) con = Inl e"
| "prints_all (Inr (fmt, va) # xs) con = andthen (prints fmt va con) (prints_all xs)"

definition reg_offsets :: "task_regs \<Rightarrow> (string \<times> u32) list" where
  "reg_offsets regs = [(''LBEG'', lbeg regs), (''LEND'', lend regs), (''LCOUNT'', lcount regs),
     (''SAR'', sar regs), (''WINDOWBASE'', windowbase regs), (''WINDOWSTART'', windowstart regs),
     (''PS'', ps regs)]"

text \<open>The physical register's place in the window-relative array; an index outside it is undefined.\<close>

definition real_idx :: "task_regs \<Rightarrow> nat \<Rightarrow> int" where
  "real_idx regs abs_idx = (let r = sint (of_nat abs_idx - windowbase regs * 4) in if r < 0 then 64 + r else r)"

definition ar_at :: "task_regs \<Rightarrow> int \<Rightarrow> u32 run" where
  "ar_at regs i = (if 0 \<le> i \<and> i < 64 then Inr (ar regs ! nat i) else Inl (Undefined ''ar index''))"

definition dump_special :: "task_regs \<Rightarrow> nat \<Rightarrow> (string \<times> va list) run list" where
  "dump_special regs i = Inr (''[*] '', []) #
     map (\<lambda>(n, v). Inr (''%12s=%08x '', [VStr (Some n), VInt v])) (take 4 (drop (i * 4) (reg_offsets regs))) @
     [Inr (CRLF, [])]"

definition dump_window :: "task_regs \<Rightarrow> nat \<Rightarrow> (string \<times> va list) run list" where
  "dump_window regs i = Inr (''[*] '', []) #
     map (\<lambda>j. andthen (ar_at regs (int (i * 4 + j)))
        (\<lambda>v. Inr ('' A%02d=%08x'', [VInt (of_nat (i * 4 + j)), VInt v]))) [0..<4] @
     [Inr (CRLF, [])]"

definition dump_physical :: "task_regs \<Rightarrow> nat \<Rightarrow> (string \<times> va list) run list" where
  "dump_physical regs i = Inr (''[*] '', []) #
     map (\<lambda>j. andthen (ar_at regs (real_idx regs (i * 4 + j)))
        (\<lambda>v. Inr (''AR%02d=%08x '', [VInt (of_nat (i * 4 + j)), VInt v]))) [0..<4] @
     [Inr (''%c%c'' @ CRLF,
        [VInt (if windowstart regs AND push_bit i 1 \<noteq> 0 then of_char CHR ''<'' else of_char CHR '' ''),
         VInt (if windowbase regs = of_nat i then of_char CHR ''='' else of_char CHR '' '')])]"

definition task_regs_dump :: "task_regs \<Rightarrow> string \<Rightarrow> string run" where
  "task_regs_dump regs con =
     andthen (TRACE ''PC=%08x'' [VInt (pc regs)] con) (\<lambda>con.
     andthen (TRACE '''' [] con) (\<lambda>con.
     andthen (prints_all (concat (map (dump_special regs) [0..<2])) con) (\<lambda>con.
     andthen (TRACE '''' [] con) (\<lambda>con.
     andthen (prints_all (concat (map (dump_window regs) [0..<4])) con) (\<lambda>con.
     andthen (TRACE '''' [] con) (\<lambda>con.
     prints_all (concat (map (dump_physical regs) [0..<16])) con))))))"

subsection \<open>The handler\<close>

definition print_cause :: "u32 \<Rightarrow> string \<Rightarrow> string run" where
  "print_cause cause con =
     (case (if unat cause < length m_cause_str then m_cause_str ! unat cause else None) of
        Some n \<Rightarrow> prints ''%s (%d)'' [VStr (Some n), VInt cause] con
      | None \<Rightarrow> prints ''%d'' [VInt cause] con)"

definition print_vaddr :: "u32 \<Rightarrow> u32 \<Rightarrow> string \<Rightarrow> string run" where
  "print_vaddr cause excvaddr con =
     (if prints_vaddr cause
      then andthen (prints '' EXCVADDR=%08x'' [VInt excvaddr] con) (prints CRLF []) else Inr con)"

text \<open>Everything printed before the final loop, for the given \<^verbatim>\<open>EXCCAUSE\<close> and \<^verbatim>\<open>EXCVADDR\<close>.\<close>

definition exception_report :: "task_regs \<Rightarrow> u32 \<Rightarrow> u32 \<Rightarrow> memory \<Rightarrow> string \<Rightarrow> string run" where
  "exception_report regs cause excvaddr m con =
     andthen (prints ''[-] got exception '' [] con) (\<lambda>con.
     andthen (print_cause cause con) (\<lambda>con.
     andthen (print_vaddr cause excvaddr con) (\<lambda>con.
     andthen (prints CRLF [] con) (\<lambda>con.
     andthen (print_opcodes m (pc regs) 16 con) (\<lambda>con.
     andthen (ERROR '''' [] con) (\<lambda>con.
     task_regs_dump regs con))))))"

definition common_exception_handler :: "task_regs \<Rightarrow> u32 \<Rightarrow> u32 \<Rightarrow> kernel \<Rightarrow> (task_regs \<times> kernel) run" where
  "common_exception_handler regs cause excvaddr s =
     (let s1 = s\<lparr>timg := wdt_disable (timg s)\<rparr> in
      andthen (exception_report regs cause excvaddr (mem s1) (console s1)) (\<lambda>con. Inl Spin))"

subsection \<open>Every line can be printed\<close>

lemma printable_simps [simp]:
  "printable CRLF []" "printable '' EXCVADDR=%08x'' [VInt v]" "printable ''%d'' [VInt v]"
  "printable ''%s (%d)'' [VStr (Some n), VInt v]" "printable ''[-] %08x: '' [VInt v]"
  "printable ''L32I a%d, a%d, %u'' [VInt a, VInt b, VInt c]" "printable ''Invalid opcode %08x'' [VInt v]"
  "printable ''%12s=%08x '' [VStr (Some n), VInt v]" "printable '' A%02d=%08x'' [VInt a, VInt v]"
  "printable ''AR%02d=%08x '' [VInt a, VInt v]" "printable (''%c%c'' @ CRLF) [VInt a, VInt v]"
  "printable (''[*] '' @ ''PC=%08x'' @ CRLF) [VInt v]" "printable (''[*] '' @ '''' @ CRLF) []"
  "printable (''[-] '' @ '''' @ CRLF) []" "printable ''[*] '' []" "printable ''[-] got exception '' []"
  by (simp_all add: printable_def CRLF_def spec_simps) (simp_all add: has_def FLAGS_defs)

lemma printable_flags [simp]: "printable (CHR ''%'' # CHR ''c'' # CHR ''%'' # CHR ''c'' # CRLF) [VInt a, VInt v]"
  using printable_simps(11) by simp

lemma prints_all_ok:
  "(\<And>x. x \<in> set xs \<Longrightarrow> \<exists>fmt va. x = Inr (fmt, va) \<and> printable fmt va) \<Longrightarrow> \<exists>cs. \<forall>con. prints_all xs con = Inr (con @ cs)"
proof (induction xs)
  case (Cons x xs)
  obtain fmt va where x: "x = Inr (fmt, va)" "printable fmt va" using Cons.prems by force
  obtain c1 where c1: "\<And>con. prints fmt va con = Inr (con @ c1)" using printableE [OF x(2)] by blast
  obtain c2 where c2: "\<And>con. prints_all xs con = Inr (con @ c2)" using Cons by force
  have "\<forall>con. prints_all (x # xs) con = Inr (con @ (c1 @ c2))" by (simp add: x c1 c2)
  then show ?case by blast
qed (intro exI [of _ "[]"], simp)

subsection \<open>The dump covers every register\<close>

text \<open>
  The physical register \<open>i\<close> is at place \<open>i - 4 * windowbase\<close> of the window-relative array,
  modulo 64, so the sixty-four lines show each place once.
\<close>

lemma real_idx_mod:
  assumes "unat (windowbase regs) < 16" "i < 64"
  shows "real_idx regs i = (int i - 4 * int (unat (windowbase regs))) mod 64"
proof -
  define n where "n = unat (windowbase regs)"
  have w: "windowbase regs = of_nat n" and n: "n < 16" using assms(1) by (simp_all add: n_def)
  have neg: "k mod 64 = 64 + k" if "k < 0" "- 64 \<le> k" for k :: int using that by presburger
  have sw: "sint (word_of_int k :: u32) = signed_take_bit 31 k" for k by (simp add: sint_sbintrunc')
  have "sint (of_nat i - windowbase regs * 4 :: u32) = int i - 4 * int n"
  proof -
    have "(of_nat i - windowbase regs * 4 :: u32) = word_of_int (int i - 4 * int n)" by (simp add: w)
    moreover have "signed_take_bit 31 (int i - 4 * int n) = int i - 4 * int n"
      by (rule signed_take_bit_int_eq_self) (use n assms(2) in simp_all)
    ultimately show ?thesis by (simp only: sw)
  qed
  then have "real_idx regs i = (int i - 4 * int n) mod 64"
    using n assms(2) neg [of "int i - 4 * int n"] by (auto simp: real_idx_def Let_def)
  then show ?thesis by (simp only: n_def)
qed

lemma dump_ok:
  assumes "unat (windowbase regs) < 16"
  shows "\<exists>cs. \<forall>con. task_regs_dump regs con = Inr (con @ cs)"
proof -
  have tr: "\<exists>cs. \<forall>con. TRACE fmt va con = Inr (con @ cs)" if "printable (''[*] '' @ fmt @ CRLF) va" for fmt va
    using printableE [OF that] unfolding TRACE_def by blast
  have ri: "0 \<le> real_idx regs i \<and> real_idx regs i < 64" if "i < 64" for i
    by (simp add: real_idx_mod [OF assms that])
  have a: "\<exists>cs. \<forall>con. prints_all (concat (map (dump_special regs) [0..<2])) con = Inr (con @ cs)"
    by (rule prints_all_ok) (auto simp: dump_special_def)
  have b: "\<exists>cs. \<forall>con. prints_all (concat (map (dump_window regs) [0..<4])) con = Inr (con @ cs)"
    by (rule prints_all_ok) (auto simp: dump_window_def ar_at_def)
  have c: "\<exists>cs. \<forall>con. prints_all (concat (map (dump_physical regs) [0..<16])) con = Inr (con @ cs)"
    by (rule prints_all_ok) (auto simp: dump_physical_def ar_at_def ri)
  have t1: "\<exists>cs. \<forall>con. TRACE ''PC=%08x'' [VInt (pc regs)] con = Inr (con @ cs)"
    by (rule tr) (rule printable_simps)
  have t2: "\<exists>cs. \<forall>con. TRACE '''' [] con = Inr (con @ cs)" by (rule tr) (rule printable_simps)
  obtain c1 c2 c3 c4 c5 where "\<And>con. TRACE ''PC=%08x'' [VInt (pc regs)] con = Inr (con @ c1)"
    "\<And>con. TRACE '''' [] con = Inr (con @ c2)"
    "\<And>con. prints_all (concat (map (dump_special regs) [0..<2])) con = Inr (con @ c3)"
    "\<And>con. prints_all (concat (map (dump_window regs) [0..<4])) con = Inr (con @ c4)"
    "\<And>con. prints_all (concat (map (dump_physical regs) [0..<16])) con = Inr (con @ c5)"
    using t1 t2 a b c by blast
  then show ?thesis
    by (intro exI [of _ "c1 @ c2 @ c3 @ c2 @ c4 @ c2 @ c5"]) (simp add: task_regs_dump_def)
qed

subsection \<open>The opcode loop\<close>

lemma print_opcode_ok:
  "\<exists>cs. \<forall>len con. print_opcode ptr v len con =
     andthen (add_int32 len (if is_l32i v then 3 else - 3)) (\<lambda>len1. Inr (len1, con @ cs))"
proof -
  obtain a where a: "\<And>con. prints ''[-] %08x: '' [VInt ptr] con = Inr (con @ a)" by (rule printableE) auto
  obtain b where b: "\<And>con. prints ''L32I a%d, a%d, %u'' [VInt (rri8_t v), VInt (rri8_s v), VInt (rri8_imm8 v)] con = Inr (con @ b)"
    by (rule printableE) auto
  obtain c where c: "\<And>con. prints ''Invalid opcode %08x'' [VInt v] con = Inr (con @ c)" by (rule printableE) auto
  obtain d where d: "\<And>con. prints CRLF [] con = Inr (con @ d)" by (rule printableE) auto
  show ?thesis
    by (intro exI [of _ "a @ (if is_l32i v then b else c) @ d"]) (simp add: print_opcode_def a b c d)
qed

text \<open>As long as \<open>len\<close> stays in its type, a turn prints one line, always the same.\<close>

lemma print_opcodes_turns:
  assumes l: "is_l32i (read_opcode m ptr)"
  shows "\<exists>line. \<forall>n len con. 0 < len \<and> len + 3 * int n \<le> 2147483647 \<longrightarrow>
    print_opcodes m ptr len con = print_opcodes m ptr (len + 3 * int n) (con @ concat (replicate n line))"
proof -
  obtain cs where cs: "\<And>len con. print_opcode ptr (read_opcode m ptr) len con = andthen (add_int32 len 3) (\<lambda>len1. Inr (len1, con @ cs))"
    using print_opcode_ok [of ptr "read_opcode m ptr"] l by auto
  have "print_opcodes m ptr len con = print_opcodes m ptr (len + 3 * int n) (con @ concat (replicate n cs))"
    if "0 < len" "len + 3 * int n \<le> 2147483647" for n len con
    using that
  proof (induction n arbitrary: len con)
    case (Suc n)
    then have "print_opcodes m ptr len con = print_opcodes m ptr (len + 3) (con @ cs)"
      by (simp add: print_opcodes.simps [of m ptr len] cs add_int32_def)
    also have "\<dots> = print_opcodes m ptr (len + 3 + 3 * int n) ((con @ cs) @ concat (replicate n cs))"
      by (rule Suc.IH) (use Suc.prems in simp_all)
    finally show ?case by (simp add: algebra_simps)
  qed simp
  then show ?thesis by blast
qed

lemma print_opcodes_l32i:
  assumes l: "is_l32i (read_opcode m ptr)" and len: "0 < len" "len \<le> 2147483647"
  shows "print_opcodes m ptr len con = Inl (Undefined ''int32_t overflow'')"
proof -
  define n where "n = nat ((2147483647 - len) div 3)"
  have "int n = (2147483647 - len) div 3" using len by (simp add: n_def)
  then have n: "len + 3 * int n \<le> 2147483647" "2147483647 < len + 3 * int n + 3" by linarith+
  obtain line where "print_opcodes m ptr len con = print_opcodes m ptr (len + 3 * int n) (con @ concat (replicate n line))"
    using print_opcodes_turns [OF l] len(1) n(1) by blast
  moreover obtain cs where "\<And>len con. print_opcode ptr (read_opcode m ptr) len con =
      andthen (add_int32 len 3) (\<lambda>len1. Inr (len1, con @ cs))"
    using print_opcode_ok [of ptr "read_opcode m ptr"] l by auto
  ultimately show ?thesis using len(1) n by (simp add: print_opcodes.simps [of m ptr "len + 3 * int n"] add_int32_def)
qed

lemma print_opcodes_other:
  assumes "\<not> is_l32i (read_opcode m ptr)"
  shows "\<exists>cs. \<forall>con. print_opcodes m ptr 16 con = Inr (con @ concat (replicate 6 cs))"
proof -
  obtain cs where cs: "\<And>len con. print_opcode ptr (read_opcode m ptr) len con = andthen (add_int32 len (- 3)) (\<lambda>len1. Inr (len1, con @ cs))"
    using print_opcode_ok [of ptr "read_opcode m ptr"] assms by auto
  have step: "print_opcodes m ptr len con = (if len > 0 then print_opcodes m ptr (len - 3) (con @ cs) else Inr con)"
    if "len \<le> 16" for len con using that by (simp add: print_opcodes.simps [of m ptr len] cs add_int32_def)
  have "print_opcodes m ptr 16 con = Inr (con @ concat (replicate 6 cs))" for con
    by (simp add: step [of 16] step [of 13] step [of 10] step [of 7] step [of 4] step [of 1] step [of "-2"]
        numeral_eq_Suc)
  then show ?thesis by blast
qed

subsection \<open>An exception is reported and nothing is resumed\<close>

lemma print_cause_ok: "\<exists>cs. \<forall>con. print_cause cause con = Inr (con @ cs)"
proof -
  have "\<exists>cs. \<forall>con. prints ''%d'' [VInt cause] con = Inr (con @ cs)"
    using printableE [OF printable_simps(3)] by blast
  moreover have "\<exists>cs. \<forall>con. prints ''%s (%d)'' [VStr (Some n), VInt cause] con = Inr (con @ cs)" for n
    using printableE [OF printable_simps(4)] by blast
  ultimately show ?thesis
    by (cases "if unat cause < length m_cause_str then m_cause_str ! unat cause else None")
      (simp_all add: print_cause_def)
qed

lemma print_vaddr_ok: "\<exists>cs. \<forall>con. print_vaddr cause v con = Inr (con @ cs)"
proof -
  obtain a where a: "\<And>con. prints '' EXCVADDR=%08x'' [VInt v] con = Inr (con @ a)" by (rule printableE) auto
  obtain b where b: "\<And>con. prints CRLF [] con = Inr (con @ b)" by (rule printableE) auto
  show ?thesis by (rule exI [of _ "if prints_vaddr cause then a @ b else []"]) (simp add: print_vaddr_def a b)
qed

lemma exception_report_ok:
  assumes wb: "unat (windowbase regs) < 16" and op: "\<not> is_l32i (read_opcode m (pc regs))"
  shows "\<exists>cs. \<forall>con. exception_report regs cause v m con = Inr (con @ cs)"
proof -
  obtain a where a: "\<And>con. prints ''[-] got exception '' [] con = Inr (con @ a)" by (rule printableE) auto
  obtain b where b: "\<And>con. print_cause cause con = Inr (con @ b)" using print_cause_ok by metis
  obtain c where c: "\<And>con. print_vaddr cause v con = Inr (con @ c)" using print_vaddr_ok by metis
  obtain d where d: "\<And>con. prints CRLF [] con = Inr (con @ d)" by (rule printableE) auto
  obtain e where e: "\<And>con. print_opcodes m (pc regs) 16 con = Inr (con @ concat (replicate 6 e))"
    using print_opcodes_other [OF op] by metis
  obtain f where f: "\<And>con. ERROR '''' [] con = Inr (con @ f)"
    unfolding ERROR_def using printableE [OF printable_simps(14)] by blast
  obtain g where g: "\<And>con. task_regs_dump regs con = Inr (con @ g)" using dump_ok [OF wb] by metis
  show ?thesis
    by (rule exI [of _ "a @ b @ c @ d @ concat (replicate 6 e) @ f @ g"])
      (simp add: exception_report_def a b c d e f g)
qed

lemma exception_report_overflows:
  assumes "is_l32i (read_opcode m (pc regs))"
  shows "exception_report regs cause v m con = Inl (Undefined ''int32_t overflow'')"
proof -
  obtain a where a: "\<And>con. prints ''[-] got exception '' [] con = Inr (con @ a)" by (rule printableE) auto
  obtain b where b: "\<And>con. print_cause cause con = Inr (con @ b)" using print_cause_ok by metis
  obtain c where c: "\<And>con. print_vaddr cause v con = Inr (con @ c)" using print_vaddr_ok by metis
  obtain d where d: "\<And>con. prints CRLF [] con = Inr (con @ d)" by (rule printableE) auto
  show ?thesis by (simp add: exception_report_def a b c d print_opcodes_l32i [OF assms])
qed

lemma exception_handler_stays:
  assumes "unat (windowbase regs) < 16"
  shows "common_exception_handler regs cause v s =
    Inl (if is_l32i (read_opcode (mem s) (pc regs)) then Undefined ''int32_t overflow'' else Spin)"
proof (cases "is_l32i (read_opcode (mem s) (pc regs))")
  case True
  then show ?thesis by (simp add: common_exception_handler_def exception_report_overflows)
next
  case False
  obtain cs where "\<And>con. exception_report regs cause v (mem s) con = Inr (con @ cs)"
    using exception_report_ok [OF assms False] by metis
  then show ?thesis using False by (simp add: common_exception_handler_def Let_def)
qed

end
