(* ===== verification/Driver_Properties.thy ===== *)
theory Driver_Properties
  imports Example Exceptions
begin

section \<open>Properties of the allocator, the drivers and the console\<close>

text \<open>
  What the leaf components promise: pages, interrupts, the watchdog, the formatted output and
  the serial port. Each statement is followed by an instance where its hypotheses hold.
\<close>

subsection \<open>Pages\<close>

text \<open>A data page that is allocated and freed again leaves the allocator as it was.\<close>

theorem data_page_roundtrip:
  assumes "m_data_pages u \<noteq> 0"
  shows "umem_free_data_page (fst (umem_alloc_data_page u)) (snd (umem_alloc_data_page u)) = Inr u"
proof -
  have ne: "data_free u \<noteq> {}" using assms bits_of_inject [of "m_data_pages u" 0] by (simp add: data_free_def bits_of_def)
  obtain u' where u': "umem_free_data_page (fst (umem_alloc_data_page u)) (snd (umem_alloc_data_page u)) = Inr u'"
    "data_free u' = data_free u"
    using data_pool.alloc_free_roundtrip [OF ne] by blast
  have "m_code_pages u' = m_code_pages u"
    using u'(1) by (auto simp: umem_free_data_page_def umem_alloc_data_page_def andthen_eq_Inr Let_def split: if_splits)
  then have "u' = u" using u'(2) bits_of_inject [of "m_data_pages u'" "m_data_pages u"] by (simp add: data_free_def)
  then show ?thesis using u'(1) by simp
qed

theorem data_page_roundtrip_witness:
  "umem_free_data_page (fst (umem_alloc_data_page umem_init)) (snd (umem_alloc_data_page umem_init)) = Inr umem_init"
  by (rule data_page_roundtrip) (simp add: umem_init_def)

subsection \<open>Interrupts\<close>

text \<open>C31: Two sources that are both mapped go to different interrupts of the core.\<close>

theorem mapped_interrupts_differ:
  assumes a: "0 \<le> a" "a \<le> 68" and b: "0 \<le> b" "b \<le> 68" and "a \<noteq> b"
    and m1: "dport_map_interrupt a e s = Inr (NO_ERROR, s1)" and m2: "dport_map_interrupt b e' s1 = Inr (NO_ERROR, s2)"
  shows "DPORT_PRO_INT_MAP (dport s2) (nat a) \<noteq> DPORT_PRO_INT_MAP (dport s2) (nat b)"
proof -
  let ?F = "free_interrupts e (dport s)" and ?G = "free_interrupts e' (dport s1)"
  have F: "?F \<noteq> {}" using dport_map_interrupt_exhausted [OF a, of e s] m1 by auto
  have G: "?G \<noteq> {}" using dport_map_interrupt_exhausted [OF b, of e' s1] m2 by auto
  have s1: "s1 = interrupt_mapped a (Min ?F) s" using dport_map_interrupt_success [OF a F] m1 by simp
  have s2: "s2 = interrupt_mapped b (Min ?G) s1" using dport_map_interrupt_success [OF b G] m2 by simp
  have "?G = free_interrupts e' (dport s) - {Min ?F}" using free_interrupts_after [OF a F, of e'] s1 by simp
  then have "Min ?G \<noteq> Min ?F" using Min_in [OF finite_free_interrupts G] by auto
  moreover have "Min ?F < 32" "Min ?G < 32"
    using Min_in [OF finite_free_interrupts F] Min_in [OF finite_free_interrupts G]
    by (auto simp: free_interrupts_def split: if_splits dest: bits_of_bound)
  moreover from calculation have "unat (of_nat (Min ?F) :: u32) = Min ?F" "unat (of_nat (Min ?G) :: u32) = Min ?G"
    by (simp_all add: unat_of_nat_small)
  ultimately have "(of_nat (Min ?F) :: u32) \<noteq> of_nat (Min ?G)" by metis
  moreover have "nat a \<noteq> nat b" using a b assms(5) by simp
  moreover have "DPORT_PRO_INT_MAP (dport s2) (nat b) = of_nat (Min ?G)"
    "nat a \<noteq> nat b \<Longrightarrow> DPORT_PRO_INT_MAP (dport s2) (nat a) = DPORT_PRO_INT_MAP (dport s1) (nat a)"
    unfolding s2 interrupt_mapped_def by simp_all
  moreover have "DPORT_PRO_INT_MAP (dport s1) (nat a) = of_nat (Min ?F)"
    by (subst s1) (simp add: interrupt_mapped_def)
  ultimately show ?thesis by simp
qed

theorem mapped_interrupts_differ_witness:
  "\<exists>s1 s2. dport_map_interrupt 16 False (demo_reset (\<lambda>_. 0)) = Inr (NO_ERROR, s1) \<and>
     dport_map_interrupt 20 False s1 = Inr (NO_ERROR, s2) \<and>
     DPORT_PRO_INT_MAP (dport s2) 16 \<noteq> DPORT_PRO_INT_MAP (dport s2) 20"
proof -
  let ?s = "demo_reset (\<lambda>_. 0)"
  have f: "free_interrupts False (dport ?s) = {0, 1, 2, 3, 4, 5, 8, 9, 12, 13, 17, 18}"
    unfolding free_interrupts_def demo_reset_def demo_dport_def initial_free_interrupts_def by auto
  then have m: "Min (free_interrupts False (dport ?s)) = 0" "free_interrupts False (dport ?s) \<noteq> {}" by (auto intro: Min_eqI)
  obtain s1 where s1: "dport_map_interrupt 16 False ?s = Inr (NO_ERROR, s1)" "s1 = interrupt_mapped 16 0 ?s"
    using dport_map_interrupt_success [of 16 False ?s] m by simp
  have "1 \<in> free_interrupts False (dport s1)" using free_interrupts_after [OF _ _ m(2), of 16 False] s1(2) m(1) f by simp
  then obtain s2 where s2: "dport_map_interrupt 20 False s1 = Inr (NO_ERROR, s2)"
    using dport_map_interrupt_success [of 20 False s1] by auto
  have "DPORT_PRO_INT_MAP (dport s2) (nat 16) \<noteq> DPORT_PRO_INT_MAP (dport s2) (nat 20)"
    by (rule mapped_interrupts_differ [OF _ _ _ _ _ s1(1) s2]) simp_all
  then show ?thesis using s1 s2 by auto
qed

text \<open>With no free interrupt of the requested kind the request fails; it only reports the failed check.\<close>

theorem interrupts_exhausted:
  assumes "0 \<le> source" "source \<le> 68" "free_interrupts edge (dport s) = {}"
  shows "dport_map_interrupt source edge s = Inr (ERROR_OUT_OF_RESOURCES,
    say (check_failed ERROR_OUT_OF_RESOURCES ''dport_map_interrupt'' ''src/drivers/dport.c'' 168) s)"
  by (rule dport_map_interrupt_exhausted [OF assms])

theorem interrupts_exhausted_witness:
  "fst (projr (dport_map_interrupt 16 True ((demo_reset (\<lambda>_. 0))\<lparr>dport := demo_dport\<lparr>m_free_peripheral_interrupt := 1\<rparr>\<rparr>))) =
     ERROR_OUT_OF_RESOURCES"
  by (subst interrupts_exhausted) (auto simp: free_interrupts_def bits_of_def bit_1_iff)

subsection \<open>The watchdog\<close>

text \<open>C28: Enabling, disabling and feeding the watchdog write its protected registers only while they are
  unlocked, so every write takes effect, and leave them locked; the first two set the enable bit
  as they say and feeding keeps it.\<close>

theorem watchdog_operations:
  "wdt_effective t (wdt_enable t) \<and> wdt_effective t (wdt_disable t) \<and> wdt_effective t (wdt_feed t) \<and>
   wdt_enabled (wdt_enable t) \<and> \<not> wdt_enabled (wdt_disable t) \<and> wdt_enabled (wdt_feed t) = wdt_enabled t"
  using wdt_effective_operations [of t] by simp

text \<open>With all interrupts free, starting the watchdog succeeds: its level interrupt is routed to
  interrupt 0 of the core, it is enabled and its registers are locked.\<close>

theorem watchdog_started:
  assumes "m_free_peripheral_interrupt (dport s) = initial_free_interrupts"
  shows "\<exists>s'. init_wdt s = Inr (NO_ERROR, s') \<and> DPORT_PRO_INT_MAP (dport s') 16 = 0 \<and> wdt_enabled (timg s') \<and> wdt_locked (timg s')"
proof -
  obtain line d t where "init_wdt s = Inr (NO_ERROR, (say line s)\<lparr>dport := d, timg := t\<rparr>)" "DPORT_PRO_INT_MAP d 16 = 0" "wdt_enabled t" "wdt_locked t"
    by (rule init_wdt_ok [OF assms])
  then show ?thesis by auto
qed

theorem watchdog_started_witness:
  "\<exists>s'. init_wdt (demo_reset demo_flashed) = Inr (NO_ERROR, s') \<and> DPORT_PRO_INT_MAP (dport s') 16 = 0 \<and>
     wdt_enabled (timg s') \<and> wdt_locked (timg s')"
  by (rule watchdog_started) (simp add: demo_reset_def demo_dport_def)

subsection \<open>Formatted output\<close>

text \<open>C24: vsnprintf writes the formatted text, cut to the buffer, and a terminating zero, and returns
  the length of the whole text.\<close>

theorem vsnprintf_result:
  assumes "format_text fmt va = Inr cs" "length cs < 4294967296" "buffer \<noteq> 0" "count \<noteq> 0"
  shows "vsnprintf buffer count fmt va m =
    Inr (store_bytes buffer (map of_char (take (unat count - 1) cs) @ [0]) m, of_nat (length cs))"
  by (rule vsnprintf_text [OF assms])

theorem vsnprintf_result_witness:
  "vsnprintf 0x3FFE0000 4 ''task'' [] (\<lambda>_. 1) = Inr (store_bytes 0x3FFE0000 [116, 97, 115, 0] (\<lambda>_. 1), 4)"
proof -
  have f: "format_text ''task'' [] = Inr ''task''" by simp
  have bs: "map of_char (take (unat (4 :: u32) - 1) ''task'') @ [0] = [116, 97, 115, 0 :: u8]"
    and n: "of_nat (length ''task'') = (4 :: u32)" by simp_all
  have "vsnprintf 0x3FFE0000 4 ''task'' [] (\<lambda>_. 1) = Inr (store_bytes 0x3FFE0000
      (map of_char (take (unat (4 :: u32) - 1) ''task'') @ [0]) (\<lambda>_. 1), of_nat (length ''task''))"
    by (rule vsnprintf_result [OF f]) simp_all
  then show ?thesis unfolding bs n .
qed

text \<open>C25: Whatever the format and the arguments, vsnprintf changes no byte outside the buffer it is
  given.\<close>

theorem vsnprintf_stays_inside:
  assumes "vsnprintf buffer count fmt va m = Inr (m', n)" "x \<notin> region buffer (unat count)"
  shows "m' x = m x"
  by (rule vsnprintf_frame [OF assms])

theorem vsnprintf_stays_inside_witness:
  "\<exists>m' n. vsnprintf 0x3FFE0000 4 ''worker'' [] (\<lambda>_. 1) = Inr (m', n) \<and> m' 0x3FFE0004 = 1"
proof -
  have f: "format_text ''worker'' [] = Inr ''worker''" by simp
  obtain m' n where r: "vsnprintf 0x3FFE0000 4 ''worker'' [] (\<lambda>_. 1) = Inr (m', n)"
    using vsnprintf_text [OF f, of "0x3FFE0000" 4 "\<lambda>_. 1"] by simp
  have "m' 0x3FFE0004 = (\<lambda>_. 1) (0x3FFE0004 :: u32)"
    by (rule vsnprintf_stays_inside [OF r]) (simp add: region_def)
  then show ?thesis using r by auto
qed

text \<open>Every output routine, whatever its target, emits exactly the text format_text defines, character by
  character; a conversion that is undefined for one target is undefined for all.\<close>

theorem format_loop_is_text:
  "format_loop out m fmt va st = andthen (format_text fmt va) (\<lambda>s. Inr (emits out m s st))"
  by (rule format_loop_text)

text \<open>C23: When the text of the format fits, snprintf and sprintf store it whole with its terminator, fctprintf
  passes its characters in order to the function, vprintf appends them to the console, and all four return its
  length.\<close>

theorem output_entry_points:
  assumes "format_text fmt va = Inr cs" "length cs < unat count" "buffer \<noteq> 0"
  shows "snprintf buffer count fmt va m = Inr (store_bytes buffer (map of_char cs @ [0]) m, of_nat (length cs)) \<and>
    sprintf buffer fmt va m = snprintf buffer count fmt va m \<and>
    fctprintf fct fmt va b = Inr (fold fct (filter (\<lambda>c. c \<noteq> NUL) cs) b, of_nat (length cs)) \<and>
    vprintf fmt va con = fctprintf (\<lambda>c con. con @ [c]) fmt va con"
proof -
  have count: "count \<noteq> 0" "unat count < 4294967296" using assms(2) unsigned_less [of count, where ?'a = nat] by auto
  have stored: "vsnprintf buffer n fmt va m = Inr (store_bytes buffer (map of_char cs @ [0]) m, of_nat (length cs))"
    if "length cs < unat n" "n \<noteq> 0" for n
    using vsnprintf_text [OF assms(1) _ assms(3), of n m] that assms(2) count(2) by simp
  have app: "fold (\<lambda>c con. con @ [c]) ds con = con @ ds" for ds :: string and con
    by (induction ds arbitrary: con) simp_all
  have "unat (- 1 :: u32) = 4294967295" by (simp add: unsigned_minus_1_eq_mask mask_eq_exp_minus_1)
  then show ?thesis
    using stored [of count] stored [of "- 1"] assms(2) count printf_text [OF assms(1), of con]
      fctprintf_text [OF assms(1), of fct b] fctprintf_text [OF assms(1), of "\<lambda>c con. con @ [c]" con]
    by (simp add: snprintf_def sprintf_def vsnprintf_def vprintf_def printf_def app)
qed

theorem output_entry_points_witness:
  "\<exists>m. snprintf 0x3FFE0000 16 ''worker'' [] (\<lambda>_. 1) = Inr (m, 6) \<and> sprintf 0x3FFE0000 ''worker'' [] (\<lambda>_. 1) = Inr (m, 6) \<and>
    vprintf ''worker'' [] ''> '' = Inr (''> worker'', 6)"
  using output_entry_points [of "''worker''" "[]" "''worker''" 16 "0x3FFE0000" "\<lambda>_. 1" "\<lambda>c con. con @ [c]" "''> ''" "''> ''"]
  by simp

text \<open>C26: vsnprintf with the format %d, for every word and a buffer of at least twelve bytes: it stores a minus sign exactly for
  negative words, at most ten decimal digits of the absolute value with no leading zero, and the terminator, and returns their
  number; reading the digits gives the value back.\<close>

theorem print_decimal_roundtrip:
  assumes "buffer \<noteq> 0" "12 \<le> unat count"
  shows "\<exists>ds. vsnprintf buffer count ''%d'' [VInt w] m =
      Inr (store_bytes buffer (map of_char ((if sint w < 0 then ''-'' else []) @ ds) @ [0]) m,
        of_nat (length ds + (if sint w < 0 then 1 else 0))) \<and>
    int (parse_num 10 ds) = \<bar>sint w\<bar> \<and> (hd ds = CHR ''0'' \<longrightarrow> ds = ''0'') \<and> length ds \<le> 10"
proof -
  define sign where "sign = (if sint w < 0 then ''-'' else [])"
  obtain ds where ds: "format_text ''%d'' [VInt w] = Inr (sign @ ds)"
    "int (parse_num 10 ds) = \<bar>sint w\<bar>" "hd ds = CHR ''0'' \<longrightarrow> ds = ''0''" "length ds \<le> 10"
    using print_d [of w, folded sign_def] by (elim exE conjE)
  have count: "count \<noteq> 0" using assms(2) by auto
  have sign: "length sign = (if sint w < 0 then 1 else 0)" by (simp add: sign_def)
  then have len: "length (sign @ ds) \<le> 11" using ds(4) by simp
  then have "take (unat count - 1) (sign @ ds) = sign @ ds" using assms(2) by simp
  moreover have "length (sign @ ds) < 4294967296" using len by linarith
  moreover have "length (sign @ ds) = length ds + (if sint w < 0 then 1 else 0)" using sign by simp
  ultimately have "vsnprintf buffer count ''%d'' [VInt w] m =
      Inr (store_bytes buffer (map of_char (sign @ ds) @ [0]) m, of_nat (length ds + (if sint w < 0 then 1 else 0)))"
    using vsnprintf_text [OF ds(1) _ assms(1) count, of m] by (simp only:)
  then show ?thesis using ds(2-4) unfolding sign_def by blast
qed

theorem print_decimal_roundtrip_witness:
  "\<exists>ds. vsnprintf 0x3FFE0000 16 ''%d'' [VInt (- 128)] (\<lambda>_. 1) =
     Inr (store_bytes 0x3FFE0000 (45 # map of_char ds @ [0]) (\<lambda>_. 1), of_nat (length ds + 1)) \<and> parse_num 10 ds = 128"
  using print_decimal_roundtrip [of "0x3FFE0000" 16 "- 128" "\<lambda>_. 1"] by auto

text \<open>%08x prints eight hexadecimal digits that read back as the word.\<close>

theorem print_hex_roundtrip:
  "\<exists>ds. format_text ''%08x'' [VInt w] = Inr ds \<and> parse_num 16 ds = unat w \<and> length ds = 8"
  by (rule print_08x)

text \<open>%S scales any size below 1024 within its table of units; a nonzero remainder is printed as a
  second copy of the integer part, not as a fraction of it.\<close>

theorem print_size_text:
  "\<exists>i dv rem ds. size_scale n 0 0 = (i, dv, rem) \<and> i < 1024 \<and> dv < length size_units \<and> parse_num 10 ds = unat i \<and>
     format_text ''%S'' [VInt n] =
       Inr (ds @ (if rem * 100 div 1024 \<noteq> 0 then CHR ''.'' # ds else []) @ size_units ! dv)"
proof -
  obtain i dv rem where sc: "size_scale n 0 0 = (i, dv, rem)" by (metis prod_cases3)
  note b = size_scale_bounds [OF sc]
  let ?ds = "rev (ntoa_digits i 10 0)"
  show ?thesis
  proof (intro exI conjI)
    show "size_scale n 0 0 = (i, dv, rem)" by (rule sc)
    show "i < 1024" "dv < length size_units" using b by simp_all
    show "parse_num 10 ?ds = unat i" by (rule ntoa_digits_dec)
    have "\<forall>x \<in> set (size_units ! dv). x \<noteq> NUL" using b by (auto simp: size_units_def less_Suc_eq numeral_eq_Suc)
    then show "format_text ''%S'' [VInt n] =
       Inr (?ds @ (if rem * 100 div 1024 \<noteq> 0 then CHR ''.'' # ?ds else []) @ size_units ! dv)"
      using b by (simp add: spec_simps size_text_def sc number_simps string_text_def cut_text_def)
  qed
qed

text \<open>1536 bytes print as 1.1KB.\<close>

lemma print_size_example: "format_text ''%S'' [VInt 1536] = Inr ''1.1KB''"
proof -
  have sc: "size_scale 1536 0 0 = (1, 1, 512)" by (simp add: size_scale.simps size_units_def word_le_nat_alt)
  have ds: "ntoa_digits (1 :: u32) 10 0 = ''1''" by code_simp
  show ?thesis
    by (simp add: spec_simps size_text_def sc number_simps ds string_text_def cut_text_def size_units_def)
qed

subsection \<open>The serial port\<close>

text \<open>C38: If the transmit FIFO drains again and again, every character written reaches it, in order.\<close>

theorem serial_delivers:
  assumes "\<And>n. \<exists>k \<ge> n. txfifo_cnt (rd k) < 128"
  shows "\<exists>n'. putchars rd cs (n, u) = Inr (n', u\<lparr>uart_fifo_writes := uart_fifo_writes u @ map of_char cs\<rparr>)"
  by (rule putchars_all [OF assms])

theorem serial_delivers_witness:
  "\<exists>n'. putchars (\<lambda>n. if even n then 0x800000 else 0) ''ok'' (0, \<lparr>UART0_INT_ENA = 0, uart_fifo_writes = []\<rparr>) =
     Inr (n', \<lparr>UART0_INT_ENA = 0, uart_fifo_writes = [111, 107]\<rparr>)"
proof -
  have "\<exists>k \<ge> n. txfifo_cnt (if even k then 0x800000 else 0) < 128" for n :: nat
    by (rule exI [of _ "2 * n + 1"]) (simp add: txfifo_cnt_def)
  from serial_delivers [OF this, of "''ok''" 0 "\<lparr>UART0_INT_ENA = 0, uart_fifo_writes = []\<rparr>"] show ?thesis by simp
qed

subsection \<open>The heap's bounds\<close>

text \<open>The heap given to the allocator is word aligned, inside the region of the linker script and at most
  six bytes smaller.\<close>

theorem heap_bounds:
  assumes "unat start + unat n < 4294967296" "3 \<le> unat n" "init_mem pf start n s = Inr (err, addr, sz, s')"
  shows "err = NO_ERROR \<and> unat addr mod 4 = 0 \<and> unat sz mod 4 = 0 \<and>
    unat start \<le> unat addr \<and> unat addr + unat sz \<le> unat start + unat n \<and>
    unat n \<le> unat sz + 6 \<and> s' = (say (heap_line addr sz) s)\<lparr>mem := umm_init pf addr sz (mem s)\<rparr>"
  by (rule init_mem_bounds [OF assms])

theorem heap_bounds_witness:
  "\<exists>err addr sz s'. init_mem demo_pf 0x3FFE8002 0x4001 (demo_reset (\<lambda>_. 0)) = Inr (err, addr, sz, s') \<and> err = NO_ERROR \<and>
     unat addr mod 4 = 0 \<and> unat addr + unat sz \<le> 0x3FFEC003"
proof -
  obtain err addr sz s' where r: "init_mem demo_pf 0x3FFE8002 0x4001 (demo_reset (\<lambda>_. 0)) = Inr (err, addr, sz, s')"
    by (simp add: init_mem_def Let_def)
  from heap_bounds [OF _ _ r] show ?thesis using r by auto
qed

subsection \<open>Exceptions\<close>

text \<open>C36: The exception handler never returns, whatever the cause: if the faulting instruction is the one its opcode printer
  decodes, the printer's counter overflows, which is undefined, and otherwise the report is printed to its end and the handler
  stays in its last loop.\<close>

theorem exception_never_returns:
  assumes "unat (windowbase regs) < 16"
  shows "common_exception_handler regs cause excvaddr s =
    Inl (if is_l32i (read_opcode (mem s) (pc regs)) then Undefined ''int32_t overflow'' else Spin)"
  by (rule exception_handler_stays [OF assms])

theorem exception_never_returns_witness:
  "common_exception_handler zero_regs 28 0x3FFA0000 (kern demo_boot\<lparr>mem := \<lambda>_. 0\<rparr>) = Inl Spin \<and>
   common_exception_handler zero_regs 28 0x3FFA0000 (kern demo_boot\<lparr>mem := (\<lambda>_. 0)(0 := 0x22, 1 := 0x21)\<rparr>) =
     Inl (Undefined ''int32_t overflow'')"
  using exception_never_returns [of zero_regs 28 "0x3FFA0000"]
  by (simp add: zero_regs_def is_l32i_def read_opcode_def rri8_r_def)



end
