(* ===== verification/User_Program.thy ===== *)
theory User_Program
  imports System
begin

section \<open>User programs\<close>

text \<open>
  \<^verbatim>\<open>apps/shared/syscall.h\<close>, \<^verbatim>\<open>vdso/vdso.c\<close> and \<^verbatim>\<open>apps/init/main.c\<close>: the system call
  wrappers, the function every task starts in and the first application, with what the
  application's greeting looks like on the console.
\<close>

subsection \<open>System calls as user code makes them\<close>

text \<open>The number goes into \<^verbatim>\<open>a2\<close>, the arguments into \<^verbatim>\<open>a6\<close> and \<^verbatim>\<open>a3\<close>.\<close>

definition syscall0 :: "platform \<Rightarrow> u32 \<Rightarrow> machine \<Rightarrow> machine run" where
  "syscall0 pf n = (\<lambda>(r, s). common_syscall_handler pf (r\<lparr>ar := (ar r)[2 := n]\<rparr>) s)"

definition syscall2 :: "platform \<Rightarrow> u32 \<Rightarrow> u32 \<Rightarrow> u32 \<Rightarrow> machine \<Rightarrow> machine run" where
  "syscall2 pf n arg0 arg1 = (\<lambda>(r, s). common_syscall_handler pf (r\<lparr>ar := (ar r)[2 := n, 6 := arg0, 3 := arg1]\<rparr>) s)"

definition sys_sched_park :: "platform \<Rightarrow> machine \<Rightarrow> machine run" where
  "sys_sched_park pf = syscall0 pf SYSCALL_SCHED_PARK"

definition sys_sched_yield :: "platform \<Rightarrow> machine \<Rightarrow> machine run" where
  "sys_sched_yield pf = syscall0 pf SYSCALL_SCHED_YIELD"

definition sys_sched_drop :: "platform \<Rightarrow> machine \<Rightarrow> machine run" where
  "sys_sched_drop pf = syscall0 pf SYSCALL_SCHED_DROP"

definition sys_log :: "platform \<Rightarrow> u32 \<Rightarrow> u32 \<Rightarrow> machine \<Rightarrow> machine run" where
  "sys_log pf str n = syscall2 pf SYSCALL_LOG str n"

text \<open>Every task starts here; what the entry function does is an argument.\<close>

definition trampoline :: "platform \<Rightarrow> (machine \<Rightarrow> machine run) \<Rightarrow> machine \<Rightarrow> machine run" where
  "trampoline pf entry m = andthen (entry m) (sys_sched_drop pf)"

subsection \<open>The first application\<close>

text \<open>
  A store of the running task goes through the MMU: a virtual data page is mapped to the
  physical one its address space names.
\<close>

definition user_addr :: "kernel \<Rightarrow> u32 \<Rightarrow> u32 option" where
  "user_addr s v = (case tasks s (get_current_task s) of None \<Rightarrow> None | Some t \<Rightarrow>
     (let i = unat (DATA_PAGE_INDEX v); e = entries (dmmu (task_mmu t)) i in
      if i < MAX_PAGE_COUNT \<and> entry_type e = PAGE_MAPPED
      then Some (DATA_PAGE_ADDR (ucast (phys e)) + (v - USER_DATA_BASE) mod USER_PAGE_SIZE) else None))"

definition user_store :: "u32 \<Rightarrow> u8 \<Rightarrow> machine \<Rightarrow> machine run" where
  "user_store v b = (\<lambda>(r, s). case user_addr s v of
       None \<Rightarrow> Inl (Undefined ''access violation'')
     | Some a \<Rightarrow> Inr (r, s\<lparr>mem := (mem s)(a := b)\<rparr>))"

fun user_stores :: "u32 \<Rightarrow> u8 list \<Rightarrow> machine \<Rightarrow> machine run" where
  "user_stores v [] m = Inr m"
| "user_stores v (b # bs) m = andthen (user_store v b m) (user_stores (v + 1) bs)"

text \<open>\<^verbatim>\<open>_start\<close> up to its endless loop; \<open>buffer\<close> is the address of its static array.\<close>

definition init_start :: "platform \<Rightarrow> u32 \<Rightarrow> machine \<Rightarrow> machine run" where
  "init_start pf buffer m =
     andthen (user_stores buffer (map of_char ''Hello!'') m) (sys_log pf buffer 6)"

subsection \<open>The log system call\<close>

lemma data_addr_not_null: "DATA_PAGE_ADDR (ucast (w :: u8)) \<noteq> NULL"
proof -
  have "unat w < 2 ^ LENGTH(8)" by (rule unsigned_less)
  then have w: "unat (ucast w :: u32) < 256" by (simp add: unsigned_ucast_eq take_bit_eq_mod)
  have "unat (DATA_PAGE_ADDR (ucast w)) = unat (ucast w :: u32) * 0x2000 + 0x3FFC0000"
    using w by (simp add: DATA_PAGE_ADDR_def USER_PAGE_SIZE_def USER_DATA_BASE_def unat_word_ariths)
  then show ?thesis by (metis add_is_0 unat_0 zero_neq_numeral)
qed

text \<open>What the call prints, whatever the offset of the pointer in its page.\<close>

definition log_line :: "kernel \<Rightarrow> task \<Rightarrow> u32 \<Rightarrow> u32 \<Rightarrow> string" where
  "log_line s t str n =
     ''[*] '' @ take 64 (c_string (ucontext t + UCONTEXT_NAME) (mem s)) @ '': '' @
     take (if 0 < sint n then unat n else 0)
       (c_string (DATA_PAGE_ADDR (ucast (phys (entries (dmmu (task_mmu t)) (unat (DATA_PAGE_INDEX str)))))) (mem s)) @ CRLF"

lemma log_syscall_ok:
  assumes t: "tasks s (get_current_task s) = Some t" and i: "unat (DATA_PAGE_INDEX (ar r ! 6)) < 16"
  shows "log_syscall r s = Inr (NO_ERROR, s\<lparr>console := console s @ log_line s t (ar r ! 6) (ar r ! 3)\<rparr>)"
proof -
  let ?a = "DATA_PAGE_ADDR (ucast (phys (entries (dmmu (task_mmu t)) (unat (DATA_PAGE_INDEX (ar r ! 6))))))"
  let ?n = "c_string (ucontext t + UCONTEXT_NAME) (mem s)" and ?c = "c_string ?a (mem s)"
  have g: "get_user_ptr (ar r ! SYSCALL_ARG1) (ar r ! SYSCALL_ARG2) s = Inr (NO_ERROR, ?a)"
    using t i by (simp add: get_user_ptr_def SYSCALL_ARG1_def MAX_PAGE_COUNT_def Let_def)
  have nn: "NUL \<notin> set (take k (c_string x (mem s)))" for k x
    using cstring_no_nul set_take_subset unfolding c_string_def by fast
  then have flt: "filter (\<lambda>c. c \<noteq> NUL) (take k (c_string x (mem s))) = take k (c_string x (mem s))" for k x
    by (intro filter_True) metis
  have "TRACE LOG_FORMAT [VStr (Some ?n), VInt (ar r ! SYSCALL_ARG2), VStr (Some ?c)] (console s) =
      Inr (console s @ log_line s t (ar r ! 6) (ar r ! 3))"
    unfolding TRACE_def prints_text [OF log_text]
    by (simp add: log_line_def SYSCALL_ARG2_def flt CRLF_def)
  then show ?thesis
    using g t data_addr_not_null by (simp add: log_syscall_def kprint_def Let_def IS_ERROR_def)
qed

lemma sys_log_ok:
  assumes t: "tasks s (get_current_task s) = Some t" and i: "unat (DATA_PAGE_INDEX str) < 16" and wf: "regs_wf r"
  shows "sys_log pf str n (r, s) =
    Inr (r\<lparr>ar := (ar r)[6 := str, 3 := n, 2 := 0]\<rparr>, s\<lparr>console := console s @ log_line s t str n\<rparr>)"
proof -
  let ?r = "r\<lparr>ar := (ar r)[2 := SYSCALL_LOG, 6 := str, 3 := n]\<rparr>"
  have len: "length (ar r) = 64" using wf by (simp add: regs_wf_def)
  have num: "ar ?r ! SYSCALL_NUM = SYSCALL_LOG" using len by (simp add: SYSCALL_NUM_def)
  have r1: "set_ret 0 ?r = r\<lparr>ar := (ar r)[6 := str, 3 := n, 2 := 0]\<rparr>"
    using len by (simp add: set_ret_def SYSCALL_RET_def list_update_swap)
  have a: "ar (set_ret 0 ?r) ! 6 = str" "ar (set_ret 0 ?r) ! 3 = n" using len by (simp_all add: r1)
  have "log_syscall (set_ret 0 ?r) s = Inr (NO_ERROR, s\<lparr>console := console s @ log_line s t str n\<rparr>)"
    using log_syscall_ok [OF t, of "set_ret 0 ?r"] i a by simp
  then show ?thesis
    using num by (simp add: sys_log_def syscall2_def common_syscall_handler_def Let_def SYSCALL_LOG_def
        SYSCALL_SCHED_PARK_def SYSCALL_SCHED_YIELD_def SYSCALL_SCHED_DROP_def IS_ERROR_def r1 [unfolded SYSCALL_LOG_def])
qed

subsection \<open>The greeting\<close>

lemma data_virtual:
  assumes "i < 16" "d < 8192"
  shows "unat (DATA_PAGE_INDEX (USER_DATA_BASE + of_nat (i * 8192 + d))) = i"
    "(USER_DATA_BASE + of_nat (i * 8192 + d) - USER_DATA_BASE) mod USER_PAGE_SIZE = of_nat d"
proof -
  have b: "i * 8192 + d < 4294967296" using assms by simp
  have u: "unat (of_nat (i * 8192 + d) :: u32) = i * 8192 + d" by (rule unat_of_nat_small [OF b])
  have "unat (DATA_PAGE_INDEX (USER_DATA_BASE + of_nat (i * 8192 + d))) = (i * 8192 + d) div 8192"
    unfolding DATA_PAGE_INDEX_def USER_PAGE_SIZE_def by (simp add: unat_div u del: of_nat_add of_nat_mult)
  then show "unat (DATA_PAGE_INDEX (USER_DATA_BASE + of_nat (i * 8192 + d))) = i" using assms by simp
  have "unat ((of_nat (i * 8192 + d) :: u32) mod USER_PAGE_SIZE) = unat (of_nat d :: u32)"
    unfolding USER_PAGE_SIZE_def using assms by (simp add: unat_mod u del: of_nat_add of_nat_mult)
  then have "(of_nat (i * 8192 + d) :: u32) mod USER_PAGE_SIZE = of_nat d" by (simp only: word_unat_eq_iff)
  then show "(USER_DATA_BASE + of_nat (i * 8192 + d) - USER_DATA_BASE) mod USER_PAGE_SIZE = of_nat d" by simp
qed

lemma user_stores_ok:
  "tasks s (get_current_task s) = Some t \<Longrightarrow> i < 16 \<Longrightarrow> entry_type (entries (dmmu (task_mmu t)) i) = PAGE_MAPPED \<Longrightarrow>
   d + length bs \<le> 8192 \<Longrightarrow>
   user_stores (USER_DATA_BASE + of_nat (i * 8192 + d)) bs (r, s) = Inr (r, s\<lparr>mem :=
     store_bytes (DATA_PAGE_ADDR (ucast (phys (entries (dmmu (task_mmu t)) i))) + of_nat d) bs (mem s)\<rparr>)"
proof (induction bs arbitrary: s d)
  case (Cons b bs)
  let ?v = "USER_DATA_BASE + of_nat (i * 8192 + d)"
  let ?a = "DATA_PAGE_ADDR (ucast (phys (entries (dmmu (task_mmu t)) i)))"
  let ?s = "s\<lparr>mem := (mem s)(?a + of_nat d := b)\<rparr>"
  have d: "d < 8192" using Cons.prems(4) by simp
  have c: "get_current_task ?s = get_current_task s" by (simp add: get_current_task_def)
  have ua: "user_addr s ?v = Some (?a + of_nat d)"
    using Cons.prems(1-3) unfolding user_addr_def Let_def data_virtual [OF Cons.prems(2) d]
    by (simp add: MAX_PAGE_COUNT_def)
  have "user_stores (USER_DATA_BASE + of_nat (i * 8192 + Suc d)) bs (r, ?s) = Inr (r, ?s\<lparr>mem :=
      store_bytes (?a + of_nat (Suc d)) bs (mem ?s)\<rparr>)"
    by (rule Cons.IH) (use Cons.prems c in auto)
  moreover have "?v + 1 = USER_DATA_BASE + of_nat (i * 8192 + Suc d)" by simp
  moreover have "user_store ?v b (r, s) = Inr (r, ?s)" unfolding user_store_def prod.case ua by (rule option.case(2))
  moreover have "?a + of_nat d + 1 = ?a + of_nat (Suc d)" by simp
  ultimately show ?case by (simp only: user_stores.simps andthen.simps store_bytes.simps) simp
qed simp

lemma uctx_other_page:
  assumes inv: "sched_inv s xs" and t: "tasks s p = Some t" and i: "i < 15" "entry_type (entries (dmmu (task_mmu t)) i) = PAGE_MAPPED"
  obtains q r where "ucontext t = DATA_PAGE_ADDR (of_nat q)" "q < 16" "r < 16" "q \<noteq> r"
    "ucast (phys (entries (dmmu (task_mmu t)) i)) = (of_nat r :: u32)"
proof -
  have tok: "tasks_ok (tasks s)" and uok: "uctx_ok (tasks s)" using inv by (simp_all add: sched_inv_def mmu_inv_def)
  have wf: "space_wf 16 (dmmu (task_mmu t))" by (rule tasks_okD(3) [OF tok t])
  obtain q where q: "q < 16" "maps_page (dmmu (task_mmu t)) 15 q" "ucontext t = DATA_PAGE_ADDR (of_nat q)"
    using uok t unfolding uctx_ok_def by blast
  let ?r = "unat (phys (entries (dmmu (task_mmu t)) i))"
  have m: "maps_page (dmmu (task_mmu t)) i ?r" using i by (simp add: maps_page_def)
  then have "?r < 16" using wf by (auto simp: space_wf_def pages_of_def)
  moreover have "q \<noteq> ?r" using wf m q(2) i(1) unfolding space_wf_def by blast
  moreover have "ucast (phys (entries (dmmu (task_mmu t)) i)) = (of_nat ?r :: u32)" by simp
  ultimately show ?thesis using that q by blast
qed

lemma init_start_ok:
  assumes inv: "sched_inv s xs" and t: "tasks s (get_current_task s) = Some t" and wf: "regs_wf r"
    and i: "i < 15" "entry_type (entries (dmmu (task_mmu t)) i) = PAGE_MAPPED"
  obtains r' m' where "init_start pf (USER_DATA_BASE + of_nat (i * 8192)) (r, s) = Inr (r', s\<lparr>mem := m',
      console := console s @ ''[*] '' @ take 64 (c_string (ucontext t + UCONTEXT_NAME) (mem s)) @ '': Hello!'' @ CRLF\<rparr>)"
proof -
  obtain q k where qk: "ucontext t = DATA_PAGE_ADDR (of_nat q)" "q < 16" "k < 16" "q \<noteq> k"
    "ucast (phys (entries (dmmu (task_mmu t)) i)) = (of_nat k :: u32)"
    by (rule uctx_other_page [OF inv t i])
  let ?v = "USER_DATA_BASE + of_nat (i * 8192)" and ?bs = "map of_char ''Hello!'' :: u8 list"
  let ?a = "DATA_PAGE_ADDR (of_nat k)"
  let ?m = "store_bytes ?a ?bs (mem s)"
  let ?s = "s\<lparr>mem := ?m\<rparr>"
  have ix: "unat (DATA_PAGE_INDEX ?v) = i" using data_virtual(1) [of i 0] i by simp
  have st: "user_stores ?v ?bs (r, s) = Inr (r, ?s)"
    using user_stores_ok [OF t _ i(2), of 0 ?bs r] i(1) qk(5) by simp
  have t': "tasks ?s (get_current_task ?s) = Some t" using t by (simp add: get_current_task_def)
  have at: "?m (?a + of_nat j) = of_char (''Hello!'' ! j)" if "j < 6" for j
    using that by (simp add: store_bytes_at del: store_bytes.simps list.map)
  have "take (length ''Hello!'') (c_string ?a ?m) = ''Hello!''"
    unfolding c_string_def
  proof (rule cstring_take)
    show "?m (?a + of_nat j) = of_char (''Hello!'' ! j)" if "j < length ''Hello!''" for j
      by (rule at) (use that in simp)
  qed auto
  moreover have "length ''Hello!'' = 6" by simp
  ultimately have "take 6 (c_string ?a ?m) = ''Hello!''" by (simp only:)
  moreover have "take 64 (c_string (ucontext t + UCONTEXT_NAME) ?m) = take 64 (c_string (ucontext t + UCONTEXT_NAME) (mem s))"
    unfolding c_string_def take_cstring [of 64 4294967296, simplified]
  proof (rule cstring_cong)
    fix j :: nat assume j: "j < 64"
    have "ucontext t + UCONTEXT_NAME + of_nat j = DATA_PAGE_ADDR (of_nat q) + of_nat (4096 + j)"
      by (simp add: qk(1) UCONTEXT_NAME_def)
    then have "ucontext t + UCONTEXT_NAME + of_nat j \<in> data_page q"
      using j by (simp add: data_page_def region_def del: of_nat_add)
    then have n: "ucontext t + UCONTEXT_NAME + of_nat j \<notin> data_page k" using data_pages_disjoint [OF qk(2-4)] by blast
    have "ucontext t + UCONTEXT_NAME + of_nat j \<notin> region ?a (length ?bs)"
      using n by (simp add: data_page_def region_def)
    then show "?m (ucontext t + UCONTEXT_NAME + of_nat j) = mem s (ucontext t + UCONTEXT_NAME + of_nat j)"
      by (intro store_bytes_other) simp_all
  qed
  ultimately have "log_line ?s t ?v 6 =
      ''[*] '' @ take 64 (c_string (ucontext t + UCONTEXT_NAME) (mem s)) @ '': Hello!'' @ CRLF"
    unfolding log_line_def ix qk(5) by simp
  moreover have "sys_log pf ?v 6 (r, ?s) =
      Inr (r\<lparr>ar := (ar r)[6 := ?v, 3 := 6, 2 := 0]\<rparr>, ?s\<lparr>console := console ?s @ log_line ?s t ?v 6\<rparr>)"
    by (rule sys_log_ok [OF t' _ wf]) (use ix i(1) in simp)
  ultimately have "init_start pf ?v (r, s) = Inr (r\<lparr>ar := (ar r)[6 := ?v, 3 := 6, 2 := 0]\<rparr>, s\<lparr>mem := ?m,
      console := console s @ ''[*] '' @ take 64 (c_string (ucontext t + UCONTEXT_NAME) (mem s)) @ '': Hello!'' @ CRLF\<rparr>)"
    unfolding init_start_def st andthen.simps by simp
  then show ?thesis by (rule that)
qed

text \<open>The pointer's offset in its page plays no role: the text always comes from the start of the page.\<close>

lemma log_line_offset:
  assumes "i < 16" "d < 8192"
  shows "log_line s t (USER_DATA_BASE + of_nat (i * 8192 + d)) n = log_line s t (USER_DATA_BASE + of_nat (i * 8192)) n"
  using data_virtual(1) [OF assms] data_virtual(1) [of i 0] assms(1) by (simp only: log_line_def add_0_right)

subsection \<open>Returning from a task\<close>

text \<open>A task whose entry function returns asks to be dropped, and the kernel stops at the missing release.\<close>

lemma trampoline_stops:
  assumes "entry m = Inr (r, s)" "system_inv (r, s)"
  shows "trampoline pf entry m = Inl (Assert_failed ''TODO: release_task'')"
proof -
  have "regs_wf r" using assms(2) by (simp add: system_inv_def)
  then have "ar (r\<lparr>ar := (ar r)[2 := SYSCALL_SCHED_DROP]\<rparr>) ! SYSCALL_NUM = SYSCALL_SCHED_DROP"
    by (simp add: regs_wf_def SYSCALL_NUM_def)
  then show ?thesis
    using drop_stops [OF assms(2)] assms(1)
    by (simp add: trampoline_def sys_sched_drop_def syscall0_def common_syscall_handler_def Let_def
        SYSCALL_SCHED_DROP_def SYSCALL_SCHED_PARK_def SYSCALL_SCHED_YIELD_def)
qed

end
