(* ===== verification/Task_Properties.thy ===== *)
theory Task_Properties
  imports Example User_Program
begin

section \<open>Properties of tasks and the scheduler\<close>

text \<open>
  Creation, address spaces, the run queue and the scheduler's handlers. The instances use the
  machine of \<^verbatim>\<open>Example\<close> with one running and one ready task.
\<close>

lemma demo_two_sched: "sched_inv (snd demo_two) [demo_b]"
  using demo_two(2) by (simp add: kernel_inv_def)

lemma demo_two_mmu: "mmu_inv (snd demo_two)"
  using demo_two_sched by (simp add: sched_inv_def)

lemma demo_two_park: "park_callback (get_cpu_context (snd demo_two)) = NULL"
  using demo_two(1) by (simp add: system_inv_def case_prod_beta)

lemma demo_two_task: "\<exists>t. tasks (snd demo_two) demo_a = Some t"
  using demo_two_sched demo_two(3) by (auto simp: sched_inv_def)

lemma demo_two_spec: "\<exists>a. sched_abs (snd demo_two) a \<and> running a = Some demo_a \<and> ready a = [demo_b]"
  using demo_two_sched demo_two(3)
  by (intro exI [of _ "\<lparr>ready = [demo_b], running = Some demo_a, saved = saved_regs (snd demo_two)\<rparr>"])
    (simp add: sched_abs_def)

subsection \<open>The scheduler\<close>

text \<open>C4: The end of a time slice implements the specification's step: the running task's registers are saved,
  it goes to the back of the ready list, the first ready task's registers are restored, and the hardware
  PID selected is that task's.\<close>

theorem schedule_refines:
  assumes "sched_abs s a" "running a \<noteq> None" "regs_wf r"
  shows "\<exists>r' a' s'. spec_preempt r a = Some (r', a') \<and>
    scheduler_on_schedule r s = Inr (r', s') \<and> sched_abs s' a' \<and> switches_to s' (the (running a'))"
  by (rule on_schedule_refines [OF assms])

theorem schedule_refines_witness:
  "\<exists>r' s'. scheduler_on_schedule (fst demo_two) (snd demo_two) = Inr (r', s') \<and> switches_to s' demo_b \<and>
     sched_inv s' [demo_a]"
proof -
  obtain a where a: "sched_abs (snd demo_two) a" "running a = Some demo_a" "ready a = [demo_b]" using demo_two_spec by blast
  obtain r' a' s' where s': "spec_preempt (fst demo_two) a = Some (r', a')" "sched_abs s' a'"
    "scheduler_on_schedule (fst demo_two) (snd demo_two) = Inr (r', s')" "switches_to s' (the (running a'))"
    using schedule_refines [OF a(1) _ demo_two(4)] a(2) by auto
  have "ready a' = [demo_a]" "running a' = Some demo_b"
    using s'(1) a by (auto simp: spec_preempt_def spec_pick_def)
  then have "switches_to s' demo_b" "sched_inv s' [demo_a]" using s'(2,4) by (simp, simp add: sched_abs_def)
  then show ?thesis using s'(3) by blast
qed

text \<open>C14: Parking without a callback implements the specification's step, and when no other task is ready the
  core idles in the loop for ever.\<close>

theorem park_refines:
  assumes "sched_abs s a" "running a \<noteq> None" "regs_wf r" "park_callback (get_cpu_context s) = NULL"
  shows "(case spec_park r a of
      None \<Rightarrow> scheduler_on_park pf r s = Inl Spin
    | Some (r', a') \<Rightarrow> \<exists>s'. scheduler_on_park pf r s = Inr (r', s') \<and> sched_abs s' a' \<and>
        switches_to s' (the (running a')))"
  by (rule on_park_refines [OF assms])

theorem park_refines_witness:
  "\<exists>r' s'. scheduler_on_park demo_pf (fst demo_two) (snd demo_two) = Inr (r', s') \<and> switches_to s' demo_b \<and> sched_inv s' []"
proof -
  obtain a where a: "sched_abs (snd demo_two) a" "running a = Some demo_a" "ready a = [demo_b]" using demo_two_spec by blast
  obtain r' a' where sp: "spec_park (fst demo_two) a = Some (r', a')" "ready a' = []" "running a' = Some demo_b"
    using a(2,3) by (simp add: spec_park_def spec_pick_def)
  obtain s' where "scheduler_on_park demo_pf (fst demo_two) (snd demo_two) = Inr (r', s')" "sched_abs s' a'"
    "switches_to s' demo_b"
    using park_refines [OF a(1) _ demo_two(4) demo_two_park, of demo_pf] a(2) sp by auto
  then show ?thesis using sp by (auto simp: sched_abs_def)
qed

text \<open>C13: Round robin: as many slices as there are ready tasks run each of them once, in the order of the queue,
  each with the registers it was stopped with; one more slice resumes the first task with the registers it
  was stopped with, and the queue is as before.\<close>

theorem round_robin:
  assumes "sched_inv s xs" "get_current_task s = c" "c \<noteq> NULL" "length rs = length xs" "\<forall>r \<in> set (rs @ [r]). regs_wf r"
  shows "\<exists>s'. slices (rs @ [r]) s =
      Inr (map (\<lambda>x. (x, the (saved_regs s x))) xs @ [(c, hd (rs @ [r]))], s') \<and>
    sched_inv s' xs \<and> get_current_task s' = c"
  by (rule full_round [OF assms])

theorem round_robin_witness:
  "\<exists>s' r. slices [fst demo_two, zero_regs] (snd demo_two) = Inr ([(demo_b, r), (demo_a, fst demo_two)], s') \<and>
     sched_inv s' [demo_b] \<and> get_current_task s' = demo_a"
  using round_robin [OF demo_two_sched demo_two(3), of "[fst demo_two]" zero_regs] demo_two(4) zero_regs_wf by auto

text \<open>C27: The global run queue is first in, first out: a task that is put in comes out after all tasks that were there,
  which come out in order, and then the queue gives the null pointer.\<close>

theorem run_queue_fifo:
  assumes "run_queue s xs" "run_queue_elem s x" "x \<notin> set xs"
  shows "\<exists>s' s''. global_run_queue_put x s = Inr s' \<and>
    get_many global_run_queue_get (length (xs @ [x])) s' = Inr (xs @ [x], s'') \<and>
    global_run_queue_get s'' = Inr (NULL, s'')"
proof -
  obtain s' where s': "global_run_queue_put x s = Inr s'" "run_queue s' (xs @ [x])"
    using grq.put_rep [OF assms] by blast
  obtain s'' where "get_many global_run_queue_get (length (xs @ [x])) s' = Inr (xs @ [x], s'')" "run_queue s'' []"
    using grq.get_many_rep [of s' "xs @ [x]" "[]"] s'(2) by auto
  then show ?thesis using s'(1) grq.get_empty by blast
qed

theorem run_queue_fifo_witness:
  "\<exists>s' s''. global_run_queue_put demo_a (snd demo_two) = Inr s' \<and>
     get_many global_run_queue_get 2 s' = Inr ([demo_b, demo_a], s'') \<and> global_run_queue_get s'' = Inr (NULL, s'')"
proof -
  have q: "run_queue (snd demo_two) [demo_b]" using demo_two_sched by (simp add: sched_inv_def)
  have e: "run_queue_elem (snd demo_two) demo_a"
    using demo_two_task by (auto simp: run_queue_elem_def queue_elem_def)
  have n: "demo_a \<notin> set [demo_b]" "[demo_b] @ [demo_a] = [demo_b, demo_a]" "length [demo_b, demo_a] = 2" by simp_all
  show ?thesis using run_queue_fifo [OF q e n(1)] unfolding n(2) n(3) .
qed

text \<open>C16: Readying a waiting task puts it at the end of the run queue and changes no saved register and no memory; each
  call leaves the preemption counter two higher, because the enabling call increments it as well.\<close>

theorem ready_appends:
  assumes "sched_inv s xs" "tasks s p = Some t" "status t = TASK_STATUS_WAITING"
  shows "\<exists>s'. scheduler_ready_task p s = Inr s' \<and> sched_inv s' (xs @ [p]) \<and> saved_regs s' = saved_regs s \<and>
    mem s' = mem s \<and> get_current_task s' = get_current_task s \<and>
    preempt_disable_depth (get_cpu_context s') = preempt_disable_depth (get_cpu_context s) + 2"
proof -
  obtain s' where "scheduler_ready_task p s = Inr s'" "sched_inv s' (xs @ [p])"
    "saved_regs s' = saved_regs s" "sched_frame s s'" "get_current_task s' = get_current_task s"
    "mem s' = mem s" "dport s' = dport s" "timg s' = timg s"
    "preempt_disable_depth (get_cpu_context s') = preempt_disable_depth (get_cpu_context s) + 2"
    by (rule ready_task_ok [OF assms])
  then show ?thesis by blast
qed

subsection \<open>Creation\<close>

text \<open>C15: Creating a task with a working heap and a free data page gives a waiting task with a new address, the lowest
  free data page as its context page, the initial registers with the entry point, and changes no
  other task's registers and no memory outside that page and the heap's own.\<close>

theorem create_gives_task:
  assumes "kernel_inv s xs" "heap_ok pf s" "umm_malloc pf (sizeof_task_t pf) (mem s) = (p, m)" "p \<noteq> NULL"
    and "data_free (umem s) \<noteq> {}" "q = Min (data_free (umem s))" "format_text fmt va = Inr cs"
  shows "\<exists>s'. create_task pf entry fmt va s = Inr (p, s') \<and> kernel_inv s' xs \<and> p \<notin> dom (tasks s) \<and>
    tasks s' = (tasks s)(p \<mapsto> \<lparr>task_pid = m_pid_gen s, task_mmu = uctx_space q,
        status = TASK_STATUS_WAITING, sched_link = NULL, ucontext = DATA_PAGE_ADDR (of_nat q)\<rparr>) \<and>
    saved_regs s' = (saved_regs s)(p \<mapsto> initial_regs pf entry) \<and>
    data_free (umem s') = data_free (umem s) - {q} \<and> (\<forall>x. x \<notin> data_page q \<longrightarrow> mem s' x = m x)"
proof -
  obtain s' where "create_task pf entry fmt va s = Inr (p, s')" "kernel_inv s' xs" "p \<notin> dom (tasks s)"
    "tasks s' = (tasks s)(p \<mapsto> \<lparr>task_pid = m_pid_gen s, task_mmu = uctx_space q,
        status = TASK_STATUS_WAITING, sched_link = NULL, ucontext = DATA_PAGE_ADDR (of_nat q)\<rparr>)"
    "data_free (umem s') = data_free (umem s) - {q}"
    "saved_regs s' = (saved_regs s)(p \<mapsto> initial_regs pf entry)"
    "\<And>x. x \<notin> data_page q \<Longrightarrow> mem s' x = m x"
    by (rule create_task_ok [OF assms]) blast
  then show ?thesis by blast
qed

lemma demo_ready_malloc: "umm_malloc demo_pf (sizeof_task_t demo_pf) (mem demo_ready) =
    (0x3FFE8404, store32 demo_cell 0x3FFE8604 (mem demo_ready))"
  using demo_ready(7) by (simp add: demo_pf_def)

lemma demo_ready_heap: "heap_ok demo_pf demo_ready"
  using demo_malloc_user demo_ready(2,7) by (auto simp: heap_ok_def) (auto simp: demo_pf_def)

theorem create_gives_task_witness:
  "\<exists>s'. create_task demo_pf USER_CODE_BASE ''third'' [] demo_ready = Inr (0x3FFE8404, s') \<and>
     kernel_inv s' [demo_a, demo_b] \<and> saved_regs s' 0x3FFE8404 = Some (initial_regs demo_pf USER_CODE_BASE)"
proof -
  have f: "format_text ''third'' [] = Inr ''third''" by simp
  from create_gives_task [OF demo_ready(1) demo_ready_heap demo_ready_malloc _ demo_ready(6) refl f, of USER_CODE_BASE]
  show ?thesis by auto
qed

theorem ready_appends_witness:
  "\<exists>s s'. create_task demo_pf USER_CODE_BASE ''third'' [] demo_ready = Inr (0x3FFE8404, s) \<and>
     scheduler_ready_task 0x3FFE8404 s = Inr s' \<and> sched_inv s' [demo_a, demo_b, 0x3FFE8404]"
proof -
  have f: "format_text ''third'' [] = Inr ''third''" by simp
  obtain s t where c: "create_task demo_pf USER_CODE_BASE ''third'' [] demo_ready = Inr (0x3FFE8404, s)"
    "kernel_inv s [demo_a, demo_b]" "tasks s 0x3FFE8404 = Some t" "status t = TASK_STATUS_WAITING"
    by (rule create_task_ok [OF demo_ready(1) demo_ready_heap demo_ready_malloc _ demo_ready(6) refl f, of USER_CODE_BASE]) auto
  then have "sched_inv s [demo_a, demo_b]" by (simp add: kernel_inv_def)
  from ready_appends [OF this c(3,4)] c(1) show ?thesis by auto
qed


subsection \<open>Address spaces\<close>

text \<open>C9: Activating a task's address space succeeds, makes it the current one and keeps the isolation invariant:
  every page the tables grant to a hardware PID belongs to the space bound to that PID.\<close>

theorem activate_isolates:
  assumes "mmu_inv s" "tasks s p = Some t"
  shows "\<exists>s'. mmu_activate p s = Inr s' \<and> mmu_inv s' \<and> active_space s' = Some p \<and> same_but_mmu s s'"
  by (rule mmu_activate_inv [OF assms])

theorem activate_isolates_witness:
  "\<exists>s'. mmu_activate demo_b (snd demo_two) = Inr s' \<and> mmu_inv s' \<and> active_space s' = Some demo_b"
proof -
  have "run_queue (snd demo_two) [demo_b]" using demo_two_sched by (simp add: sched_inv_def)
  then have "run_queue_elem (snd demo_two) demo_b" by (rule grq.rep_elem) simp
  then obtain t where t: "tasks (snd demo_two) demo_b = Some t" by (auto simp: run_queue_elem_def queue_elem_def)
  from activate_isolates [OF demo_two_mmu t] show ?thesis by blast
qed

text \<open>C18: A space that has no hardware PID takes the one whose space was activated longest ago, by the stamps, and the
  other five keep their spaces.\<close>

theorem activate_evicts_oldest:
  assumes "mmu_inv s" "tasks s p = Some t" "\<forall>j < 6. bound_space (the_binding j s) \<noteq> p"
  shows "\<exists>s' k. mmu_activate p s = Inr s' \<and> k < 6 \<and> bound_space (the_binding k s') = p \<and>
    (\<forall>j < 6. primary_stamp (the_binding k s) \<le> primary_stamp (the_binding j s)) \<and>
    (\<forall>j < 6. j \<noteq> k \<longrightarrow> the_binding j s' = the_binding j s)"
  by (rule mmu_activate_lru [OF assms])

text \<open>A task created right after the boot has no hardware PID yet.\<close>

lemma demo_created:
  obtains s t where "create_task demo_pf USER_CODE_BASE ''worker'' [] (kern demo_booted) = Inr (demo_a, s)"
    "mmu_inv s" "tasks s demo_a = Some t" "\<forall>j < 6. bound_space (the_binding j s) \<noteq> demo_a"
proof -
  let ?s = "kern demo_booted" and ?m = "store32 demo_cell demo_b (mem (kern demo_booted))"
  have bt: "booted ?s" using kmain_init_ok [OF demo_reset_boot demo_init] by blast
  have k: "kernel_inv ?s []" and ts: "tasks ?s = Map.empty" and ne: "data_free (umem ?s) \<noteq> {}"
    using bt by (auto simp: booted_def data_free_init lessThan_empty_iff)
  have heap: "heap_ok demo_pf ?s"
    using demo_malloc_user ts by (auto simp: heap_ok_def) (auto simp: demo_pf_def)
  have m: "umm_malloc demo_pf (sizeof_task_t demo_pf) (mem ?s) = (demo_a, ?m)"
    by (simp add: demo_pf_def demo_booted_mem load_store32)
  have f: "format_text ''worker'' [] = Inr ''worker''" by simp
  obtain s where s: "create_task demo_pf USER_CODE_BASE ''worker'' [] ?s = Inr (demo_a, s)" "kernel_inv s []"
    "tasks s = (tasks ?s)(demo_a \<mapsto> \<lparr>task_pid = m_pid_gen ?s, task_mmu = uctx_space (Min (data_free (umem ?s))),
        status = TASK_STATUS_WAITING, sched_link = NULL, ucontext = DATA_PAGE_ADDR (of_nat (Min (data_free (umem ?s))))\<rparr>)"
    "s = ?s\<lparr>tasks := tasks s, mem := mem s, umem := umem s, m_pid_gen := m_pid_gen ?s + 1\<rparr>"
    by (rule create_task_ok [OF k heap m _ ne refl f, of USER_CODE_BASE]) (simp, blast)
  have "bindings_ok ?s" using k by (simp add: kernel_inv_def sched_inv_def mmu_inv_def)
  then have "bound_space (the_binding j ?s) = NULL" if "j < 6" for j
    using that ts by (auto simp: bindings_ok_def)
  moreover have "the_binding j s = the_binding j ?s" for j
    by (subst s(4)) (simp add: the_binding_def get_cpu_context_def get_cpu_index_def)
  ultimately have "\<forall>j < 6. bound_space (the_binding j s) \<noteq> demo_a" by simp
  then show ?thesis using that s by (simp add: kernel_inv_def sched_inv_def)
qed

theorem activate_evicts_oldest_witness:
  "\<exists>s s' k. create_task demo_pf USER_CODE_BASE ''worker'' [] (kern demo_booted) = Inr (demo_a, s) \<and>
     mmu_activate demo_a s = Inr s' \<and> k < 6 \<and> bound_space (the_binding k s') = demo_a"
proof -
  obtain s t where "create_task demo_pf USER_CODE_BASE ''worker'' [] (kern demo_booted) = Inr (demo_a, s)"
    "mmu_inv s" "tasks s demo_a = Some t" "\<forall>j < 6. bound_space (the_binding j s) \<noteq> demo_a"
    by (rule demo_created)
  then show ?thesis using activate_evicts_oldest [of s demo_a t] by blast
qed



subsection \<open>Registers and status\<close>

text \<open>A register file saved to a task's context is read back unchanged, and saving it writes to no byte outside the
  292 bytes of the register area.\<close>

theorem registers_roundtrip:
  assumes "regs_wf r"
  shows "read_regs a (write_regs a r m) = r \<and> (\<forall>x. x \<notin> region a 292 \<longrightarrow> write_regs a r m x = m x)"
  using read_write_regs [OF assms] write_regs_other [OF assms] by blast

theorem registers_roundtrip_witness:
  "read_regs 0x3FFDF040 (write_regs 0x3FFDF040 (zero_regs\<lparr>pc := 0x40080000, windowsize := 7\<rparr>) (\<lambda>_. 0xFF)) =
     zero_regs\<lparr>pc := 0x40080000, windowsize := 7\<rparr>"
proof -
  have wf: "regs_wf (zero_regs\<lparr>pc := 0x40080000, windowsize := 7\<rparr>)" by (simp add: zero_regs_def regs_wf_def)
  show ?thesis using registers_roundtrip [OF wf] by blast
qed

text \<open>A status change succeeds at once when the task has the expected status; otherwise it never gets past the
  loop.\<close>

theorem status_change_waits:
  assumes "tasks s p = Some t" "old AND TASK_SUSPEND = 0" "new AND TASK_SUSPEND = 0" "old \<noteq> new"
  shows "(status t = old \<longrightarrow> cas_task_state p old new s = Inr (s\<lparr>tasks := (tasks s)(p \<mapsto> t\<lparr>status := new\<rparr>)\<rparr>)) \<and>
    (status t \<noteq> old \<longrightarrow> (\<forall>s'. cas_task_state p old new s \<noteq> Inr s'))"
  using cas_task_state_ok [OF assms(1) _ assms(2-4)] cas_task_state_blocks [OF assms(1)] by blast

theorem status_change_waits_witness:
  "\<exists>s. cas_task_state demo_a TASK_STATUS_RUNNING TASK_STATUS_WAITING (snd demo_two) = Inr s \<and>
     (\<forall>s'. cas_task_state demo_a TASK_STATUS_WAITING TASK_STATUS_RUNNABLE (snd demo_two) \<noteq> Inr s')"
proof -
  obtain t where t: "tasks (snd demo_two) demo_a = Some t" using demo_two_task by blast
  have st: "status t = TASK_STATUS_RUNNING"
    using demo_two_sched demo_two(3) t unfolding sched_inv_def status_ok_def by force
  show ?thesis
    using status_change_waits [OF t, of TASK_STATUS_RUNNING TASK_STATUS_WAITING]
      status_change_waits [OF t, of TASK_STATUS_WAITING TASK_STATUS_RUNNABLE] st by simp
qed

subsection \<open>Peripheral masks\<close>

text \<open>C35: When the loops over a space's peripherals end, for every mask: granting and revoking go through the MPU table
  for the two lowest bits of the mask, whose entries are 2 and 4. A mask with a higher bit never gets further: if the lowest of
  these is bit 2, 3 or 4, or all of them are above bit 31, the loop runs for ever on one entry, and otherwise it writes outside the table.\<close>

theorem peripheral_loops:
  "FOR_EACH_BIT num (mpu_grant p) tbl =
     (if num AND NOT 3 = 0 then Inr (low_entries (\<lambda>_. push_bit p 1) num tbl)
      else if ffs (ucast (num AND NOT 3) :: u32) \<le> 5 then Inl Spin else Inl (Undefined ''MPU table index'')) \<and>
   FOR_EACH_BIT num (mpu_revoke p) tbl =
     (if num AND NOT 3 = 0 then Inr (low_entries (\<lambda>w. w AND NOT (push_bit p 1)) num tbl)
      else if ffs (ucast (num AND NOT 3) :: u32) \<le> 5 then Inl Spin else Inl (Undefined ''MPU table index''))"
  unfolding mpu_grant_def [abs_def] mpu_revoke_def [abs_def] by (intro conjI mpu_loop)

subsection \<open>Loading\<close>

text \<open>C8: A loadable application becomes a ready task: its code and data are in its address space byte for byte, its
  registers are the initial ones with the image's entry point, and every other task keeps its bytes
  and registers.\<close>

theorem load_gives_task:
  assumes "kernel_inv s xs" "heap_ok pf s" "loadable pf name app app_size s"
  shows "\<exists>p s'. loader_load_app pf junk name app app_size s = Inr (NO_ERROR, s') \<and>
    kernel_inv s' (xs @ [p]) \<and> p \<notin> dom (tasks s) \<and> app_loaded pf app p s s'"
proof -
  obtain p s' where "loader_load_app pf junk name app app_size s = Inr (NO_ERROR, s')"
    "kernel_inv s' (xs @ [p])" "p \<notin> dom (tasks s)" "app_loaded pf app p s s'" "timg s' = timg s" "dport s' = dport s"
    by (rule loader_load_app_ok [OF assms, of junk])
  then show ?thesis by blast
qed

theorem load_gives_task_witness:
  "\<exists>header s. initrd_copy demo_pf (kern demo_booted) = (header, s) \<and>
     (\<exists>p s'. loader_load_app demo_pf NULL (header + 12) (header + 76) 28 s = Inr (NO_ERROR, s') \<and> kernel_inv s' [p])"
proof -
  obtain header s where cp: "initrd_copy demo_pf (kern demo_booted) = (header, s)" by fastforce
  have bt: "booted (kern demo_booted)" using kmain_init_ok [OF demo_reset_boot demo_init] by blast
  have img: "initrd_image INITRD_HANDOFF demo_app (mem (kern demo_booted))"
    by (rule initrd_image_move [OF demo_flashed(2)]) (use demo_handoff length_demo_app in simp)
  note cpd = initrd_copied [OF img demo_params(1,2) demo_boot_heap]
  have s: "s = (kern demo_booted)\<lparr>mem := mem s\<rparr>" using cpd(1) cp by auto
  have k: "kernel_inv s []" by (subst s) (rule kernel_inv_mem, use bt in \<open>simp add: booted_def\<close>)
  have sz: "load32 (mem s) (header + INITRD_HEADER_SIZE) = 28"
    using cpd(2) cp by (simp add: initrd_image_def length_demo_app)
  have "heap_ok demo_pf s" "loadable demo_pf (header + 12) (header + 76) 28 s"
    using demo_ramdisk [unfolded initrd_ready_def cp Let_def prod.case] sz
    by (simp_all add: INITRD_HEADER_SIZE_def INITRD_ENTRY_SIZE_def add.assoc)
  from load_gives_task [OF k this, of NULL] cp show ?thesis by auto
qed

text \<open>C32: An image that fails a header check is never loaded: with a zero in the uninitialised task variable the loader
  reports the check and returns its error, with any other value it stops at the missing release.\<close>

theorem bad_image_rejected:
  assumes "check_app_header (read_app_header (mem s) app) app_size = Some line"
  shows "loader_load_app pf junk name app app_size s =
    (if junk = NULL then Inr (ERROR_CHECK_FAILED, say (load_check_failed ERROR_CHECK_FAILED line) s)
     else Inl (Assert_failed ''TODO: release_task''))"
  by (rule load_rejected [OF assms])

theorem bad_image_rejected_witness:
  "\<exists>s'. loader_load_app demo_pf NULL 0x3FFE8010 0x3FFE8050 10 (demo_reset (\<lambda>_. 0)) = Inr (ERROR_CHECK_FAILED, s') \<and>
   loader_load_app demo_pf 0x1234 0x3FFE8010 0x3FFE8050 10 (demo_reset (\<lambda>_. 0)) = Inl (Assert_failed ''TODO: release_task'')"
proof -
  have "app_magic (read_app_header (\<lambda>_. 0) 0x3FFE8050) = 0"
    by (simp add: read_app_header_def load32_def load_bytes_def word_of_bytes_def)
  then have c: "check_app_header (read_app_header (mem (demo_reset (\<lambda>_. 0))) 0x3FFE8050) 10 = Some 17"
    by (simp add: check_app_header_def APP_HEADER_MAGIC_def demo_reset_def)
  show ?thesis
    using bad_image_rejected [OF c, of demo_pf NULL] bad_image_rejected [OF c, of demo_pf "0x1234"] by simp
qed

subsection \<open>User programs\<close>

text \<open>C17: The first application prints its greeting: with its buffer at the start of a mapped data page, the console
  gains one line with the task's name and Hello!.\<close>

theorem init_says_hello:
  assumes "sched_inv s xs" "tasks s (get_current_task s) = Some t" "regs_wf r"
    and "i < 15" "entry_type (entries (dmmu (task_mmu t)) i) = PAGE_MAPPED"
  shows "\<exists>r' m'. init_start pf (USER_DATA_BASE + of_nat (i * 8192)) (r, s) = Inr (r', s\<lparr>mem := m',
      console := console s @ ''[*] '' @ take 64 (c_string (ucontext t + UCONTEXT_NAME) (mem s)) @ '': Hello!'' @ CRLF\<rparr>)"
  by (rule init_start_ok [OF assms, of pf]) blast

theorem init_says_hello_witness:
  "\<exists>name r' s'. init_start demo_pf USER_DATA_BASE demo_run = Inr (r', s') \<and>
     console s' = console (snd demo_run) @ ''[*] '' @ take 64 name @ '': Hello!'' @ CRLF"
proof -
  obtain t where t: "tasks (snd demo_run) (get_current_task (snd demo_run)) = Some t"
    "entry_type (entries (dmmu (task_mmu t)) 0) = PAGE_MAPPED"
    by (rule demo_run_page)
  obtain xs where inv: "sched_inv (snd demo_run) xs" and wf: "regs_wf (fst demo_run)"
    using demo_run(1) by (auto simp: system_inv_def kernel_inv_def case_prod_beta)
  from init_says_hello [OF inv t(1) wf _ t(2), of demo_pf] show ?thesis by auto
qed

text \<open>C34: The log call ignores where in its page the string is: a pointer to any byte of a page prints what a pointer to
  the page's first byte prints.\<close>

theorem log_ignores_offset:
  assumes "tasks s (get_current_task s) = Some t" "regs_wf r" "i < 16" "d < 8192"
  shows "\<exists>r1 r2 s'. sys_log pf (USER_DATA_BASE + of_nat (i * 8192 + d)) n (r, s) = Inr (r1, s') \<and>
    sys_log pf (USER_DATA_BASE + of_nat (i * 8192)) n (r, s) = Inr (r2, s')"
proof -
  have 0: "unat (DATA_PAGE_INDEX (USER_DATA_BASE + of_nat (i * 8192))) < 16"
    and d: "unat (DATA_PAGE_INDEX (USER_DATA_BASE + of_nat (i * 8192 + d))) < 16"
    using data_virtual(1) [OF assms(3), of 0] data_virtual(1) [OF assms(3,4)] assms(3) by simp_all
  show ?thesis
    unfolding sys_log_ok [OF assms(1) 0 assms(2)] sys_log_ok [OF assms(1) d assms(2)] log_line_offset [OF assms(3,4)]
    by blast
qed

theorem log_ignores_offset_witness:
  "\<exists>r1 r2 s'. sys_log demo_pf 0x3FFC0010 4 demo_run = Inr (r1, s') \<and> sys_log demo_pf 0x3FFC0000 4 demo_run = Inr (r2, s')"
proof -
  obtain t where t: "tasks (snd demo_run) (get_current_task (snd demo_run)) = Some t" by (rule demo_run_page)
  have wf: "regs_wf (fst demo_run)" using demo_run(1) by (simp add: system_inv_def case_prod_beta)
  show ?thesis using log_ignores_offset [OF t wf, of 0 16 demo_pf 4] by (simp add: USER_DATA_BASE_def)
qed

text \<open>C33: A task whose entry function returns stops the kernel: the function every task starts in drops the task, and
  dropping a running task ends at the missing release.\<close>

theorem returning_task_stops:
  assumes "entry m = Inr (r, s)" "system_inv (r, s)"
  shows "trampoline pf entry m = Inl (Assert_failed ''TODO: release_task'')"
  by (rule trampoline_stops [where entry = entry and m = m, OF assms])

theorem returning_task_stops_witness: "trampoline demo_pf (\<lambda>m. Inr m) demo_two = Inl (Assert_failed ''TODO: release_task'')"
  by (rule returning_task_stops [of _ _ "fst demo_two" "snd demo_two"]) (use demo_two(1) in simp_all)

end
