(* ===== verification/Progress.thy ===== *)
theory Progress
  imports Exceptions User_Program
begin

section \<open>The handlers always finish, or stop in a known place\<close>

text \<open>
  In a state of the running system a trap handler returns, idles, or stops at the one assertion
  of the sources that a user program can reach. Only a log call with a pointer outside the sixteen
  data pages does something C leaves undefined.
\<close>

lemma schedule_progress:
  assumes "system_inv (r, s)" "regs_wf r'"
  shows "\<exists>m'. scheduler_on_schedule r' s = Inr m'"
proof -
  obtain xs where "kernel_inv s xs" and c: "get_current_task s \<noteq> NULL" using assms(1) by (auto simp: system_inv_def)
  then have "sched_inv s xs" by (simp add: kernel_inv_def)
  from on_schedule_ok [OF this refl c assms(2)] show ?thesis by metis
qed

lemma interrupt_progress:
  assumes "system_inv (r, s)"
  shows "\<exists>m'. common_interrupt_handler r (raise_wdt v s) = Inr m'"
proof -
  obtain h t where h: "wdt_handle (timg (raise_wdt v s)) = (h, t)" by fastforce
  let ?s1 = "(raise_wdt v s)\<lparr>timg := t\<rparr>"
  have "?s1 = s\<lparr>timg := t\<rparr>" by (simp add: raise_wdt_def)
  from raise_wdt_inv [OF assms this] have i1: "system_inv (r, ?s1)" by simp
  have "regs_wf r" using assms by (simp add: system_inv_def)
  then show ?thesis
    using schedule_progress [OF i1, of r] dport_log_interrupt_says [of ?s1] h
    by (cases h) (auto simp: common_interrupt_handler_def)
qed

text \<open>The outcomes of a system call, by its number.\<close>

definition syscall_outcome :: "u32 \<Rightarrow> u32 \<Rightarrow> machine run \<Rightarrow> bool" where
  "syscall_outcome n arg1 res \<longleftrightarrow>
     (if n = SYSCALL_SCHED_DROP then res = Inl (Assert_failed ''TODO: release_task'')
      else if n = SYSCALL_SCHED_PARK then res = Inl Spin \<or> (\<exists>m. res = Inr m)
      else if n = SYSCALL_LOG \<and> \<not> unat (DATA_PAGE_INDEX arg1) < 16 then res = Inl (Undefined ''entries index'')
      else (\<exists>m. res = Inr m))"

lemma syscall_progress:
  assumes inv: "system_inv (r, s)"
  shows "syscall_outcome (ar r ! 2) (ar r ! 6) (common_syscall_handler pf r s)"
proof -
  let ?r = "set_ret 0 r" and ?n = "ar r ! 2"
  obtain xs where ki: "kernel_inv s xs" and c: "get_current_task s \<noteq> NULL" and wf: "regs_wf r"
    and cb: "park_callback (get_cpu_context s) = NULL"
    using inv by (auto simp: system_inv_def)
  have si: "sched_inv s xs" using ki by (simp add: kernel_inv_def)
  obtain t where t: "tasks s (get_current_task s) = Some t" using si c by (auto simp: sched_inv_def)
  have wf': "regs_wf ?r" using wf by simp
  have a6: "ar ?r ! 6 = ar r ! 6" by (simp add: set_ret_def SYSCALL_RET_def)
  note ns = SYSCALL_SCHED_PARK_def SYSCALL_SCHED_YIELD_def SYSCALL_SCHED_DROP_def SYSCALL_LOG_def
  consider "?n = SYSCALL_SCHED_DROP" | "?n = SYSCALL_SCHED_PARK" | "?n = SYSCALL_SCHED_YIELD" | "?n = SYSCALL_LOG"
    | "?n \<notin> {SYSCALL_SCHED_DROP, SYSCALL_SCHED_PARK, SYSCALL_SCHED_YIELD, SYSCALL_LOG}" by blast
  then show ?thesis
  proof cases
    case 1
    then show ?thesis
      using drop_stops [OF inv, of ?r] by (simp add: syscall_outcome_def common_syscall_handler_def SYSCALL_NUM_def Let_def ns)
  next
    case 2
    have "scheduler_on_park pf ?r s = Inl Spin \<or> (\<exists>m. scheduler_on_park pf ?r s = Inr m)"
    proof (cases xs)
      case Nil
      then show ?thesis using on_park_last [OF _ refl c wf' cb] si by simp
    next
      case (Cons x ys)
      then show ?thesis using on_park_ok [OF _ refl c wf' cb, of x ys pf] si by metis
    qed
    then show ?thesis
      using 2 by (simp add: syscall_outcome_def common_syscall_handler_def SYSCALL_NUM_def Let_def ns)
  next
    case 3
    then show ?thesis
      using schedule_progress [OF inv wf'] by (simp add: syscall_outcome_def common_syscall_handler_def SYSCALL_NUM_def Let_def ns)
  next
    case 4
    show ?thesis
    proof (cases "unat (DATA_PAGE_INDEX (ar r ! 6)) < 16")
      case True
      then show ?thesis
        using 4 log_syscall_ok [OF t, of ?r] a6
        by (simp add: syscall_outcome_def common_syscall_handler_def SYSCALL_NUM_def Let_def ns)
    next
      case False
      then have "log_syscall ?r s = Inl (Undefined ''entries index'')"
        using t a6 by (simp add: log_syscall_def get_user_ptr_def SYSCALL_ARG1_def MAX_PAGE_COUNT_def Let_def)
      then show ?thesis
        using 4 False by (simp add: syscall_outcome_def common_syscall_handler_def SYSCALL_NUM_def Let_def ns)
    qed
  next
    case 5
    then show ?thesis
      using unknown_syscall_says [of ?r s] by (auto simp: syscall_outcome_def common_syscall_handler_def SYSCALL_NUM_def Let_def)
  qed
qed

end
