(* ===== verification/Xtensa.thy ===== *)
theory Xtensa
  imports Memory
begin

section \<open>The processor's register windows\<close>

text \<open>
  As much of the Xtensa instruction set as the assembly files use. Sixty-four physical
  registers hold sixteen frames of four; an instruction sees the sixteen registers from frame
  \<^verbatim>\<open>WINDOWBASE\<close> on, and \<^verbatim>\<open>rotw\<close> moves the base. \<^verbatim>\<open>WINDOWSTART\<close> has a bit for every
  frame that a call in progress owns. In exception mode nothing checks these bits.
\<close>

datatype sr = Lbeg | Lend | Lcount | Sar | Windowbase | Windowstart | Ps | Epc1 | Depc | Excsave1 |
  Exccause | Prid | Vecbase

record xtensa =
  areg :: "nat \<Rightarrow> u32"
  sreg :: "sr \<Rightarrow> u32"
  xmem :: memory

definition wbase :: "xtensa \<Rightarrow> nat" where
  "wbase x = unat (sreg x Windowbase) mod 16"

text \<open>Register \<open>k\<close> counted from frame \<open>b\<close>, round the file; and as an instruction sees it.\<close>

definition view :: "nat \<Rightarrow> xtensa \<Rightarrow> nat \<Rightarrow> u32" where
  "view b x k = areg x ((4 * b + k) mod 64)"

definition reg :: "nat \<Rightarrow> xtensa \<Rightarrow> u32" where
  "reg i x = view (wbase x) x i"

definition set_reg :: "nat \<Rightarrow> u32 \<Rightarrow> xtensa \<Rightarrow> xtensa" where
  "set_reg i v x = x\<lparr>areg := (areg x)((4 * wbase x + i) mod 64 := v)\<rparr>"

text \<open>Some special registers have fewer than 32 bits.\<close>

definition sr_mask :: "sr \<Rightarrow> u32" where
  "sr_mask r = (case r of Windowbase \<Rightarrow> 0xF | Windowstart \<Rightarrow> 0xFFFF | Sar \<Rightarrow> 0x3F | Exccause \<Rightarrow> 0x3F | _ \<Rightarrow> - 1)"

definition set_sreg :: "sr \<Rightarrow> u32 \<Rightarrow> xtensa \<Rightarrow> xtensa" where
  "set_sreg r v x = x\<lparr>sreg := (sreg x)(r := v AND sr_mask r)\<rparr>"

definition store16 :: "u32 \<Rightarrow> u32 \<Rightarrow> memory \<Rightarrow> memory" where
  "store16 a v m = store_bytes a [ucast v, ucast (drop_bit 8 v)] m"

definition load16 :: "memory \<Rightarrow> u32 \<Rightarrow> u32" where
  "load16 m a = ucast (m a) OR push_bit 8 (ucast (m (a + 1)))"

text \<open>Normalisation shift: the number of leading zeros.\<close>

definition nsau :: "u32 \<Rightarrow> u32" where
  "nsau w = of_nat (length (takeWhile (\<lambda>i. \<not> bit w i) (rev [0..<32])))"

subsection \<open>Instructions\<close>

text \<open>The operands are in the order of the assembly: destination first, except for stores.\<close>

datatype instr =
    RSR sr nat | WSR sr nat
  | S32I nat nat u32 | L32I nat nat u32 | S16I nat nat u32 | L16UI nat nat u32
  | MOV nat nat | MOVI nat u32 | ADD nat nat nat | ADDI nat nat u32 | ADDX4 nat nat nat
  | SUB nat nat nat | NEG nat nat | ANDR nat nat nat | NSAU nat nat | EXTUI nat nat nat nat
  | SLLI nat nat nat | SRLI nat nat nat | SRC nat nat nat | SSR nat | SSL nat | SLL nat nat
  | ROTW nat | RSYNC

text \<open>\<open>ROTW n\<close> is \<^verbatim>\<open>rotw n - 16\<close> for \<open>n\<close> from 8: the base counts modulo 16.\<close>

fun exec :: "instr \<Rightarrow> xtensa \<Rightarrow> xtensa" where
  "exec (RSR r t) x = set_reg t (sreg x r) x"
| "exec (WSR r t) x = set_sreg r (reg t x) x"
| "exec (S32I t s off) x = x\<lparr>xmem := store32 (reg s x + off) (reg t x) (xmem x)\<rparr>"
| "exec (L32I t s off) x = set_reg t (load32 (xmem x) (reg s x + off)) x"
| "exec (S16I t s off) x = x\<lparr>xmem := store16 (reg s x + off) (reg t x) (xmem x)\<rparr>"
| "exec (L16UI t s off) x = set_reg t (load16 (xmem x) (reg s x + off)) x"
| "exec (MOV r s) x = set_reg r (reg s x) x"
| "exec (MOVI t imm) x = set_reg t imm x"
| "exec (ADD r s t) x = set_reg r (reg s x + reg t x) x"
| "exec (ADDI t s imm) x = set_reg t (reg s x + imm) x"
| "exec (ADDX4 r s t) x = set_reg r (4 * reg s x + reg t x) x"
| "exec (SUB r s t) x = set_reg r (reg s x - reg t x) x"
| "exec (NEG r t) x = set_reg r (- reg t x) x"
| "exec (ANDR r s t) x = set_reg r (reg s x AND reg t x) x"
| "exec (NSAU t s) x = set_reg t (nsau (reg s x)) x"
| "exec (EXTUI r t sh w) x = set_reg r (take_bit w (drop_bit sh (reg t x))) x"
| "exec (SLLI r s sh) x = set_reg r (push_bit sh (reg s x)) x"
| "exec (SRLI r t sh) x = set_reg r (drop_bit sh (reg t x)) x"
| "exec (SRC r s t) x = set_reg r
     (ucast (drop_bit (unat (sreg x Sar)) (push_bit 32 (ucast (reg s x)) OR ucast (reg t x) :: u64))) x"
| "exec (SSR s) x = set_sreg Sar (take_bit 5 (reg s x)) x"
| "exec (SSL s) x = set_sreg Sar (32 - take_bit 5 (reg s x)) x"
| "exec (SLL r s) x = set_reg r (push_bit (32 - unat (sreg x Sar)) (reg s x)) x"
| "exec (ROTW n) x = set_sreg Windowbase (sreg x Windowbase + of_nat n) x"
| "exec RSYNC x = x"

definition exec_block :: "instr list \<Rightarrow> xtensa \<Rightarrow> xtensa" where
  "exec_block is x = fold exec is x"

lemma block_simps [simp]: "exec_block [] x = x" "exec_block (i # is) x = exec_block is (exec i x)"
  by (simp_all add: exec_block_def)

lemma block_append [simp]: "exec_block (is @ js) x = exec_block js (exec_block is x)"
  by (simp add: exec_block_def)

subsection \<open>Reading registers after writes\<close>

lemma index_eq: "i < 64 \<Longrightarrow> k < 64 \<Longrightarrow> (b + k) mod 64 = (b + i) mod 64 \<longleftrightarrow> k = i" for b i k :: nat
proof -
  assume ik: "i < 64" "k < 64"
  have "(b + j) mod 64 = (if b mod 64 + j < 64 then b mod 64 + j else b mod 64 + j - 64)" if "j < 64" for j
  proof -
    have "(b + j) mod 64 = (b mod 64 + j) mod 64" by (simp add: mod_add_left_eq)
    moreover have "b mod 64 + j - 64 < 64" using that mod_less_divisor [of 64 b] by linarith
    ultimately show ?thesis by (simp add: le_mod_geq)
  qed
  from this [OF ik(1)] this [OF ik(2)] show "(b + k) mod 64 = (b + i) mod 64 \<longleftrightarrow> k = i"
    using ik mod_less_divisor [of 64 b] by (simp split: if_splits) linarith+
qed

lemma wbase_less [simp]: "wbase x < 16"
  by (simp add: wbase_def)

lemma set_reg_fields [simp]:
  "sreg (set_reg i v x) = sreg x" "xmem (set_reg i v x) = xmem x" "wbase (set_reg i v x) = wbase x"
  by (simp_all add: set_reg_def wbase_def)

lemma set_sreg_fields [simp]:
  "areg (set_sreg r v x) = areg x" "xmem (set_sreg r v x) = xmem x" "view b (set_sreg r v x) = view b x"
  "sreg (set_sreg r v x) q = (if q = r then v AND sr_mask r else sreg x q)"
  by (simp_all add: set_sreg_def view_def fun_eq_iff)

lemma wbase_set_sreg [simp]: "r \<noteq> Windowbase \<Longrightarrow> wbase (set_sreg r v x) = wbase x"
  by (simp add: wbase_def)

lemma reg_set_sreg [simp]: "r \<noteq> Windowbase \<Longrightarrow> reg i (set_sreg r v x) = reg i x"
  by (simp add: reg_def)

lemma mem_fields [simp]:
  "wbase (x\<lparr>xmem := m\<rparr>) = wbase x" "view b (x\<lparr>xmem := m\<rparr>) = view b x" "reg i (x\<lparr>xmem := m\<rparr>) = reg i x"
  by (simp_all add: wbase_def view_def reg_def fun_eq_iff)

lemma view_set_reg [simp]:
  "wbase x = b \<Longrightarrow> i < 64 \<Longrightarrow> k < 64 \<Longrightarrow> view b (set_reg i v x) k = (if k = i then v else view b x k)"
  by (auto simp: view_def set_reg_def index_eq)

lemma reg_set_reg [simp]:
  "i < 64 \<Longrightarrow> k < 64 \<Longrightarrow> reg k (set_reg i v x) = (if k = i then v else reg k x)"
  by (simp add: reg_def)

lemma view_mod: "view b x (k mod 64) = view b x k" "view (b mod 16) x k = view b x k"
proof -
  show "view b x (k mod 64) = view b x k" by (simp add: view_def mod_add_right_eq)
  have "4 * (b mod 16) = (4 * b) mod 64" by (simp add: mult_mod_right)
  then show "view (b mod 16) x k = view b x k" by (simp add: view_def mod_add_left_eq)
qed

lemma view_shift: "view (b + n) x k = view b x (4 * n + k)"
  by (simp add: view_def algebra_simps)

text \<open>After rotating back by one frame.\<close>

lemma wbase_set_base [simp]: "wbase (set_sreg Windowbase v x) = unat v mod 16"
proof -
  have "v AND 0xF = take_bit 4 v" by (simp add: take_bit_eq_mask mask_eq_exp_minus_1)
  then show ?thesis by (simp add: wbase_def sr_mask_def take_bit_eq_mod unat_mod)
qed

lemma wbase_rotw [simp]: "wbase (exec (ROTW n) x) = (wbase x + n) mod 16"
proof -
  have d: "(16 :: nat) dvd 2 ^ 32" by simp
  have "unat (sreg x Windowbase + of_nat n) mod 16 = (unat (sreg x Windowbase) + n) mod 16"
    by (simp add: unat_word_ariths unat_of_nat mod_mod_cancel mod_add_right_eq)
  then show ?thesis by (simp add: wbase_def [of x] mod_add_left_eq)
qed

lemma rotw_back_view: "view (wbase (exec (ROTW 15) x)) y k = view (wbase x) y (k + 60)"
  unfolding wbase_rotw view_mod(2) view_shift by (simp add: add.commute)

lemma rotw_fields [simp]:
  "xmem (exec (ROTW n) x) = xmem x" "areg (exec (ROTW n) x) = areg x" "view b (exec (ROTW n) x) = view b x"
  "r \<noteq> Windowbase \<Longrightarrow> sreg (exec (ROTW n) x) r = sreg x r"
  by simp_all

lemma reg_rotw_back [simp]: "reg i (exec (ROTW 15) x) = view (wbase x) x ((i + 60) mod 64)"
  unfolding reg_def rotw_back_view view_mod(1) by simp

declare exec.simps(23) [simp del]

text \<open>A register written in another frame, as the frame at \<open>b\<close> sees it.\<close>

lemma view_set_frame:
  assumes "i < 64" "k < 64" "wbase x = (b + f) mod 16"
  shows "view b (set_reg i v x) k = (if k = (4 * f + i) mod 64 then v else view b x k)"
proof -
  have "4 * ((b + f) mod 16) = (4 * b + 4 * f) mod 64" by (simp add: mult_mod_right)
  then have "(4 * wbase x + i) mod 64 = (4 * b + (4 * f + i) mod 64) mod 64"
    by (simp add: assms(3) mod_add_left_eq mod_add_right_eq add.assoc)
  moreover have "(4 * b + k) mod 64 = (4 * b + (4 * f + i) mod 64) mod 64 \<longleftrightarrow> k = (4 * f + i) mod 64"
    by (rule index_eq) (simp_all add: assms)
  ultimately show ?thesis by (simp add: view_def set_reg_def)
qed

lemma view_set_rotated [simp]:
  "i < 64 \<Longrightarrow> k < 64 \<Longrightarrow> wbase x = (b + 15) mod 16 \<Longrightarrow>
   view b (set_reg i v x) k = (if k = (i + 60) mod 64 then v else view b x k)"
  by (simp add: view_set_frame add.commute)

subsection \<open>Words of a frame in memory\<close>

lemma load_store_offset:
  assumes "c = d \<or> 4 \<le> unat (d - c) \<and> 4 \<le> unat (c - d)"
  shows "load32 (store32 (a + c) v m) (a + d) = (if c = d then v else load32 m (a + d))"
proof (cases "c = d")
  case False
  have "load32 (store32 (a + c) v m) (a + d) = load32 m (a + d)"
  proof (rule load32_cong)
    fix y assume "y \<in> region (a + d) 4"
    then obtain j where j: "j < 4" "y = a + d + of_nat j"
      by (intro that [of "unat (y - (a + d))"]) (simp_all add: region_def)
    have "\<not> unat (y - (a + c)) < 4"
    proof
      assume "unat (y - (a + c)) < 4"
      then have lt: "unat (d - c + of_nat j) < 4" by (simp add: j algebra_simps)
      let ?i = "unat (d - c + of_nat j)"
      have e: "d - c = of_nat ?i - of_nat j" by simp
      show False
      proof (cases "j \<le> ?i")
        case True
        then have "d - c = of_nat (?i - j)" using e by (simp add: of_nat_diff)
        then have "unat (d - c) = unat (of_nat (?i - j) :: u32)" by simp
        also have "\<dots> = ?i - j" by (rule unat_of_nat_small) (use lt in linarith)
        finally show False using lt assms False by linarith
      next
        case gt: False
        then have "c - d = of_nat (j - ?i)" using e by (simp add: of_nat_diff algebra_simps)
        then have "unat (c - d) = unat (of_nat (j - ?i) :: u32)" by simp
        also have "\<dots> = j - ?i" by (rule unat_of_nat_small) (use j(1) in linarith)
        finally show False using j(1) assms False by linarith
      qed
    qed
    then show "store32 (a + c) v m y = m y" by (intro store32_other) (simp add: region_def)
  qed
  then show ?thesis using False by simp
qed (simp add: load_store32)

text \<open>Word \<open>j\<close> of the frame at \<open>a\<close>. A store inside the frame replaces one word.\<close>

definition fw :: "u32 \<Rightarrow> memory \<Rightarrow> nat \<Rightarrow> u32" where
  "fw a m j = load32 m (a + of_nat (4 * j))"

lemma fw_store:
  assumes "i < 1024" "j < 1024"
  shows "fw a (store32 (a + of_nat (4 * i)) v m) j = (if j = i then v else fw a m j)"
proof -
  have d: "4 \<le> unat (of_nat (4 * i) - of_nat (4 * j) :: u32)" if "i < 1024" "j < 1024" "i \<noteq> j" for i j
  proof (cases "j < i")
    case True
    then have "(of_nat (4 * i) - of_nat (4 * j) :: u32) = of_nat (4 * (i - j))" by (simp add: of_nat_diff algebra_simps)
    moreover have "unat (of_nat (4 * (i - j)) :: u32) = 4 * (i - j)" by (rule unat_of_nat_small) (use that in simp)
    ultimately show ?thesis using True by simp
  next
    case False
    then have e: "(of_nat (4 * i) - of_nat (4 * j) :: u32) = - of_nat (4 * (j - i))" by (simp add: of_nat_diff algebra_simps)
    have "unat (- of_nat (4 * (j - i)) :: u32) = 4294967296 - 4 * (j - i)"
    proof -
      have "- of_nat (4 * (j - i)) = (of_nat (4294967296 - 4 * (j - i)) :: u32)" using that by (simp add: of_nat_diff)
      moreover have "unat (of_nat (4294967296 - 4 * (j - i)) :: u32) = 4294967296 - 4 * (j - i)"
        by (rule unat_of_nat_small) (use that False in simp)
      ultimately show ?thesis by simp
    qed
    then show ?thesis unfolding e using that by linarith
  qed
  have "(of_nat (4 * i) :: u32) = of_nat (4 * j) \<longleftrightarrow> i = j"
  proof
    assume "(of_nat (4 * i) :: u32) = of_nat (4 * j)"
    then have "unat (of_nat (4 * i) :: u32) = unat (of_nat (4 * j) :: u32)" by simp
    then have "4 * i = 4 * j" using assms by (simp only: unat_of_nat_small)
    then show "i = j" by simp
  qed simp
  then show ?thesis
    unfolding fw_def using assms d [of i j] d [of j i] by (subst load_store_offset) auto
qed

lemma fw_store_at [simp]:
  assumes "unat c mod 4 = 0" "unat c < 4096" "j < 1024"
  shows "fw a (store32 (a + c) v m) j = (if j = unat c div 4 then v else fw a m j)"
proof -
  have "4 * (unat c div 4) = unat c" using assms(1) by presburger
  then have c: "of_nat (4 * (unat c div 4)) = c" by (simp only:) simp
  show ?thesis using fw_store [of "unat c div 4" j a v m] assms(2,3) unfolding c by simp
qed

lemma fw_store_0 [simp]: "j < 1024 \<Longrightarrow> fw a (store32 a v m) j = (if j = 0 then v else fw a m j)"
  using fw_store_at [of 0 j a v m] by simp

lemma fw_at: "load32 m a = fw a m 0"
  by (simp add: fw_def)

lemma load32_fw:
  assumes "unat c mod 4 = 0"
  shows "load32 m (a + c) = fw a m (unat c div 4)"
proof -
  have "4 * (unat c div 4) = unat c" using assms by presburger
  then have "of_nat (4 * (unat c div 4)) = c" by (simp only:) simp
  then show ?thesis unfolding fw_def by simp
qed

text \<open>Bytes away from the stored word or half word stay.\<close>

lemma store32_off:
  assumes "unat (y - a) < unat c \<or> unat c + 4 \<le> unat (y - a)" "unat c < 4096"
  shows "store32 (a + c) v m y = m y"
proof (rule store32_other)
  show "y \<notin> region (a + c) 4"
  proof
    assume "y \<in> region (a + c) 4"
    then obtain j where j: "j < 4" "y = a + c + of_nat j"
      by (intro that [of "unat (y - (a + c))"]) (simp_all add: region_def)
    have "y - a = of_nat (unat c + j)" by (simp add: j)
    moreover have "unat (of_nat (unat c + j) :: u32) = unat c + j" by (rule unat_of_nat_small) (use assms(2) j in linarith)
    ultimately show False using assms(1) j(1) by (simp del: of_nat_add)
  qed
qed

lemma store16_off:
  assumes "unat (y - a) < unat c \<or> unat c + 2 \<le> unat (y - a)" "unat c < 4096"
  shows "store16 (a + c) v m y = m y"
proof -
  have "y \<notin> region (a + c) 2"
  proof
    assume "y \<in> region (a + c) 2"
    then obtain j where j: "j < 2" "y = a + c + of_nat j"
      by (intro that [of "unat (y - (a + c))"]) (simp_all add: region_def)
    have "y - a = of_nat (unat c + j)" by (simp add: j)
    moreover have "unat (of_nat (unat c + j) :: u32) = unat c + j" by (rule unat_of_nat_small) (use assms(2) j in linarith)
    ultimately show False using assms(1) j(1) by (simp del: of_nat_add)
  qed
  then show ?thesis unfolding store16_def by (intro store_bytes_other) (simp_all add: numeral_2_eq_2)
qed

lemma unat_plus_small: "n < 8 \<Longrightarrow> unat c < 4096 \<Longrightarrow> unat (c + of_nat n) = unat c + n" for c :: u32
proof -
  assume n: "n < 8" and c: "unat c < 4096"
  have "unat (of_nat (unat c + n) :: u32) = unat c + n" by (rule unat_of_nat_small) (use n c in linarith)
  then show ?thesis by simp
qed

lemma load16_cong: "m (a + d) = m' (a + d) \<Longrightarrow> m (a + d + 1) = m' (a + d + 1) \<Longrightarrow> load16 m (a + d) = load16 m' (a + d)"
  by (simp add: load16_def)

lemma load16_store32:
  assumes "unat d + 2 \<le> unat c \<or> unat c + 4 \<le> unat d" "unat c < 4096" "unat d < 4096"
  shows "load16 (store32 (a + c) v m) (a + d) = load16 m (a + d)"
  using assms unat_plus_small [of 1 d] by (intro load16_cong store32_off) (auto simp: algebra_simps)

lemma load16_store16:
  assumes "unat d + 2 \<le> unat c \<or> unat c + 2 \<le> unat d" "unat c < 4096" "unat d < 4096"
  shows "load16 (store16 (a + c) v m) (a + d) = load16 m (a + d)"
  using assms unat_plus_small [of 1 d] by (intro load16_cong store16_off) (auto simp: algebra_simps)

lemma load16_same: "load16 (store16 a v m) a = take_bit 16 v"
proof -
  have "store16 a v m a = ucast v" "store16 a v m (a + 1) = ucast (drop_bit 8 v)"
    by (simp_all add: store16_def store_bytes_at)
  then show ?thesis unfolding load16_def
    by (intro bit_word_eqI) (auto simp: bit_simps)
qed

lemma fw_store16:
  assumes "4 * j + 4 \<le> unat c \<or> unat c + 2 \<le> 4 * j" "unat c < 4096" "j < 1023"
  shows "fw a (store16 (a + c) v m) j = fw a m j"
  unfolding fw_def
proof (rule load32_cong)
  fix y assume "y \<in> region (a + of_nat (4 * j)) 4"
  then obtain i where i: "i < 4" "y = a + of_nat (4 * j) + of_nat i"
    by (intro that [of "unat (y - (a + of_nat (4 * j)))"]) (simp_all add: region_def)
  have "y - a = of_nat (4 * j + i)" by (simp add: i)
  moreover have "unat (of_nat (4 * j + i) :: u32) = 4 * j + i" by (rule unat_of_nat_small) (use assms(3) i in linarith)
  ultimately have "unat (y - a) = 4 * j + i" by (simp del: of_nat_add)
  then show "store16 (a + c) v m y = m y" using assms i(1) by (intro store16_off) auto
qed

end
