(* ===== verification/Trap_Entry.thy ===== *)
theory Trap_Entry
  imports Xtensa Exceptions
begin

section \<open>Trap entry and exit\<close>

text \<open>
  \<^verbatim>\<open>vdso/vectors.S\<close> and \<^verbatim>\<open>arch/interrupts.S\<close>. A straight run of instructions is a list, in the
  order of the file; a label that is branched to is a function, and the loops are recursive.
  The frame in which the registers are saved is a \<^verbatim>\<open>task_regs_t\<close> on the kernel stack, at
  the address in \<^verbatim>\<open>a1\<close>.
\<close>

subsection \<open>Layout of the frame\<close>

text \<open>\<^verbatim>\<open>task/task_regs.h\<close>\<close>

definition TASK_REGS_AR :: "nat \<Rightarrow> u32" where "TASK_REGS_AR k = of_nat (k * 4)"
definition TASK_REGS_AR_END :: u32 where "TASK_REGS_AR_END = 256"
definition TASK_REGS_LBEG :: u32 where "TASK_REGS_LBEG = 260"
definition TASK_REGS_LEND :: u32 where "TASK_REGS_LEND = 264"
definition TASK_REGS_LCOUNT :: u32 where "TASK_REGS_LCOUNT = 268"
definition TASK_REGS_WINDOWBASE :: u32 where "TASK_REGS_WINDOWBASE = 280"
definition TASK_REGS_WINDOWSTART :: u32 where "TASK_REGS_WINDOWSTART = 284"
definition TASK_REGS_WINDOWSIZE :: u32 where "TASK_REGS_WINDOWSIZE = 290"

lemmas frame_offsets = TASK_REGS_AR_def TASK_REGS_AR_END_def TASK_REGS_SAR_def TASK_REGS_LBEG_def TASK_REGS_LEND_def
  TASK_REGS_LCOUNT_def TASK_REGS_PC_def TASK_REGS_PS_def TASK_REGS_WINDOWBASE_def TASK_REGS_WINDOWSTART_def
  TASK_REGS_WINDOWMASK_def TASK_REGS_WINDOWSIZE_def

definition store_ar :: "nat list \<Rightarrow> instr list" where
  "store_ar ks = map (\<lambda>k. S32I k 1 (TASK_REGS_AR k)) ks"

definition load_ar :: "nat list \<Rightarrow> instr list" where
  "load_ar ks = map (\<lambda>k. L32I k 1 (TASK_REGS_AR k)) ks"

subsection \<open>Saving\<close>

text \<open>Up to the first branch: the special registers, and \<^verbatim>\<open>windowstart\<close> rotated by \<^verbatim>\<open>windowbase\<close>.\<close>

definition save_special :: "instr list" where
  "save_special =
    [RSR Epc1 2, S32I 2 1 TASK_REGS_PC,
     RSR Ps 2, S32I 2 1 TASK_REGS_PS,
     RSR Sar 2, S32I 2 1 TASK_REGS_SAR,
     RSR Lbeg 2, S32I 2 1 TASK_REGS_LBEG,
     RSR Lend 2, S32I 2 1 TASK_REGS_LEND,
     RSR Lcount 2, S32I 2 1 TASK_REGS_LCOUNT,
     RSR Windowbase 2, RSR Windowstart 3, S32I 2 1 TASK_REGS_WINDOWBASE, S32I 3 1 TASK_REGS_WINDOWSTART]"

definition rotate_windowstart :: "instr list" where
  "rotate_windowstart =
    [WSR Excsave1 3, SSR 2, SLLI 2 3 (32 - 16), SRC 2 3 2, SRLI 2 2 (32 - 16), S16I 2 1 TASK_REGS_WINDOWMASK]"

definition count_frames :: "instr list" where
  "count_frames = [ADDI 3 2 (- 1), NEG 3 3, ANDR 3 3 2, NSAU 2 3, ADDI 2 2 (- 15), S16I 2 1 TASK_REGS_WINDOWSIZE]"

definition spill_body :: "instr list" where
  "spill_body =
    [ROTW 15, S32I 0 5 (TASK_REGS_AR_END - 16), S32I 1 5 (TASK_REGS_AR_END - 12), S32I 2 5 (TASK_REGS_AR_END - 8),
     S32I 3 5 (TASK_REGS_AR_END - 4), ADDI 2 6 (- 1), ADDI 1 5 (- 16)]"

partial_function (option) spill_loop :: "xtensa \<Rightarrow> xtensa option" where
  "spill_loop x = (let x1 = exec_block spill_body x in if reg 2 x1 \<noteq> 0 then spill_loop x1 else Some x1)"

definition restore_base :: "instr list" where
  "restore_base = [RSR Sar 2, MOVI 3 1, SSL 2, SLL 3 3, WSR Windowstart 3, WSR Windowbase 2, RSYNC]"

definition full_spill :: "xtensa \<Rightarrow> xtensa option" where
  "full_spill x = map_option (exec_block restore_base) (spill_loop (exec_block count_frames x))"

definition save_full_interrupt_context :: "xtensa \<Rightarrow> xtensa option" where
  "save_full_interrupt_context x =
     (let x1 = exec_block (save_special @ rotate_windowstart) x in
      if bit (reg 2 x1) 1 then full_spill x1
      else let x2 = exec_block (store_ar [4, 5, 6, 7]) x1 in
      if bit (reg 2 x2) 2 then full_spill x2
      else let x3 = exec_block (store_ar [8, 9, 10, 11]) x2 in
      if bit (reg 2 x3) 3 then full_spill x3
      else let x4 = exec_block (store_ar [12, 13, 14, 15]) x3 in
      if reg 2 x4 \<noteq> 1 then full_spill x4
      else Some x4)"

subsection \<open>Restoring\<close>

definition switch_window :: "instr list" where
  "switch_window =
    [WSR Excsave1 1, WSR Epc1 0,
     L32I 2 1 TASK_REGS_WINDOWBASE, L32I 3 1 TASK_REGS_WINDOWSTART, WSR Windowstart 3, WSR Windowbase 2, RSYNC,
     RSR Excsave1 1, RSR Epc1 0, WSR Excsave1 2,
     L16UI 2 1 TASK_REGS_WINDOWSIZE, ROTW 15]"

definition restore_body :: "instr list" where
  "restore_body =
    [ROTW 15, ADDI 3 7 (- 16), ADDI 2 6 (- 1),
     L32I 4 3 TASK_REGS_AR_END, L32I 5 3 (TASK_REGS_AR_END + 4), L32I 6 3 (TASK_REGS_AR_END + 8),
     L32I 7 3 (TASK_REGS_AR_END + 12)]"

partial_function (option) restore_loop :: "xtensa \<Rightarrow> xtensa option" where
  "restore_loop x = (let x1 = exec_block restore_body x in if reg 2 x1 \<noteq> 0 then restore_loop x1 else Some x1)"

definition zero_body :: "instr list" where
  "zero_body = [ROTW 15, ADDI 3 7 (- 1), MOVI 4 0, MOVI 5 0, MOVI 6 0, MOVI 7 0]"

partial_function (option) zero_loop :: "xtensa \<Rightarrow> xtensa option" where
  "zero_loop x = (let x1 = exec_block zero_body x in if sint (reg 3 x1) \<ge> 1 then zero_loop x1 else Some x1)"

definition clear_rest :: "xtensa \<Rightarrow> xtensa option" where
  "clear_rest x =
     (let x1 = exec_block [RSR Windowbase 0, RSR Excsave1 3, SUB 3 0 3] x in
      if reg 3 x1 = 0 then Some x1 else zero_loop (exec (EXTUI 3 3 0 4) x1))"

definition restore_special :: "instr list" where
  "restore_special =
    [L32I 2 1 TASK_REGS_PC, WSR Epc1 2, L32I 2 1 TASK_REGS_PS, WSR Ps 2,
     L32I 2 1 TASK_REGS_SAR, WSR Sar 2,
     L32I 2 1 TASK_REGS_LBEG, WSR Lbeg 2, L32I 2 1 TASK_REGS_LEND, WSR Lend 2,
     L32I 2 1 TASK_REGS_LCOUNT, WSR Lcount 2,
     L16UI 2 1 TASK_REGS_WINDOWMASK]"

definition restore_window :: "xtensa \<Rightarrow> xtensa" where
  "restore_window x =
     (let x1 = exec_block restore_special x in
      if bit (reg 2 x1) 1 then x1
      else let x2 = exec_block (load_ar [4, 5, 6, 7]) x1 in
      if bit (reg 2 x2) 2 then x2
      else let x3 = exec_block (load_ar [8, 9, 10, 11]) x2 in
      if bit (reg 2 x3) 3 then x3
      else exec_block (load_ar [12, 13, 14, 15]) x3)"

definition restore_full_interrupt_context :: "xtensa \<Rightarrow> xtensa option" where
  "restore_full_interrupt_context x =
     (let x1 = exec_block switch_window x in
      map_option restore_window
        (if reg 6 x1 = 0 then clear_rest x1
         else Option.bind (restore_loop (exec_block [MOV 2 6, MOV 3 5] x1)) clear_rest))"

subsection \<open>The entry points\<close>

text \<open>
  \<^verbatim>\<open>call0\<close> leaves the return address in \<^verbatim>\<open>a0\<close> and \<^verbatim>\<open>ret\<close> jumps there: if the routine changed
  it, execution goes astray.
\<close>

definition call0 :: "u32 \<Rightarrow> (xtensa \<Rightarrow> xtensa option) \<Rightarrow> xtensa \<Rightarrow> xtensa run" where
  "call0 ra f x = (case f (set_reg 0 ra x) of
     None \<Rightarrow> Inl Spin
   | Some x1 \<Rightarrow> if reg 0 x1 = ra then Inr x1 else Inl (Undefined ''ret''))"

definition enable_kernel_exceptions :: "instr list" where
  "enable_kernel_exceptions = [MOVI 2 (push_bit 18 1 OR 0xF), WSR Ps 2, RSYNC]"

definition disable_kernel_exceptions :: "instr list" where
  "disable_kernel_exceptions = [MOVI 2 (push_bit 4 1 OR 0xF), WSR Ps 2, RSYNC]"

text \<open>
  \<^verbatim>\<open>user_exception\<close> to its jump. \<^verbatim>\<open>g_kernel_stacks\<close> and \<^verbatim>\<open>g_fast_interrupts\<close> are addresses of
  arrays the linker places.
\<close>

record trap_symbols =
  g_kernel_stacks :: u32
  fast_interrupts :: u32
  PIDCTRL_PID_CONFIRM :: u32
  return_address :: "nat \<Rightarrow> u32"

definition user_exception :: "trap_symbols \<Rightarrow> instr list" where
  "user_exception ld =
    [WSR Excsave1 1, WSR Depc 0,
     RSR Prid 1, EXTUI 1 1 13 1, MOVI 0 (g_kernel_stacks ld), ADDX4 1 1 0, L32I 1 1 0,
     ADDI 1 1 (- of_nat TASK_REGS_SIZE),
     RSR Depc 0, S32I 0 1 (TASK_REGS_AR 0), RSR Excsave1 0, S32I 0 1 (TASK_REGS_AR 1),
     S32I 2 1 (TASK_REGS_AR 2), S32I 3 1 (TASK_REGS_AR 3),
     RSR Exccause 0, MOVI 2 (fast_interrupts ld), ADDX4 0 0 2, L32I 0 0 0]"

text \<open>The instructions before \<^verbatim>\<open>rfe\<close>.\<close>

definition return_from_trap :: "trap_symbols \<Rightarrow> instr list" where
  "return_from_trap ld =
    [MOVI 0 (PIDCTRL_PID_CONFIRM ld), MOVI 2 1, S32I 2 0 0,
     L32I 0 1 (TASK_REGS_AR 0), L32I 2 1 (TASK_REGS_AR 2), L32I 3 1 (TASK_REGS_AR 3), L32I 1 1 (TASK_REGS_AR 1)]"

text \<open>
  The common body of the three entries, whose handlers are C functions called with the frame's
  address: \<open>handler\<close> is the processor's state after such a call.
\<close>

definition trap_body :: "trap_symbols \<Rightarrow> (xtensa \<Rightarrow> xtensa run) \<Rightarrow> xtensa \<Rightarrow> xtensa run" where
  "trap_body ld handler x =
     andthen (call0 (return_address ld 0) save_full_interrupt_context x) (\<lambda>x1.
     andthen (call0 (return_address ld 1) (Some \<circ> exec_block enable_kernel_exceptions) x1) (\<lambda>x2.
     andthen (handler (exec (MOV 6 1) x2)) (\<lambda>x3.
     andthen (call0 (return_address ld 2) (Some \<circ> exec_block disable_kernel_exceptions) x3) (\<lambda>x4.
     andthen (call0 (return_address ld 3) restore_full_interrupt_context x4) (\<lambda>x5.
     Inr (exec_block (return_from_trap ld) x5))))))"

text \<open>
  The system call entry first moves the saved PC behind the instruction, to the start of the
  loop if that was its end.
\<close>

definition skip_syscall :: "xtensa \<Rightarrow> xtensa" where
  "skip_syscall x =
     (let x1 = exec_block [RSR Epc1 0, ADDI 0 0 3, RSR Lend 2] x in
      if reg 0 x1 \<noteq> reg 2 x1 then exec (WSR Epc1 0) x1
      else let x2 = exec (RSR Lcount 2) x1 in
      if reg 2 x2 = 0 then exec (WSR Epc1 0) x2
      else exec_block [ADDI 2 2 (- 1), WSR Lcount 2, RSR Lbeg 0, WSR Epc1 0] x2)"

subsection \<open>Reset\<close>

text \<open>\<^verbatim>\<open>main.S\<close>, to its call of \<^verbatim>\<open>kmain\<close>. The vectors and the stack are where the linker puts them.\<close>

definition start_asm :: "u32 \<Rightarrow> u32 \<Rightarrow> instr list" where
  "start_asm vecbase g_app_cpu_stack =
    [MOVI 1 1, MOVI 0 0, WSR Windowstart 1, WSR Windowbase 0, RSYNC,
     MOVI 0 vecbase, WSR Vecbase 0, RSYNC,
     MOVI 0 0, WSR Lcount 0, RSYNC,
     MOVI 0 4096, MOVI 1 g_app_cpu_stack, ADD 1 1 0]"

end
