(* ===== verification/Trap_Save.thy ===== *)
theory Trap_Save
  imports Trap_Entry
begin

section \<open>What the trap entry saves\<close>

text \<open>
  Frames are counted from the current one. Bit \<open>f\<close> of the rotated \<^verbatim>\<open>windowstart\<close> says that frame
  \<open>f\<close> holds live registers of an outer call. The spill loop stores the frames from the first
  live one up to the last, which lies just below the current frame in the file.
\<close>

subsection \<open>The rotated window start\<close>

definition rotated :: "u32 \<Rightarrow> u32 \<Rightarrow> u32" where
  "rotated w b = drop_bit 16 (ucast (drop_bit (unat (take_bit 5 b AND 0x3F))
     (push_bit 32 (ucast w) OR ucast (push_bit 16 w) :: u64)))"

lemma bit_rotated:
  assumes b: "b < 16" and w: "\<And>j. bit w j \<Longrightarrow> j < 16"
  shows "bit (rotated w b) j \<longleftrightarrow> j < 16 \<and> bit w ((j + unat b) mod 16)"
proof -
  have u: "unat b < 16" using b by (simp add: word_less_nat_alt)
  have "take_bit 5 b AND 0x3F = b"
  proof (rule bit_word_eqI)
    fix n assume "n < LENGTH(32)"
    have "bit b n \<Longrightarrow> n < 4"
    proof (rule ccontr)
      assume n: "bit b n" "\<not> n < 4"
      have "b = take_bit 4 b" using u by (simp add: word_unat_eq_iff take_bit_eq_mod unat_mod)
      then show False using n by (metis bit_take_bit_iff)
    qed
    moreover have "bit (0x3F :: u32) n" if "n < 4"
      using that by (auto simp: numeral_eq_Suc less_Suc_eq)
    ultimately show "bit (take_bit 5 b AND 0x3F) n = bit b n" by (auto simp: bit_simps)
  qed
  then have r: "rotated w b = drop_bit 16 (ucast (drop_bit (unat b) (push_bit 32 (ucast w) OR ucast (push_bit 16 w) :: u64)))"
    by (simp add: rotated_def)
  have wj: "bit w j' = (j' < 16 \<and> bit w j')" for j' using w by blast
  show ?thesis
  proof (cases "j < 16")
    case False
    then show ?thesis unfolding r by (auto simp: bit_simps)
  next
    case True
    show ?thesis
    proof (cases "j + unat b < 16")
      case t: True
      then show ?thesis unfolding r using True u by (auto simp: bit_simps add.commute)
    next
      case f: False
      then have m: "(j + unat b) mod 16 = j + unat b - 16" using True u by (simp add: le_mod_geq)
      have "\<not> bit w (j + unat b)" using f w by blast
      then show ?thesis unfolding r m using True u f by (auto simp: bit_simps add.commute)
    qed
  qed
qed

text \<open>Clearing all but the lowest set bit above bit 0, and its place.\<close>

lemma neg_odd: "odd v \<Longrightarrow> - v = NOT v OR 1" for v :: u32
proof -
  assume v: "odd v"
  have "- v = NOT v + 1" by (simp add: minus_eq_not_plus_1)
  also have "\<dots> = NOT v OR 1" using v by (intro disjunctive_add) (auto simp: bit_simps bit_1_iff simp flip: bit_0)
  finally show ?thesis .
qed

lemma lowest_bit:
  fixes u :: u32
  assumes "bit u k" "\<And>i. i < k \<Longrightarrow> \<not> bit u i"
  shows "- u AND u = push_bit k 1"
proof -
  let ?v = "drop_bit k u"
  have "k \<le> n" if "bit u n" for n using assms(2) [of n] that by (meson not_le)
  then have u: "u = push_bit k ?v" by (intro bit_word_eqI) (auto simp: bit_simps)
  have v: "odd ?v" using assms(1) by (simp add: bit_iff_odd_drop_bit)
  have "- u = push_bit k (- ?v)" by (subst u) (simp add: push_bit_minus)
  then have "- u AND u = push_bit k (- ?v) AND push_bit k ?v" using u by metis
  also have "\<dots> = push_bit k (- ?v AND ?v)" by (simp add: push_bit_and)
  also have "- ?v AND ?v = 1"
    unfolding neg_odd [OF v] using v by (intro bit_word_eqI) (auto simp: bit_simps bit_1_iff simp flip: bit_0)
  finally show ?thesis .
qed

lemma nsau_push: "k < 16 \<Longrightarrow> nsau (push_bit k 1) = 31 - of_nat k"
proof -
  assume "k < 16"
  have "rev [0..<32] = rev [Suc k..<32] @ k # rev [0..<k]"
    using \<open>k < 16\<close> upt_add_eq_append [of 0 k "32 - k"] by (simp add: upt_rec [of k 32])
  moreover have "takeWhile (\<lambda>i. \<not> bit (push_bit k 1 :: u32) i) (rev [Suc k..<32] @ k # rev [0..<k]) = rev [Suc k..<32]"
    using \<open>k < 16\<close> by (subst takeWhile_append2) (auto simp: bit_simps bit_1_iff)
  ultimately show ?thesis using \<open>k < 16\<close> by (simp add: nsau_def of_nat_diff)
qed

lemma frame_count:
  assumes "bit m 0" "bit m k" "0 < k" "k < 16" "\<And>i. 0 < i \<Longrightarrow> i < k \<Longrightarrow> \<not> bit m i"
  shows "nsau (- (m - 1) AND m) - 15 = of_nat (16 - k)"
proof -
  have odd: "odd m" using assms(1) by (simp add: bit_0)
  have m1: "m - 1 = m AND NOT 1"
  proof -
    have "m = (m AND NOT 1) + 1"
    proof -
      have "(m AND NOT 1) + 1 = (m AND NOT 1) OR 1" by (intro disjunctive_add) (auto simp: bit_simps bit_1_iff)
      also have "\<dots> = m" using odd by (intro bit_word_eqI) (auto simp: bit_simps bit_1_iff simp flip: bit_0)
      finally show ?thesis by simp
    qed
    then show ?thesis by (metis add_diff_cancel_right')
  qed
  have low: "\<not> bit (m - 1) i" if "i < k" for i
    using that assms(5) [of i] by (cases i) (auto simp: m1 bit_simps bit_1_iff)
  have "- (m - 1) AND m = - (m - 1) AND (m - 1)"
  proof (rule bit_word_eqI)
    fix i assume "i < LENGTH(32)"
    have "\<not> bit (- (m - 1)) 0" using odd by (simp add: bit_0)
    then show "bit (- (m - 1) AND m) i = bit (- (m - 1) AND (m - 1)) i"
      by (cases i) (auto simp: m1 bit_simps bit_1_iff)
  qed
  also have "\<dots> = push_bit k 1"
    using assms(2-4) low by (intro lowest_bit) (auto simp: m1 bit_simps bit_1_iff)
  finally have e: "- (m - 1) AND m = push_bit k 1" .
  show ?thesis unfolding e nsau_push [OF assms(4)] using assms(3,4) by (simp add: of_nat_diff)
qed

subsection \<open>The spill loop\<close>

text \<open>The registers an operation may change, and special registers but the window base, stay.\<close>

definition same_srs :: "xtensa \<Rightarrow> xtensa \<Rightarrow> bool" where
  "same_srs x y \<longleftrightarrow> (\<forall>r. r \<noteq> Windowbase \<longrightarrow> sreg y r = sreg x r)"

lemma spill_body_regs:
  defines "x1 \<equiv> \<lambda>x. exec_block spill_body x"
  shows "wbase (x1 x) = (wbase x + 15) mod 16" "reg 1 (x1 x) = reg 1 x - 16" "reg 2 (x1 x) = reg 2 x - 1"
    "same_srs x (x1 x)"
    "k < 60 \<Longrightarrow> view (wbase x) (x1 x) k = view (wbase x) x k"
    "j < 1024 \<Longrightarrow> fw (reg 1 x) (xmem (x1 x)) j = (if 60 \<le> j \<and> j < 64 then view (wbase x) x j else fw (reg 1 x) (xmem x) j)"
    "unat (y - reg 1 x) < 240 \<or> 256 \<le> unat (y - reg 1 x) \<Longrightarrow> xmem (x1 x) y = xmem x y"
proof -
  show "unat (y - reg 1 x) < 240 \<or> 256 \<le> unat (y - reg 1 x) \<Longrightarrow> xmem (x1 x) y = xmem x y"
    unfolding x1_def spill_body_def TASK_REGS_AR_END_def by (elim disjE) (simp_all, simp_all add: reg_def store32_off)
  show "j < 1024 \<Longrightarrow> fw (reg 1 x) (xmem (x1 x)) j = (if 60 \<le> j \<and> j < 64 then view (wbase x) x j else fw (reg 1 x) (xmem x) j)"
    unfolding x1_def spill_body_def TASK_REGS_AR_END_def by (simp, simp add: reg_def) arith
qed (simp_all add: x1_def spill_body_def TASK_REGS_AR_END_def same_srs_def, simp_all add: reg_def)


lemma view_back: "view ((b + 15) mod 16) y (k + 4) = view b y k"
proof -
  have "view ((b + 15) mod 16) y (k + 4) = view b y (k + 64)" unfolding view_mod(2) view_shift by (simp add: algebra_simps)
  then show ?thesis using view_mod(1) [of b y "k + 64"] view_mod(1) [of b y k] by simp
qed

lemma fw_back: "fw (a - 16) m (j + 4) = fw a m j"
  by (simp add: fw_def algebra_simps)

lemma spill_loop_ok:
  assumes "reg 2 x = of_nat n" "0 < n" "n \<le> 15"
  shows "\<exists>x'. spill_loop x = Some x' \<and> wbase x' = (wbase x + (16 - n)) mod 16 \<and> same_srs x x' \<and>
    (\<forall>k < 64 - 4 * n. view (wbase x) x' k = view (wbase x) x k) \<and>
    (\<forall>j < 1000 - 4 * n. fw (reg 1 x) (xmem x') j =
       (if 64 - 4 * n \<le> j \<and> j < 64 then view (wbase x) x j else fw (reg 1 x) (xmem x) j)) \<and>
    (\<forall>y. unat (y - reg 1 x) < 256 - 16 * n \<or> 256 \<le> unat (y - reg 1 x) \<longrightarrow> xmem x' y = xmem x y)"
  using assms
proof (induction n arbitrary: x)
  case (Suc n)
  define x1 where "x1 = exec_block spill_body x"
  note b = spill_body_regs [where x = x, folded x1_def]
  have r2: "reg 2 x1 = of_nat n" using b(3) Suc.prems(1) by simp
  show ?case
  proof (cases "n = 0")
    case True
    then have "spill_loop x = Some x1" using r2 by (simp add: spill_loop.simps [of x] flip: x1_def)
    then show ?thesis using b True by simp
  next
    case False
    have n: "0 < n" "n \<le> 15" using False Suc.prems by simp_all
    have "unat (of_nat n :: u32) = n" by (rule unat_of_nat_small) (use n in simp)
    then have "reg 2 x1 \<noteq> 0" using r2 n(1) by auto
    then have l: "spill_loop x = spill_loop x1" by (simp add: spill_loop.simps [of x] flip: x1_def)
    obtain x' where x': "spill_loop x1 = Some x'" "wbase x' = (wbase x1 + (16 - n)) mod 16" "same_srs x1 x'"
      "\<And>k. k < 64 - 4 * n \<Longrightarrow> view (wbase x1) x' k = view (wbase x1) x1 k"
      "\<And>j. j < 1000 - 4 * n \<Longrightarrow> fw (reg 1 x1) (xmem x') j =
        (if 64 - 4 * n \<le> j \<and> j < 64 then view (wbase x1) x1 j else fw (reg 1 x1) (xmem x1) j)"
      "\<And>y. unat (y - reg 1 x1) < 256 - 16 * n \<or> 256 \<le> unat (y - reg 1 x1) \<Longrightarrow> xmem x' y = xmem x1 y"
      using Suc.IH [OF r2 n] by metis
    have base: "wbase x' = (wbase x + (16 - Suc n)) mod 16"
    proof -
      have "wbase x' = (wbase x + 15 + (16 - n)) mod 16" unfolding x'(2) b(1) by (simp add: mod_add_left_eq)
      also have "wbase x + 15 + (16 - n) = wbase x + (16 - Suc n) + 16" using n by simp
      finally show ?thesis by simp
    qed
    have views: "view (wbase x) x' k = view (wbase x) x k" if "k < 64 - 4 * Suc n" for k
      using x'(4) [of "k + 4"] b(5) [of k] that n unfolding b(1) view_back by simp
    have words: "fw (reg 1 x) (xmem x') j =
       (if 64 - 4 * Suc n \<le> j \<and> j < 64 then view (wbase x) x j else fw (reg 1 x) (xmem x) j)" if "j < 1000 - 4 * Suc n" for j
      using x'(5) [of "j + 4"] b(5) [of j] b(6) [of j] that n unfolding b(1,2) view_back fw_back by (auto split: if_splits)
    have outside: "xmem x' y = xmem x y" if "unat (y - reg 1 x) < 256 - 16 * Suc n \<or> 256 \<le> unat (y - reg 1 x)" for y
    proof -
      have e: "y - reg 1 x1 = (y - reg 1 x) + 16" unfolding b(2) by simp
      have u: "unat (y - reg 1 x1) = (unat (y - reg 1 x) + 16) mod 4294967296"
        unfolding e by (simp add: unat_word_ariths)
      have "unat (y - reg 1 x1) < 256 - 16 * n \<or> 256 \<le> unat (y - reg 1 x1)"
      proof (cases "unat (y - reg 1 x) + 16 < 4294967296")
        case True
        then have "unat (y - reg 1 x1) = unat (y - reg 1 x) + 16" using u by simp
        then show ?thesis using that n by auto
      next
        case False
        then have "unat (y - reg 1 x1) = unat (y - reg 1 x) + 16 - 4294967296"
          using u unat_bound32 [of "y - reg 1 x"] by (simp add: le_mod_geq mod_less del: unat_bound32)
        then have "unat (y - reg 1 x1) < 16" using unat_bound32 [of "y - reg 1 x"] by linarith
        then show ?thesis using n by simp
      qed
      then have "xmem x' y = xmem x1 y" by (rule x'(6))
      also have "\<dots> = xmem x y" using that by (intro b(7)) auto
      finally show ?thesis .
    qed
    have "same_srs x x'" using b(4) x'(3) by (simp add: same_srs_def)
    then show ?thesis using x'(1) base views words outside l by auto
  qed
qed simp

subsection \<open>The whole save\<close>

definition special_word :: "xtensa \<Rightarrow> nat \<Rightarrow> u32" where
  "special_word x j = sreg x ([Sar, Lbeg, Lend, Lcount, Epc1, Ps, Windowbase, Windowstart] ! (j - 64))"

lemma eight: "64 \<le> j \<Longrightarrow> j < 72 \<Longrightarrow> j = 64 \<or> j = 65 \<or> j = 66 \<or> j = 67 \<or> j = 68 \<or> j = 69 \<or> j = 70 \<or> j = 71" for j :: nat
  by linarith

lemma save_special_ok:
  defines "x1 \<equiv> \<lambda>x. exec_block (save_special @ rotate_windowstart) x"
  shows "wbase (x1 x) = wbase x" "reg 2 (x1 x) = rotated (sreg x Windowstart) (sreg x Windowbase)"
    "k < 64 \<Longrightarrow> k \<noteq> 2 \<Longrightarrow> k \<noteq> 3 \<Longrightarrow> view (wbase x) (x1 x) k = view (wbase x) x k"
    "sreg (x1 x) Sar = take_bit 5 (sreg x Windowbase) AND 0x3F" "sreg (x1 x) Windowstart = sreg x Windowstart"
    "j < 72 \<Longrightarrow> fw (reg 1 x) (xmem (x1 x)) j = (if 64 \<le> j then special_word x j else fw (reg 1 x) (xmem x) j)"
    "load16 (xmem (x1 x)) (reg 1 x + 288) = take_bit 16 (rotated (sreg x Windowstart) (sreg x Windowbase))"
    "load16 (xmem (x1 x)) (reg 1 x + 290) = load16 (xmem x) (reg 1 x + 290)"
    "292 \<le> unat (y - reg 1 x) \<Longrightarrow> xmem (x1 x) y = xmem x y"
proof -
  note d = x1_def save_special_def rotate_windowstart_def frame_offsets
  show "292 \<le> unat (y - reg 1 x) \<Longrightarrow> xmem (x1 x) y = xmem x y"
    unfolding d by (simp, simp add: reg_def store32_off store16_off)
  show "j < 72 \<Longrightarrow> fw (reg 1 x) (xmem (x1 x)) j = (if 64 \<le> j then special_word x j else fw (reg 1 x) (xmem x) j)"
  proof (cases "64 \<le> j")
    case True
    assume "j < 72"
    from eight [OF True this] show ?thesis unfolding d
      by (elim disjE) (simp_all, simp_all add: reg_def fw_store16 special_word_def)
  next
    case False
    assume "j < 72"
    then show ?thesis unfolding d using False by (simp, simp add: reg_def fw_store16)
  qed
  show "load16 (xmem (x1 x)) (reg 1 x + 288) = take_bit 16 (rotated (sreg x Windowstart) (sreg x Windowbase))"
    unfolding d by (simp, simp add: reg_def load16_same rotated_def sr_mask_def)
  show "load16 (xmem (x1 x)) (reg 1 x + 290) = load16 (xmem x) (reg 1 x + 290)"
    unfolding d by (simp, simp add: reg_def load16_store16 load16_store32)
qed (simp_all add: x1_def save_special_def rotate_windowstart_def frame_offsets, simp_all add: reg_def rotated_def sr_mask_def)

definition live_frame :: "xtensa \<Rightarrow> nat \<Rightarrow> bool" where
  "live_frame x f \<longleftrightarrow> bit (sreg x Windowstart) ((wbase x + f) mod 16)"

definition outer :: "xtensa \<Rightarrow> nat" where
  "outer x = Suc (length (takeWhile (\<lambda>f. \<not> live_frame x f) [1..<16]))"

definition live_reg :: "xtensa \<Rightarrow> nat \<Rightarrow> bool" where
  "live_reg x k \<longleftrightarrow> k < 4 * min (outer x) 4 \<or> 4 * outer x \<le> k"

definition windows_ok :: "xtensa \<Rightarrow> bool" where
  "windows_ok x \<longleftrightarrow> sreg x Windowbase < 16 \<and> sreg x Windowstart < 0x10000 \<and> live_frame x 0"

lemma outer_less: "1 \<le> outer x" "outer x \<le> 16"
  using length_takeWhile_le [of "\<lambda>f. \<not> live_frame x f" "[1..<16]"] by (simp_all add: outer_def)

lemma outer_live: "outer x < 16 \<Longrightarrow> live_frame x (outer x)"
  using nth_length_takeWhile [of "\<lambda>f. \<not> live_frame x f" "[1..<16]"] by (simp add: outer_def)

lemma before_outer: "0 < f \<Longrightarrow> f < outer x \<Longrightarrow> \<not> live_frame x f"
proof -
  assume f: "0 < f" "f < outer x"
  then have "f - 1 < length (takeWhile (\<lambda>f. \<not> live_frame x f) [1..<16])" by (simp add: outer_def)
  moreover have "f - 1 < length [1..<16 :: nat]" using f outer_less(2) [of x] by simp
  ultimately have "\<not> live_frame x ([1..<16] ! (f - 1))" using nth_mem takeWhile_nth set_takeWhileD by metis
  moreover have "[1..<16] ! (f - 1) = f" using f outer_less(2) [of x] by (subst nth_upt) simp_all
  ultimately show ?thesis by simp
qed

lemma bit_small: "w < 0x10000 \<Longrightarrow> bit w j \<Longrightarrow> j < 16" for w :: u32
proof (rule ccontr)
  assume "w < 0x10000" "bit w j" "\<not> j < 16"
  moreover have "take_bit 16 w = w" using \<open>w < 0x10000\<close> by (simp add: word_unat_eq_iff take_bit_eq_mod unat_mod word_less_nat_alt)
  ultimately show False by (metis bit_take_bit_iff)
qed

lemma rotated_live:
  assumes "windows_ok x"
  shows "bit (rotated (sreg x Windowstart) (sreg x Windowbase)) f \<longleftrightarrow> f < 16 \<and> live_frame x f"
proof -
  have "unat (sreg x Windowbase) < 16" using assms by (simp add: windows_ok_def word_less_nat_alt)
  then have "wbase x = unat (sreg x Windowbase)" by (simp add: wbase_def)
  then show ?thesis using assms bit_rotated [of "sreg x Windowbase" "sreg x Windowstart" f] bit_small
    by (auto simp: windows_ok_def live_frame_def add.commute)
qed

lemma store_ar_ok:
  assumes "\<forall>k \<in> set ks. k < 64"
  shows "\<exists>m. exec_block (store_ar ks) x = x\<lparr>xmem := m\<rparr> \<and>
    (\<forall>j < 72. fw (reg 1 x) m j = (if j \<in> set ks then reg j x else fw (reg 1 x) (xmem x) j)) \<and>
    (\<forall>y. 256 \<le> unat (y - reg 1 x) \<longrightarrow> m y = xmem x y)"
  using assms
proof (induction ks arbitrary: x)
  case Nil
  show ?case by (intro exI [of _ "xmem x"]) (simp add: store_ar_def)
next
  case (Cons k ks)
  let ?x = "exec (S32I k 1 (TASK_REGS_AR k)) x"
  have k: "unat (TASK_REGS_AR k) = 4 * k" using Cons.prems by (simp add: TASK_REGS_AR_def mult.commute del: of_nat_mult)
  obtain m where m: "exec_block (store_ar ks) ?x = ?x\<lparr>xmem := m\<rparr>"
    "\<forall>j < 72. fw (reg 1 ?x) m j = (if j \<in> set ks then reg j ?x else fw (reg 1 ?x) (xmem ?x) j)"
    "\<forall>y. 256 \<le> unat (y - reg 1 ?x) \<longrightarrow> m y = xmem ?x y"
    using Cons.IH [of ?x] Cons.prems by auto
  have "xmem ?x y = xmem x y" if "256 \<le> unat (y - reg 1 x)" for y
    using that k Cons.prems by (simp add: store32_off)
  moreover have "fw (reg 1 x) (xmem ?x) j = (if j = k then reg k x else fw (reg 1 x) (xmem x) j)" if "j < 72" for j
    using that Cons.prems by (simp add: k)
  moreover have "exec_block (store_ar (k # ks)) x = x\<lparr>xmem := m\<rparr>" using m(1) by (simp add: store_ar_def)
  ultimately show ?case using m(2,3) by (intro exI [of _ m]) auto
qed

lemma take_bit_of_nat_small [simp]: "n < 32 \<Longrightarrow> take_bit 16 (of_nat n :: u32) = of_nat n"
  by (simp add: word_unat_eq_iff take_bit_eq_mod unat_mod)

lemma count_frames_ok:
  assumes m: "bit (reg 2 x) 0" "bit (reg 2 x) k" "0 < k" "k < 16" "\<forall>i. 0 < i \<and> i < k \<longrightarrow> \<not> bit (reg 2 x) i"
  defines "x1 \<equiv> exec_block count_frames x"
  shows "wbase x1 = wbase x" "reg 2 x1 = of_nat (16 - k)" "sreg x1 = sreg x"
    "i < 64 \<Longrightarrow> i \<noteq> 2 \<Longrightarrow> i \<noteq> 3 \<Longrightarrow> view (wbase x) x1 i = view (wbase x) x i"
    "j < 72 \<Longrightarrow> fw (reg 1 x) (xmem x1) j = fw (reg 1 x) (xmem x) j"
    "load16 (xmem x1) (reg 1 x + 288) = load16 (xmem x) (reg 1 x + 288)"
    "load16 (xmem x1) (reg 1 x + 290) = of_nat (16 - k)"
    "292 \<le> unat (y - reg 1 x) \<Longrightarrow> xmem x1 y = xmem x y"
  unfolding x1_def count_frames_def TASK_REGS_WINDOWSIZE_def
  using frame_count [OF m(1-4)] m(5)
  by (simp_all add: load16_same load16_store16 fw_store16 store16_off)

lemma count_nonzero: "n < 32 \<Longrightarrow> 0 < n \<Longrightarrow> (of_nat n :: u32) \<noteq> 0"
proof
  assume n: "n < 32" "0 < n" and "(of_nat n :: u32) = 0"
  then have "unat (of_nat n :: u32) = 0" by simp
  then show False using n by simp
qed

lemma restore_base_ok:
  assumes b: "b < 16" and s: "sreg x Sar = of_nat b" and w: "wbase x = (b + f) mod 16" and f: "0 < f" "f < 16"
  defines "x1 \<equiv> exec_block restore_base x"
  shows "wbase x1 = b" "xmem x1 = xmem x" "sreg x1 Windowstart = push_bit b 1"
    "k < 2 \<Longrightarrow> view b x1 k = view b x k"
    "r \<notin> {Sar, Windowstart, Windowbase} \<Longrightarrow> sreg x1 r = sreg x r"
proof -
  have t: "take_bit 5 (of_nat b :: u32) = of_nat b" using b by (simp add: word_unat_eq_iff take_bit_eq_mod unat_mod)
  have "(32 - of_nat b :: u32) = of_nat (32 - b)" using b by (simp add: of_nat_diff)
  moreover have "(of_nat (32 - b) AND 0x3F :: u32) = of_nat (32 - b)"
  proof -
    have "(of_nat (32 - b) AND 0x3F :: u32) = take_bit 6 (of_nat (32 - b))" by (simp add: take_bit_eq_mask mask_eq_exp_minus_1)
    also have "\<dots> = of_nat (32 - b)" using b by (simp add: word_unat_eq_iff take_bit_eq_mod unat_mod del: of_nat_diff)
    finally show ?thesis .
  qed
  ultimately have sh: "32 - unat ((32 - of_nat b :: u32) AND 0x3F) = b" using b by (simp del: of_nat_diff)
  have "push_bit b 1 AND 0xFFFF = (push_bit b 1 :: u32)"
  proof -
    have "push_bit b 1 AND 0xFFFF = take_bit 16 (push_bit b 1 :: u32)" by (simp add: take_bit_eq_mask mask_eq_exp_minus_1)
    also have "\<dots> = push_bit b 1" using b by (intro bit_word_eqI) (auto simp: bit_simps bit_1_iff)
    finally show ?thesis .
  qed
  then show "sreg x1 Windowstart = push_bit b 1"
    unfolding x1_def restore_base_def using sh t by (simp add: s sr_mask_def)
  show "wbase x1 = b" unfolding x1_def restore_base_def using b by (simp add: s)
  show "k < 2 \<Longrightarrow> view b x1 k = view b x k"
    unfolding x1_def restore_base_def using f w by (simp add: view_set_frame [where b = b and f = f])
qed (simp_all add: x1_def restore_base_def)

lemma full_spill_ok:
  assumes m: "bit (reg 2 x) 0" "bit (reg 2 x) k" "0 < k" "k < 16" "\<forall>i. 0 < i \<and> i < k \<longrightarrow> \<not> bit (reg 2 x) i"
    and s: "sreg x Sar = of_nat (wbase x)"
  shows "\<exists>x'. full_spill x = Some x' \<and> wbase x' = wbase x \<and> sreg x' Windowstart = push_bit (wbase x) 1 \<and>
    reg 0 x' = reg 0 x \<and> reg 1 x' = reg 1 x \<and>
    (\<forall>j < 72. fw (reg 1 x) (xmem x') j = (if 4 * k \<le> j \<and> j < 64 then view (wbase x) x j else fw (reg 1 x) (xmem x) j)) \<and>
    load16 (xmem x') (reg 1 x + 288) = load16 (xmem x) (reg 1 x + 288) \<and>
    load16 (xmem x') (reg 1 x + 290) = of_nat (16 - k) \<and>
    (\<forall>y. 292 \<le> unat (y - reg 1 x) \<longrightarrow> xmem x' y = xmem x y)"
proof -
  define x1 where "x1 = exec_block count_frames x"
  note c = count_frames_ok [OF m, folded x1_def]
  have r1: "reg 1 x1 = reg 1 x" using c(4) [of 1] c(1) by (simp add: reg_def)
  have n: "0 < 16 - k" "16 - k \<le> 15" using m(3,4) by simp_all
  have e: "64 - 4 * (16 - k) = 4 * k" "16 - (16 - k) = k" using m(4) by simp_all
  obtain x2 where x2: "spill_loop x1 = Some x2" "wbase x2 = (wbase x + k) mod 16" "same_srs x1 x2"
    "\<forall>i < 4 * k. view (wbase x) x2 i = view (wbase x) x1 i"
    "\<forall>j < 1000 - 4 * (16 - k). fw (reg 1 x) (xmem x2) j = (if 4 * k \<le> j \<and> j < 64 then view (wbase x) x1 j else fw (reg 1 x) (xmem x1) j)"
    "\<forall>y. unat (y - reg 1 x) < 256 - 16 * (16 - k) \<or> 256 \<le> unat (y - reg 1 x) \<longrightarrow> xmem x2 y = xmem x1 y"
    using spill_loop_ok [OF c(2) n, unfolded r1 c(1) e] by (elim exE conjE)
  have words: "fw (reg 1 x) (xmem x2) j = (if 4 * k \<le> j \<and> j < 64 then view (wbase x) x1 j else fw (reg 1 x) (xmem x1) j)"
    if "j < 72" for j
  proof -
    have "j < 1000 - 4 * (16 - k)" using that m(3) by linarith
    then show ?thesis using x2(5) by blast
  qed
  have sar: "sreg x2 Sar = of_nat (wbase x)" using x2(3) c(3) s by (simp add: same_srs_def)
  note r = restore_base_ok [OF wbase_less sar x2(2) m(3,4)]
  have high: "load16 (xmem x2) (reg 1 x + d) = load16 (xmem x1) (reg 1 x + d)" if "d = 288 \<or> d = 290" for d
    using that by (intro load16_cong x2(6) [rule_format]) (auto simp: add.assoc)
  have view_eq: "view (wbase x) x1 j = view (wbase x) x j" if "j < 64" "4 * k \<le> j \<or> j < 2" for j
    using c(4) [of j] that m(3) by auto
  have regs: "view (wbase x) (exec_block restore_base x2) i = view (wbase x) x i" if "i < 2" for i
    using r(4) [OF that] x2(4) view_eq [of i] that m(3) by simp
  show ?thesis
  proof (intro exI conjI)
    show "full_spill x = Some (exec_block restore_base x2)" using x2(1) by (simp add: full_spill_def flip: x1_def)
    show "reg 0 (exec_block restore_base x2) = reg 0 x" "reg 1 (exec_block restore_base x2) = reg 1 x"
      using regs [of 0] regs [of 1] r(1) by (simp_all add: reg_def)
    show "\<forall>j < 72. fw (reg 1 x) (xmem (exec_block restore_base x2)) j =
        (if 4 * k \<le> j \<and> j < 64 then view (wbase x) x j else fw (reg 1 x) (xmem x) j)"
      unfolding r(2) using words view_eq c(5) by simp
    show "\<forall>y. 292 \<le> unat (y - reg 1 x) \<longrightarrow> xmem (exec_block restore_base x2) y = xmem x y"
      unfolding r(2) using x2(6) c(8) by simp
    show "load16 (xmem (exec_block restore_base x2)) (reg 1 x + 288) = load16 (xmem x) (reg 1 x + 288)"
      unfolding r(2) c(6) [symmetric] by (rule high) simp
    show "load16 (xmem (exec_block restore_base x2)) (reg 1 x + 290) = of_nat (16 - k)"
      unfolding r(2) c(7) [symmetric] by (rule high) simp
  qed (simp_all add: r)
qed

definition stage :: "xtensa \<Rightarrow> nat \<Rightarrow> memory \<Rightarrow> bool" where
  "stage x n m \<longleftrightarrow>
     (let x1 = exec_block (save_special @ rotate_windowstart) x in
      (\<forall>j < 72. fw (reg 1 x) m j = (if 4 \<le> j \<and> j < 4 * n then view (wbase x) x j else fw (reg 1 x) (xmem x1) j)) \<and>
      (\<forall>y. 256 \<le> unat (y - reg 1 x) \<longrightarrow> m y = xmem x1 y))"

definition frame_saved :: "xtensa \<Rightarrow> xtensa \<Rightarrow> bool" where
  "frame_saved x x' \<longleftrightarrow>
     wbase x' = wbase x \<and> sreg x' Windowstart = push_bit (wbase x) 1 \<and> reg 0 x' = reg 0 x \<and> reg 1 x' = reg 1 x \<and>
     (\<forall>j < 72. fw (reg 1 x) (xmem x') j =
       (if 64 \<le> j then special_word x j
        else if 4 \<le> j \<and> live_reg x j then view (wbase x) x j else fw (reg 1 x) (xmem x) j)) \<and>
     load16 (xmem x') (reg 1 x + 288) = rotated (sreg x Windowstart) (sreg x Windowbase) \<and>
     load16 (xmem x') (reg 1 x + 290) =
       (if outer x < 16 then of_nat (16 - outer x) else load16 (xmem x) (reg 1 x + 290)) \<and>
     (\<forall>y. 292 \<le> unat (y - reg 1 x) \<longrightarrow> xmem x' y = xmem x y)"

lemma stage_regs:
  defines "x1 \<equiv> \<lambda>x. exec_block (save_special @ rotate_windowstart) x"
  shows "reg 0 (x1 x) = reg 0 x" "reg 1 (x1 x) = reg 1 x" "4 \<le> k \<Longrightarrow> k < 64 \<Longrightarrow> reg k (x1 x) = view (wbase x) x k"
  unfolding reg_def x1_def save_special_ok(1) by (rule save_special_ok(3); simp)+

lemma store_stage:
  assumes "stage x n m" "1 \<le> n" "n < 4" "set ks = {4 * n..<4 * Suc n}"
  defines "x1 \<equiv> exec_block (save_special @ rotate_windowstart) x"
  shows "\<exists>m'. exec_block (store_ar ks) (x1\<lparr>xmem := m\<rparr>) = x1\<lparr>xmem := m'\<rparr> \<and> stage x (Suc n) m'"
proof -
  have ks: "\<forall>k \<in> set ks. k < 64" using assms(3,4) by auto
  obtain m' where m': "exec_block (store_ar ks) (x1\<lparr>xmem := m\<rparr>) = (x1\<lparr>xmem := m\<rparr>)\<lparr>xmem := m'\<rparr>"
    "\<forall>j < 72. fw (reg 1 x) m' j = (if j \<in> set ks then reg j x1 else fw (reg 1 x) m j)"
    "\<forall>y. 256 \<le> unat (y - reg 1 x) \<longrightarrow> m' y = m y"
    using store_ar_ok [OF ks, of "x1\<lparr>xmem := m\<rparr>"] stage_regs(2) [of x, folded x1_def] by auto
  have "stage x (Suc n) m'"
    using assms(1-4) m'(2,3) stage_regs(3) [of _ x, folded x1_def] by (auto simp: stage_def Let_def simp flip: x1_def)
  then show ?thesis using m'(1) by auto
qed

lemma rotated_small: "windows_ok x \<Longrightarrow>
  take_bit 16 (rotated (sreg x Windowstart) (sreg x Windowbase)) = rotated (sreg x Windowstart) (sreg x Windowbase)"
  by (rule bit_word_eqI) (auto simp: rotated_live bit_take_bit_iff)

lemma sar_base: "windows_ok x \<Longrightarrow> take_bit 5 (sreg x Windowbase) AND 0x3F = (of_nat (wbase x) :: u32)"
proof -
  assume "windows_ok x"
  then have b: "unat (sreg x Windowbase) < 16" by (simp add: windows_ok_def word_less_nat_alt)
  have "take_bit 5 (sreg x Windowbase) AND 0x3F = take_bit 6 (take_bit 5 (sreg x Windowbase))"
    by (simp add: take_bit_eq_mask mask_eq_exp_minus_1)
  then show ?thesis using b by (simp add: word_unat_eq_iff take_bit_eq_mod unat_mod wbase_def)
qed

lemma stage_saved:
  assumes ok: "windows_ok x" and s: "stage x (min (outer x) 4) m" and y: "wbase y = wbase x"
    "sreg y Windowstart = push_bit (wbase x) 1" "reg 0 y = reg 0 x" "reg 1 y = reg 1 x"
    "\<forall>j < 72. fw (reg 1 x) (xmem y) j = (if 4 * outer x \<le> j \<and> j < 64 then view (wbase x) x j else fw (reg 1 x) m j)"
    "load16 (xmem y) (reg 1 x + 288) = load16 m (reg 1 x + 288)"
    "load16 (xmem y) (reg 1 x + 290) = (if outer x < 16 then of_nat (16 - outer x) else load16 m (reg 1 x + 290))"
    "\<forall>z. 292 \<le> unat (z - reg 1 x) \<longrightarrow> xmem y z = m z"
  shows "frame_saved x y"
proof -
  let ?m1 = "xmem (exec_block (save_special @ rotate_windowstart) x)"
  have m: "fw (reg 1 x) m j = (if 4 \<le> j \<and> j < 4 * min (outer x) 4 then view (wbase x) x j else fw (reg 1 x) ?m1 j)"
    if "j < 72" for j using s that by (simp add: stage_def Let_def)
  have high: "m z = ?m1 z" if "256 \<le> unat (z - reg 1 x)" for z using s that by (simp add: stage_def Let_def)
  have h16: "load16 m (reg 1 x + d) = load16 ?m1 (reg 1 x + d)" if "d = 288 \<or> d = 290" for d
    using that by (intro load16_cong high) (auto simp: add.assoc)
  have words: "fw (reg 1 x) (xmem y) j =
       (if 64 \<le> j then special_word x j
        else if 4 \<le> j \<and> live_reg x j then view (wbase x) x j else fw (reg 1 x) (xmem x) j)" if "j < 72" for j
    using y(5) m [OF that] save_special_ok(6) [OF that, where x = x] that outer_less [of x] by (auto simp: live_reg_def)
  have "load16 (xmem y) (reg 1 x + 288) = rotated (sreg x Windowstart) (sreg x Windowbase)"
    using y(6) h16 [of 288] save_special_ok(7) [where x = x] rotated_small [OF ok] by simp
  moreover have "load16 (xmem y) (reg 1 x + 290) =
       (if outer x < 16 then of_nat (16 - outer x) else load16 (xmem x) (reg 1 x + 290))"
    using y(7) h16 [of 290] save_special_ok(8) [where x = x] by simp
  moreover have "\<forall>z. 292 \<le> unat (z - reg 1 x) \<longrightarrow> xmem y z = xmem x z"
    using y(8) high save_special_ok(9) [where x = x] by simp
  ultimately show ?thesis using y(1-4) words by (simp add: frame_saved_def)
qed

lemma stage_spill:
  assumes ok: "windows_ok x" and s: "stage x (min (outer x) 4) m" and o: "outer x < 16"
  defines "x1 \<equiv> exec_block (save_special @ rotate_windowstart) x"
  shows "\<exists>y. full_spill (x1\<lparr>xmem := m\<rparr>) = Some y \<and> frame_saved x y"
proof -
  let ?x = "x1\<lparr>xmem := m\<rparr>"
  have b: "bit (reg 2 ?x) f \<longleftrightarrow> f < 16 \<and> live_frame x f" for f
    using rotated_live [OF ok] save_special_ok(2) [where x = x, folded x1_def] by simp
  have f: "bit (reg 2 ?x) 0" "bit (reg 2 ?x) (outer x)" "0 < outer x" "\<forall>i. 0 < i \<and> i < outer x \<longrightarrow> \<not> bit (reg 2 ?x) i"
    unfolding b using ok o outer_live outer_less [of x] before_outer by (auto simp: windows_ok_def Suc_le_eq)
  have sar: "sreg ?x Sar = of_nat (wbase ?x)"
    using save_special_ok(4,1) [where x = x, folded x1_def] sar_base [OF ok] by simp
  have r: "reg 0 ?x = reg 0 x" "reg 1 ?x = reg 1 x" "wbase ?x = wbase x" "xmem ?x = m"
    "j < 64 \<Longrightarrow> 4 \<le> j \<Longrightarrow> view (wbase x) ?x j = view (wbase x) x j" for j
    using stage_regs(1,2) [of x, folded x1_def] save_special_ok(1,3) [where x = x, folded x1_def] by simp_all
  obtain y where y: "full_spill ?x = Some y" "wbase y = wbase x" "sreg y Windowstart = push_bit (wbase x) 1"
    "reg 0 y = reg 0 x" "reg 1 y = reg 1 x"
    "\<forall>j < 72. fw (reg 1 x) (xmem y) j = (if 4 * outer x \<le> j \<and> j < 64 then view (wbase x) ?x j else fw (reg 1 x) m j)"
    "load16 (xmem y) (reg 1 x + 288) = load16 m (reg 1 x + 288)" "load16 (xmem y) (reg 1 x + 290) = of_nat (16 - outer x)"
    "\<forall>z. 292 \<le> unat (z - reg 1 x) \<longrightarrow> xmem y z = m z"
    using full_spill_ok [OF f(1,2,3) o f(4) sar, unfolded r(1-4)] by (elim exE conjE)
  have "\<forall>j < 72. fw (reg 1 x) (xmem y) j = (if 4 * outer x \<le> j \<and> j < 64 then view (wbase x) x j else fw (reg 1 x) m j)"
    using y(6) r(5) f(3) by auto
  then have "frame_saved x y" using stage_saved [OF ok s y(2-5) _ y(7) _ y(9)] y(8) o by simp
  then show ?thesis using y(1) by blast
qed

lemma only_frame: "windows_ok x \<Longrightarrow> outer x = 16 \<Longrightarrow> rotated (sreg x Windowstart) (sreg x Windowbase) = 1"
proof (rule bit_word_eqI)
  fix f assume "windows_ok x" "outer x = 16"
  moreover have "\<not> live_frame x f" if "0 < f" "f < 16" using before_outer that \<open>outer x = 16\<close> by simp
  ultimately show "bit (rotated (sreg x Windowstart) (sreg x Windowbase)) f \<longleftrightarrow> bit (1 :: u32) f"
    by (cases f) (auto simp: rotated_live bit_1_iff windows_ok_def)
qed

lemma only_frame_start: "windows_ok x \<Longrightarrow> outer x = 16 \<Longrightarrow> sreg x Windowstart = push_bit (wbase x) 1"
proof (rule bit_word_eqI)
  fix j assume ok: "windows_ok x" "outer x = 16"
  have live: "live_frame x f \<longleftrightarrow> f = 0" if "f < 16" for f
    using ok before_outer [of f x] that by (auto simp: windows_ok_def)
  show "bit (sreg x Windowstart) j \<longleftrightarrow> bit (push_bit (wbase x) 1 :: u32) j"
  proof (cases "j < 16")
    case True
    define f where "f = (j + 16 - wbase x) mod 16"
    have "(wbase x + f) mod 16 = j"
    proof -
      have "wbase x + (j + 16 - wbase x) = j + 16" using wbase_less [of x] by linarith
      then show ?thesis using True by (simp add: f_def mod_add_right_eq del: wbase_less)
    qed
    moreover have "f = 0 \<longleftrightarrow> j = wbase x"
      using calculation True wbase_less [of x] by (cases "f = 0") (auto simp: f_def)
    ultimately show ?thesis using live [of f] True by (auto simp: live_frame_def bit_simps bit_1_iff f_def)
  next
    case False
    then show ?thesis using bit_small ok(1) wbase_less [of x] by (auto simp: windows_ok_def bit_simps bit_1_iff)
  qed
qed

lemma save_ok:
  assumes ok: "windows_ok x"
  shows "\<exists>x'. save_full_interrupt_context x = Some x' \<and> frame_saved x x'"
proof -
  define x1 where "x1 = exec_block (save_special @ rotate_windowstart) x"
  define st where "st n m \<longleftrightarrow> stage x n m" for n m
  note step = store_stage [where x = x, folded x1_def]
  have r: "reg 2 x1 = rotated (sreg x Windowstart) (sreg x Windowbase)"
    using save_special_ok(2) [where x = x] by (simp add: x1_def)
  have b: "bit (reg 2 (x1\<lparr>xmem := m\<rparr>)) f \<longleftrightarrow> f < 16 \<and> live_frame x f" for f m
    using rotated_live [OF ok] r by simp
  have o: "f < 16 \<Longrightarrow> 0 < f \<Longrightarrow> live_frame x f \<Longrightarrow> outer x \<le> f" for f
    using before_outer [of f x] by (meson not_le)
  have nlive: "0 < f \<Longrightarrow> f < outer x \<Longrightarrow> \<not> live_frame x f" for f by (rule before_outer)
  have s1: "stage x 1 (xmem x1)" by (auto simp: stage_def x1_def)
  have "\<exists>m. exec_block (store_ar [4, 5, 6, 7]) x1 = x1\<lparr>xmem := m\<rparr> \<and> stage x 2 m"
  proof -
    have "set [4, 5, 6, 7 :: nat] = {4 * 1..<4 * Suc 1}" by auto
    from step [OF s1 _ _ this] show ?thesis by (simp add: numeral_2_eq_2)
  qed
  then obtain m2 where m2: "exec_block (store_ar [4, 5, 6, 7]) x1 = x1\<lparr>xmem := m2\<rparr>" "stage x 2 m2" by blast
  have "\<exists>m. exec_block (store_ar [8, 9, 10, 11]) (x1\<lparr>xmem := m2\<rparr>) = x1\<lparr>xmem := m\<rparr> \<and> stage x 3 m"
  proof -
    have "set [8, 9, 10, 11 :: nat] = {4 * 2..<4 * Suc 2}" by auto
    from step [OF m2(2) _ _ this] show ?thesis by (simp add: numeral_3_eq_3)
  qed
  then obtain m3 where m3: "exec_block (store_ar [8, 9, 10, 11]) (x1\<lparr>xmem := m2\<rparr>) = x1\<lparr>xmem := m3\<rparr>" "stage x 3 m3" by blast
  have "\<exists>m. exec_block (store_ar [12, 13, 14, 15]) (x1\<lparr>xmem := m3\<rparr>) = x1\<lparr>xmem := m\<rparr> \<and> stage x 4 m"
  proof -
    have "set [12, 13, 14, 15 :: nat] = {4 * 3..<4 * Suc 3}" by auto
    from step [OF m3(2) _ _ this] show ?thesis by simp
  qed
  then obtain m4 where m4: "exec_block (store_ar [12, 13, 14, 15]) (x1\<lparr>xmem := m3\<rparr>) = x1\<lparr>xmem := m4\<rparr>" "stage x 4 m4" by blast
  note save = save_full_interrupt_context_def [of x, folded x1_def, unfolded Let_def m2(1) m3(1) m4(1)]
  have x1: "x1\<lparr>xmem := xmem x1\<rparr> = x1" by simp
  note spill = stage_spill [OF ok, folded x1_def]
  consider "outer x = 1" | "outer x = 2" | "outer x = 3" | "4 \<le> outer x" "outer x < 16" | "outer x = 16"
    using outer_less [of x] by linarith
  then show ?thesis
  proof cases
    case 1
    then show ?thesis using spill [of "xmem x1"] s1 outer_live [of x] b [of "xmem x1" 1] unfolding save by (simp add: x1)
  next
    case 2
    then show ?thesis using spill [of m2] m2(2) outer_live [of x] nlive [of 1] b [of "xmem x1" 1] b [of m2 2]
      unfolding save by simp
  next
    case 3
    then show ?thesis using spill [of m3] m3(2) outer_live [of x] nlive [of 1] nlive [of 2] b [of "xmem x1" 1] b [of m2 2] b [of m3 3]
      unfolding save by simp
  next
    case 4
    then have "bit (reg 2 (x1\<lparr>xmem := m4\<rparr>)) (outer x)" using outer_live [of x] b [of m4] by simp
    then have "reg 2 (x1\<lparr>xmem := m4\<rparr>) \<noteq> 1" using 4 by (auto simp: bit_1_iff)
    then show ?thesis using 4 spill [of m4] m4(2) nlive [of 1] nlive [of 2] nlive [of 3] b [of "xmem x1" 1] b [of m2 2] b [of m3 3]
      unfolding save by simp
  next
    case 5
    have one: "reg 2 x1 = 1" using only_frame [OF ok 5] r by simp
    have regs: "reg 0 x1 = reg 0 x" "reg 1 x1 = reg 1 x" "wbase x1 = wbase x"
      using stage_regs(1,2) [of x, folded x1_def] save_special_ok(1) [of x, folded x1_def] by simp_all
    have "sreg x1 Windowstart = push_bit (wbase x) 1"
      using save_special_ok(5) [where x = x, folded x1_def] only_frame_start [OF ok 5] by simp
    then have "frame_saved x (x1\<lparr>xmem := m4\<rparr>)"
      using 5 m4(2) regs by (intro stage_saved [OF ok, of m4]) auto
    then show ?thesis using one by (simp add: save bit_1_iff)
  qed
qed

end
