(* ===== verification/Trap_Restore.thy ===== *)
theory Trap_Restore
  imports Trap_Save
begin

section \<open>What the trap exit restores\<close>

text \<open>
  Any saved frame can be restored, not only the one of the task that was interrupted: the
  scheduler replaces it. The loops that reload and clear frames move back through the register
  file, and leave their scratch registers in the last frame they reach.
\<close>

subsection \<open>The two loops\<close>

lemma masked_base [simp]: "v AND 0xF = (of_nat (unat v mod 16) :: u32)"
proof -
  have "v AND 0xF = take_bit 4 v" by (simp add: take_bit_eq_mask mask_eq_exp_minus_1)
  then show ?thesis by (simp add: word_unat_eq_iff take_bit_eq_mod unat_mod)
qed

lemma rotw_base [simp]: "sreg (exec (ROTW n) x) Windowbase = of_nat (wbase (exec (ROTW n) x))"
  by (simp add: exec.simps(23) sr_mask_def del: wbase_rotw)

lemma restore_body_regs:
  defines "x1 \<equiv> \<lambda>x. exec_block restore_body x"
  shows "wbase (x1 x) = (wbase x + 15) mod 16" "reg 2 (x1 x) = reg 2 x - 1" "reg 3 (x1 x) = reg 3 x - 16"
    "xmem (x1 x) = xmem x" "same_srs x (x1 x)" "sreg (x1 x) Windowbase = of_nat (wbase (x1 x))"
    "k < 62 \<Longrightarrow> view (wbase x) (x1 x) k = (if k < 4 then fw (reg 3 x) (xmem x) (60 + k) else view (wbase x) x k)"
proof -
  note d = x1_def restore_body_def TASK_REGS_AR_END_def
  have w: "load32 (xmem x) (reg 3 x - 16 + c) = fw (reg 3 x) (xmem x) (60 + k)" if "c - 16 = of_nat (240 + 4 * k)" for c k
  proof -
    have "reg 3 x - 16 + c = reg 3 x + (c - 16)" by simp
    then show ?thesis unfolding fw_def that by (simp add: algebra_simps)
  qed
  have v: "k < 62 \<Longrightarrow> view (wbase x) (x1 x) k =
    (if k = 3 then load32 (xmem x) (reg 3 x - 16 + 268) else if k = 2 then load32 (xmem x) (reg 3 x - 16 + 264)
     else if k = 1 then load32 (xmem x) (reg 3 x - 16 + 260) else if k = 0 then load32 (xmem x) (reg 3 x - 16 + 256)
     else view (wbase x) x k)"
    unfolding d by (simp, simp add: reg_def)
  have "k < 4 \<Longrightarrow> k = 0 \<or> k = 1 \<or> k = 2 \<or> k = 3" by linarith
  then show "k < 62 \<Longrightarrow> view (wbase x) (x1 x) k = (if k < 4 then fw (reg 3 x) (xmem x) (60 + k) else view (wbase x) x k)"
    using v w [of 256 0] w [of 260 1] w [of 264 2] w [of 268 3] by (cases "k < 4") auto
qed (simp_all add: x1_def restore_body_def same_srs_def, simp_all add: reg_def)


lemma view_next: "view ((b + 1) mod 16) y i = view b y (i + 4)"
  unfolding view_mod(2) view_shift by (simp add: add.commute)

lemma view_wrap: "60 \<le> i \<Longrightarrow> i < 64 \<Longrightarrow> view b y (i + 4) = view b y (i - 60)"
proof -
  assume "60 \<le> i" "i < 64"
  then have "(i + 4) mod 64 = i - 60" by (simp add: le_mod_geq)
  then show ?thesis using view_mod(1) [of b y "i + 4"] by simp
qed

lemma base_back: "0 < n \<Longrightarrow> n \<le> 15 \<Longrightarrow> ((b + 15) mod 16 + (16 - n)) mod 16 = (b + (16 - Suc n)) mod 16"
proof -
  assume "0 < n" "n \<le> 15"
  then have "b + 15 + (16 - n) = b + (16 - Suc n) + 16" by simp
  then show ?thesis unfolding mod_add_left_eq by (simp only: mod_add_self2)
qed

text \<open>
  Seen from the frame after \<open>b\<close>, the last \<open>n\<close> frames hold the words \<open>w\<close> and the registers below,
  up to a few the loop uses itself, are as before.
\<close>

definition filled :: "nat \<Rightarrow> nat \<Rightarrow> nat \<Rightarrow> (nat \<Rightarrow> u32) \<Rightarrow> xtensa \<Rightarrow> xtensa \<Rightarrow> bool" where
  "filled c b n w x y \<longleftrightarrow> (\<forall>i < 64. 64 - 4 * n \<le> i \<longrightarrow> view b y (i + 4) = w i) \<and>
     (\<forall>i < c - 4 * n. view b y (i + 4) = view b x (i + 4))"

lemma filled_one:
  assumes "\<And>k. k < c \<Longrightarrow> view b y k = (if k < 4 then w (60 + k) else view b x k)" "60 \<le> c"
  shows "filled c b 1 w x y"
proof -
  have "view b y (i + 4) = w i" if "60 \<le> i" "i < 64" for i
  proof -
    have "i - 60 < 4" "60 + (i - 60) = i" using that by linarith+
    then show ?thesis using assms(1) [of "i - 60"] assms(2) view_wrap [OF that] by simp
  qed
  then show ?thesis using assms(1) by (auto simp: filled_def)
qed

lemma filled_step:
  assumes one: "filled c b 1 w x y" and rest: "filled c ((b + 15) mod 16) n w' y z"
    and w: "\<And>i. i < 60 \<Longrightarrow> w' (i + 4) = w i" and n: "n \<le> 14" "62 \<le> c"
  shows "filled c b (Suc n) w x z"
  unfolding filled_def
proof (intro conjI allI impI)
  note rest = rest [unfolded filled_def view_back]
  fix i
  show "view b z (i + 4) = view b x (i + 4)" if "i < c - 4 * Suc n"
    using rest one that by (simp add: filled_def)
  show "view b z (i + 4) = w i" if "i < 64" "64 - 4 * Suc n \<le> i"
  proof (cases "i < 60")
    case True
    then show ?thesis using rest that w by simp
  next
    case False
    have "view b z (i + 4) = view b y (i - 60)"
      using False rest that n by (simp add: view_wrap)
    also have "\<dots> = view b y (i + 4)" using view_wrap [of i] that(1) False by simp
    also have "\<dots> = w i" using one that(1) False by (simp add: filled_def)
    finally show ?thesis .
  qed
qed

lemma restore_loop_ok:
  assumes "reg 2 x = of_nat n" "0 < n" "n \<le> 15"
  shows "\<exists>x'. restore_loop x = Some x' \<and> wbase x' = (wbase x + (16 - n)) mod 16 \<and> same_srs x x' \<and> xmem x' = xmem x \<and>
    sreg x' Windowbase = of_nat (wbase x') \<and> filled 62 (wbase x) n (fw (reg 3 x) (xmem x)) x x'"
  using assms
proof (induction n arbitrary: x)
  case (Suc n)
  define x1 where "x1 = exec_block restore_body x"
  note b = restore_body_regs [where x = x, folded x1_def]
  have r2: "reg 2 x1 = of_nat n" using b(2) Suc.prems(1) by simp
  have one: "filled 62 (wbase x) 1 (fw (reg 3 x) (xmem x)) x x1" by (rule filled_one) (simp_all add: b)
  show ?case
  proof (cases "n = 0")
    case True
    then have "restore_loop x = Some x1" using r2 by (simp add: restore_loop.simps [of x] flip: x1_def)
    then show ?thesis using b(1,4,5,6) one True by simp
  next
    case False
    have n: "0 < n" "n \<le> 15" using False Suc.prems by simp_all
    have "reg 2 x1 \<noteq> 0" using r2 count_nonzero [of n] n by simp
    then have l: "restore_loop x = restore_loop x1" by (simp add: restore_loop.simps [of x] flip: x1_def)
    obtain x' where x': "restore_loop x1 = Some x'" "wbase x' = (wbase x1 + (16 - n)) mod 16" "same_srs x1 x'" "xmem x' = xmem x1"
      "sreg x' Windowbase = of_nat (wbase x')"
      "filled 62 (wbase x1) n (fw (reg 3 x1) (xmem x1)) x1 x'"
      using Suc.IH [OF r2 n] by (elim exE conjE)
    have "filled 62 (wbase x) (Suc n) (fw (reg 3 x) (xmem x)) x x'"
      using Suc.prems(3) unfolding b(4) by (intro filled_step [OF one x'(6) [unfolded b(1,3,4)]]) (simp_all add: fw_back)
    moreover have "wbase x' = (wbase x + (16 - Suc n)) mod 16" unfolding x'(2) b(1) by (rule base_back [OF n])
    moreover have "same_srs x x'" using b(5) x'(3) by (simp add: same_srs_def)
    ultimately show ?thesis using l x'(1,4,5) b(4) by simp
  qed
qed simp

lemma zero_body_regs:
  defines "x1 \<equiv> \<lambda>x. exec_block zero_body x"
  shows "wbase (x1 x) = (wbase x + 15) mod 16" "reg 3 (x1 x) = reg 3 x - 1"
    "xmem (x1 x) = xmem x" "same_srs x (x1 x)" "sreg (x1 x) Windowbase = of_nat (wbase (x1 x))"
    "k < 63 \<Longrightarrow> view (wbase x) (x1 x) k = (if k < 4 then 0 else view (wbase x) x k)"
proof -
  have "k < 4 \<Longrightarrow> k = 0 \<or> k = 1 \<or> k = 2 \<or> k = 3" by linarith
  then show "k < 63 \<Longrightarrow> view (wbase x) (x1 x) k = (if k < 4 then 0 else view (wbase x) x k)"
    unfolding x1_def zero_body_def by (auto simp: reg_def)
qed (simp_all add: x1_def zero_body_def same_srs_def, simp_all add: reg_def)

lemma sint_small: "n < 32 \<Longrightarrow> sint (of_nat n :: u32) = int n"
proof -
  assume n: "n < 32"
  then have "uint (of_nat n :: u32) = int n" by (simp add: take_bit_nat_eq_self unsigned_of_nat)
  then show ?thesis using n by (simp add: sint_uint signed_take_bit_int_eq_self)
qed

lemma zero_loop_ok:
  assumes "reg 3 x = of_nat n" "0 < n" "n \<le> 15"
  shows "\<exists>x'. zero_loop x = Some x' \<and> wbase x' = (wbase x + (16 - n)) mod 16 \<and> same_srs x x' \<and> xmem x' = xmem x \<and>
    sreg x' Windowbase = of_nat (wbase x') \<and> filled 63 (wbase x) n (\<lambda>i. 0) x x'"
  using assms
proof (induction n arbitrary: x)
  case (Suc n)
  define x1 where "x1 = exec_block zero_body x"
  note b = zero_body_regs [where x = x, folded x1_def]
  have r3: "reg 3 x1 = of_nat n" using b(2) Suc.prems(1) by simp
  have one: "filled 63 (wbase x) 1 (\<lambda>i. 0) x x1" by (rule filled_one) (simp_all add: b)
  show ?case
  proof (cases "n = 0")
    case True
    then have "zero_loop x = Some x1" using r3 by (simp add: zero_loop.simps [of x] flip: x1_def)
    then show ?thesis using b(1,3,4,5) one True by simp
  next
    case False
    have n: "0 < n" "n \<le> 15" using False Suc.prems by simp_all
    have "1 \<le> sint (reg 3 x1)" using r3 sint_small [of n] n by simp
    then have l: "zero_loop x = zero_loop x1" by (simp add: zero_loop.simps [of x] flip: x1_def)
    obtain x' where x': "zero_loop x1 = Some x'" "wbase x' = (wbase x1 + (16 - n)) mod 16" "same_srs x1 x'" "xmem x' = xmem x1"
      "sreg x' Windowbase = of_nat (wbase x')"
      "filled 63 (wbase x1) n (\<lambda>i. 0) x1 x'"
      using Suc.IH [OF r3 n] by (elim exE conjE)
    have "filled 63 (wbase x) (Suc n) (\<lambda>i. 0) x x'"
      using Suc.prems(3) by (intro filled_step [OF one x'(6) [unfolded b(1)]]) simp_all
    moreover have "wbase x' = (wbase x + (16 - Suc n)) mod 16" unfolding x'(2) b(1) by (rule base_back [OF n])
    moreover have "same_srs x x'" using b(4) x'(3) by (simp add: same_srs_def)
    ultimately show ?thesis using l x'(1,4,5) b(3) by simp
  qed
qed simp

subsection \<open>Clearing what was not restored\<close>

lemma take_bit_diff_base:
  assumes "w = (b + k) mod 16" "k < 16" "b < 16"
  shows "take_bit 4 (of_nat w - of_nat b) = (of_nat k :: u32)"
proof (cases "b + k < 16")
  case True
  then show ?thesis using assms by (simp add: word_unat_eq_iff take_bit_eq_mod unat_mod)
next
  case False
  then have w: "w + 16 = b + k" using assms by (simp add: le_mod_geq)
  have "(of_nat w - of_nat b :: u32) = of_nat (w + 16) - of_nat b - 16" by simp
  also have "\<dots> = of_nat (4294967280 + k)" unfolding w by simp
  finally have "unat (of_nat w - of_nat b :: u32) = 4294967280 + k"
    by (simp only:) (rule unat_of_nat_small, use assms(2) in simp)
  then have "unat (of_nat w - of_nat b :: u32) mod 16 = k" using assms(2) by (simp add: mod_add_eq [symmetric])
  then show ?thesis using assms(2) by (simp add: word_unat_eq_iff take_bit_eq_mod unat_mod)
qed

lemma clear_rest_ok:
  assumes w: "wbase x = (B + (15 - n)) mod 16" and n: "n \<le> 14" and B: "B < 16"
    and s: "sreg x Windowbase = of_nat (wbase x)" "sreg x Excsave1 = of_nat B"
  shows "\<exists>x'. clear_rest x = Some x' \<and> wbase x' = B mod 16 \<and> same_srs x x' \<and> xmem x' = xmem x \<and>
    (\<forall>k < 64. k \<noteq> 3 \<longrightarrow> view B x' k = (if 4 \<le> k \<and> k < 64 - 4 * n then 0 else view B x k))"
proof -
  define y where "y = exec_block [RSR Windowbase 0, RSR Excsave1 3, SUB 3 0 3] x"
  define z where "z = exec (EXTUI 3 3 0 4) y"
  have y3: "reg 3 y = of_nat (wbase x) - of_nat B" by (simp add: y_def s)
  have t: "take_bit 4 (reg 3 y) = of_nat (15 - n)" unfolding y3 by (rule take_bit_diff_base [OF w]) (use n B in simp_all)
  moreover have "(of_nat (15 - n) :: u32) \<noteq> 0" using count_nonzero [of "15 - n"] n by simp
  ultimately have nz: "reg 3 y \<noteq> 0" by auto
  have z3: "reg 3 z = of_nat (15 - n)" by (simp add: z_def t)
  have z: "wbase z = wbase x" "xmem z = xmem x" "same_srs x z" by (simp_all add: z_def y_def same_srs_def)
  have vz: "view B z k = view B x k" if "k < 64" "k \<noteq> 60 - 4 * n" "k \<noteq> 63 - 4 * n" for k
  proof -
    have f: "4 * (15 - n) = 60 - 4 * n" "(60 - 4 * n + 3) mod 64 = 63 - 4 * n" using n by simp_all
    show ?thesis unfolding z_def y_def using that by (simp add: view_set_frame [where b = B and f = "15 - n"] w f del: view_set_reg view_set_rotated)
  qed
  obtain x' where x': "zero_loop z = Some x'" "wbase x' = (wbase z + (16 - (15 - n))) mod 16" "same_srs z x'" "xmem x' = xmem z"
    "sreg x' Windowbase = of_nat (wbase x')" "filled 63 (wbase z) (15 - n) (\<lambda>i. 0) z x'"
    using zero_loop_ok [OF z3] n by auto
  have sh: "view (wbase z) v (i + 4) = view B v ((4 * (15 - n) + (i + 4)) mod 64)" for v i
    unfolding z(1) w view_mod view_shift ..
  have views: "view B x' k = (if 4 \<le> k \<and> k < 64 - 4 * n then 0 else view B x k)" if k: "k < 64" "k \<noteq> 3" for k
  proof (cases "k < 64 - 4 * n")
    case True
    then have "(4 * (15 - n) + (k + 4 * n + 4)) mod 64 = k" using n by (simp add: algebra_simps)
    then have e: "view (wbase z) v (k + 4 * n + 4) = view B v k" for v using sh by simp
    show ?thesis
    proof (cases "4 \<le> k")
      case True
      then have "view B x' k = 0"
        using x'(6) \<open>k < 64 - 4 * n\<close> n unfolding filled_def e [symmetric] by simp
      then show ?thesis using True \<open>k < 64 - 4 * n\<close> by simp
    next
      case False
      then have "view B x' k = view B z k"
        using x'(6) k n unfolding filled_def e [symmetric] by simp
      then show ?thesis using False vz [of k] n k by simp
    qed
  next
    case False
    then have "(4 * (15 - n) + (k + 4 * n - 64 + 4)) mod 64 = k" using n k by simp
    then have e: "view (wbase z) v (k + 4 * n - 64 + 4) = view B v k" for v using sh by simp
    define i where "i = k + 4 * n - 64"
    have "i < 63 - 4 * (15 - n)" using k n False by (simp add: i_def)
    then have "view B x' k = view B z k"
      using x'(6) unfolding filled_def e [symmetric, folded i_def] by blast
    then show ?thesis using False vz [of k] k n by simp
  qed
  have "wbase x' = B mod 16"
  proof -
    have "B + (15 - n) + (16 - (15 - n)) = B + 16" using n by simp
    then show ?thesis unfolding x'(2) z(1) w mod_add_left_eq by simp
  qed
  moreover have "clear_rest x = Some x'" using x'(1) nz unfolding clear_rest_def Let_def y_def [symmetric] z_def [symmetric] by simp
  moreover have "same_srs x x'" using z(3) x'(3) by (simp add: same_srs_def)
  ultimately show ?thesis using views x'(4) z(2) by auto
qed

subsection \<open>The current frame and the special registers\<close>

lemma load_ar_ok:
  assumes "\<forall>k \<in> set ks. 1 < k \<and> k < 64"
  shows "xmem (exec_block (load_ar ks) x) = xmem x" "sreg (exec_block (load_ar ks) x) = sreg x" "wbase (exec_block (load_ar ks) x) = wbase x"
    "k < 64 \<Longrightarrow> view (wbase x) (exec_block (load_ar ks) x) k = (if k \<in> set ks then fw (reg 1 x) (xmem x) k else view (wbase x) x k)"
proof -
  have "xmem (exec_block (load_ar ks) x) = xmem x \<and> sreg (exec_block (load_ar ks) x) = sreg x \<and> wbase (exec_block (load_ar ks) x) = wbase x \<and>
    (\<forall>k < 64. view (wbase x) (exec_block (load_ar ks) x) k = (if k \<in> set ks then fw (reg 1 x) (xmem x) k else view (wbase x) x k))"
    using assms
  proof (induction ks arbitrary: x)
    case Nil
    show ?case by (simp add: load_ar_def)
  next
    case (Cons j ks)
    define y where "y = exec (L32I j 1 (TASK_REGS_AR j)) x"
    have step: "exec_block (load_ar (j # ks)) x = exec_block (load_ar ks) y" by (simp add: load_ar_def y_def)
    have "load32 (xmem x) (reg 1 x + TASK_REGS_AR j) = fw (reg 1 x) (xmem x) j"
      by (simp add: fw_def TASK_REGS_AR_def mult.commute)
    then have v: "view (wbase x) y k = (if k = j then fw (reg 1 x) (xmem x) j else view (wbase x) x k)" if "k < 64" for k
      using that Cons.prems by (simp add: y_def)
    have y: "reg 1 y = reg 1 x" "xmem y = xmem x" "sreg y = sreg x" "wbase y = wbase x" using Cons.prems by (auto simp: y_def)
    have "\<forall>k \<in> set ks. 1 < k \<and> k < 64" using Cons.prems by simp
    from Cons.IH [OF this, of y] show ?case unfolding step y using v by simp
  qed
  then show "xmem (exec_block (load_ar ks) x) = xmem x" "sreg (exec_block (load_ar ks) x) = sreg x" "wbase (exec_block (load_ar ks) x) = wbase x"
    "k < 64 \<Longrightarrow> view (wbase x) (exec_block (load_ar ks) x) k = (if k \<in> set ks then fw (reg 1 x) (xmem x) k else view (wbase x) x k)"
    by simp_all
qed

text \<open>The number of frames of the visible window that belong to the current call.\<close>

definition mask_frames :: "u32 \<Rightarrow> nat" where
  "mask_frames w = (if bit w 1 then 1 else if bit w 2 then 2 else if bit w 3 then 3 else 4)"

definition special_restored :: "u32 \<Rightarrow> memory \<Rightarrow> xtensa \<Rightarrow> bool" where
  "special_restored a m x \<longleftrightarrow>
     sreg x Epc1 = fw a m 68 \<and> sreg x Ps = fw a m 69 \<and> sreg x Sar = fw a m 64 AND 0x3F \<and>
     sreg x Lbeg = fw a m 65 \<and> sreg x Lend = fw a m 66 \<and> sreg x Lcount = fw a m 67"

lemma restore_special_ok:
  defines "x1 \<equiv> \<lambda>x. exec_block restore_special x"
  shows "xmem (x1 x) = xmem x" "wbase (x1 x) = wbase x" "sreg (x1 x) Windowstart = sreg x Windowstart"
    "special_restored (reg 1 x) (xmem x) (x1 x)"
    "reg 2 (x1 x) = load16 (xmem x) (reg 1 x + 288)"
    "k < 64 \<Longrightarrow> k \<noteq> 2 \<Longrightarrow> view (wbase x) (x1 x) k = view (wbase x) x k"
  unfolding x1_def restore_special_def frame_offsets
  by (simp_all add: special_restored_def load32_fw sr_mask_def)

lemma restore_window_ok:
  defines "x1 \<equiv> \<lambda>x. restore_window x"
  shows "xmem (x1 x) = xmem x" "wbase (x1 x) = wbase x" "sreg (x1 x) Windowstart = sreg x Windowstart"
    "special_restored (reg 1 x) (xmem x) (x1 x)"
    "k < 64 \<Longrightarrow> k \<noteq> 2 \<Longrightarrow> view (wbase x) (x1 x) k =
       (if 4 \<le> k \<and> k < 4 * mask_frames (load16 (xmem x) (reg 1 x + 288)) then fw (reg 1 x) (xmem x) k
        else view (wbase x) x k)"
proof -
  define y where "y = exec_block restore_special x"
  note s = restore_special_ok [where x = x, folded y_def]
  have r1: "reg 1 y = reg 1 x" using s(6) [of 1] s(2) by (simp add: reg_def)
  define n where "n = mask_frames (reg 2 y)"
  define p q r where "p = [4, 5, 6, 7 :: nat]" and "q = [8, 9, 10, 11 :: nat]" and "r = [12, 13, 14, 15 :: nat]"
  define ks where "ks = (if n = 1 then [] else if n = 2 then p else if n = 3 then p @ q else p @ q @ r)"
  have pqr: "set p = {4..<8}" "set q = {8..<12}" "set r = {12..<16}" by (auto simp: p_def q_def r_def)
  have ap: "load_ar [] = []" "load_ar (as @ bs) = load_ar as @ load_ar bs" for as bs by (simp_all add: load_ar_def)
  have ok: "\<forall>k \<in> set ks. 1 < k \<and> k < 64" by (auto simp: ks_def pqr)
  have keep: "reg 2 (exec_block (load_ar ks') z) = reg 2 z" if "\<forall>k \<in> set ks'. 2 < k \<and> k < 64" for ks' z
    using load_ar_ok(3) [of ks' z] load_ar_ok(4) [of ks' 2 z] that by (fastforce simp: reg_def)
  have set_ks: "k \<in> set ks \<longleftrightarrow> 4 \<le> k \<and> k < 4 * n" for k
    by (auto simp: ks_def n_def mask_frames_def pqr)
  have rw: "restore_window x = exec_block (load_ar ks) y"
    unfolding restore_window_def Let_def y_def [symmetric]
    by (simp add: ks_def n_def mask_frames_def ap keep pqr flip: p_def q_def r_def)
  show "xmem (x1 x) = xmem x" "wbase (x1 x) = wbase x" "sreg (x1 x) Windowstart = sreg x Windowstart"
    "special_restored (reg 1 x) (xmem x) (x1 x)"
    unfolding x1_def rw using load_ar_ok(1-3) [OF ok, of y] s(1-4) by (simp_all add: special_restored_def)
  show "k < 64 \<Longrightarrow> k \<noteq> 2 \<Longrightarrow> view (wbase x) (x1 x) k =
       (if 4 \<le> k \<and> k < 4 * mask_frames (load16 (xmem x) (reg 1 x + 288)) then fw (reg 1 x) (xmem x) k
        else view (wbase x) x k)"
    unfolding x1_def rw using load_ar_ok(4) [OF ok, of k y] s(1,2) s(6) [of k] set_ks [of k] r1 s(5) by (simp add: n_def)
qed

subsection \<open>The whole restore\<close>

text \<open>
  The window base is taken from the frame. \<^verbatim>\<open>excsave1\<close>, which tells the clearing loop where to
  stop, is read from \<^verbatim>\<open>a2\<close> after the switch, so it is the saved base only when that is the
  current one.
\<close>

lemma switch_window_ok:
  assumes B: "B < 16" "fw (reg 1 x) (xmem x) 70 = of_nat B"
  defines "x1 \<equiv> exec_block switch_window x"
  shows "wbase x1 = (B + 15) mod 16" "sreg x1 Windowbase = of_nat (wbase x1)" "xmem x1 = xmem x"
    "sreg x1 Windowstart = fw (reg 1 x) (xmem x) 71 AND 0xFFFF"
    "view B x1 0 = reg 0 x" "view B x1 1 = reg 1 x" "view B x1 2 = load16 (xmem x) (reg 1 x + 290)"
    "wbase x = B \<Longrightarrow> sreg x1 Excsave1 = of_nat B"
    "wbase x \<noteq> B \<Longrightarrow> sreg x1 Excsave1 = view B x 2"
proof -
  define y where "y = exec_block [WSR Excsave1 1, WSR Epc1 0, L32I 2 1 TASK_REGS_WINDOWBASE, L32I 3 1 TASK_REGS_WINDOWSTART,
    WSR Windowstart 3, WSR Windowbase 2, RSYNC] x"
  have y: "wbase y = B" "xmem y = xmem x" "sreg y Excsave1 = reg 1 x" "sreg y Epc1 = reg 0 x"
    "sreg y Windowstart = fw (reg 1 x) (xmem x) 71 AND 0xFFFF"
    unfolding y_def frame_offsets using B by (simp_all add: load32_fw sr_mask_def)
  have x1: "x1 = exec_block [RSR Excsave1 1, RSR Epc1 0, WSR Excsave1 2, L16UI 2 1 TASK_REGS_WINDOWSIZE, ROTW 15] y"
    by (simp add: x1_def switch_window_def y_def)
  show "wbase x1 = (B + 15) mod 16" "sreg x1 Windowbase = of_nat (wbase x1)" "xmem x1 = xmem x"
    "sreg x1 Windowstart = fw (reg 1 x) (xmem x) 71 AND 0xFFFF"
    "view B x1 0 = reg 0 x" "view B x1 1 = reg 1 x" "view B x1 2 = load16 (xmem x) (reg 1 x + 290)"
    unfolding x1 frame_offsets using y by (simp_all add: y)
  have e: "sreg x1 Excsave1 = view B y 2" unfolding x1 by (simp add: reg_def y(1) sr_mask_def)
  show "wbase x = B \<Longrightarrow> sreg x1 Excsave1 = of_nat B"
    unfolding e y_def frame_offsets using B by (simp add: load32_fw)
  show "wbase x \<noteq> B \<Longrightarrow> sreg x1 Excsave1 = view B x 2"
  proof -
    assume ne: "wbase x \<noteq> B"
    define f where "f = (wbase x + 16 - B) mod 16"
    have "B + (wbase x + 16 - B) = wbase x + 16" using B(1) by simp
    then have w: "wbase x = (B + f) mod 16" by (simp add: f_def mod_add_right_eq)
    have "f \<noteq> 0"
    proof
      assume "f = 0"
      then show False using w ne B(1) by simp
    qed
    moreover have "f < 16" by (simp add: f_def)
    ultimately have "(4 * f + 2) mod 64 = 4 * f + 2" "(4 * f + 3) mod 64 = 4 * f + 3" by simp_all
    then show "sreg x1 Excsave1 = view B x 2"
      unfolding e y_def using \<open>f \<noteq> 0\<close> w by (simp add: view_set_frame [where b = B and f = f] del: view_set_reg view_set_rotated)
  qed
qed

text \<open>After the reload loop: \<open>n\<close> frames are loaded, the rest of the file is as before.\<close>

lemma reload_ok:
  assumes B: "B < 16" "fw (reg 1 x) (xmem x) 70 = of_nat B" and n: "n \<le> 15" "load16 (xmem x) (reg 1 x + 290) = of_nat n"
  defines "x1 \<equiv> exec_block switch_window x"
  shows "\<exists>y. restore_full_interrupt_context x = map_option restore_window (clear_rest y) \<and>
    wbase y = (B + (15 - n)) mod 16 \<and> sreg y Windowbase = of_nat (wbase y) \<and> xmem y = xmem x \<and> same_srs x1 y \<and>
    view B y 0 = reg 0 x \<and> view B y 1 = reg 1 x \<and>
    (\<forall>k < 64. 64 - 4 * n \<le> k \<longrightarrow> view B y k = fw (reg 1 x) (xmem x) k)"
proof -
  note s = switch_window_ok [OF B, folded x1_def]
  have up: "reg (k + 4) x1 = view B x1 k" for k
    unfolding reg_def s(1) by (rule view_back)
  have r6: "reg 6 x1 = of_nat n" and r5: "reg 5 x1 = reg 1 x"
    using up [of 2] up [of 1] s(6,7) n(2) by simp_all
  show ?thesis
  proof (cases "n = 0")
    case True
    then have "restore_full_interrupt_context x = map_option restore_window (clear_rest x1)"
      using r6 by (simp add: restore_full_interrupt_context_def flip: x1_def)
    then show ?thesis using s(1-3,5,6) True by (intro exI [of _ x1]) (simp add: same_srs_def)
  next
    case False
    define z where "z = exec_block [MOV 2 6, MOV 3 5] x1"
    have z: "wbase z = wbase x1" "xmem z = xmem x" "sreg z = sreg x1" "reg 2 z = of_nat n" "reg 3 z = reg 1 x"
      using r6 r5 s(3) by (simp_all add: z_def)
    have vz: "view B z k = view B x1 k" if "k < 62" for k
      unfolding z_def using that s(1) by simp
    obtain y where y: "restore_loop z = Some y" "wbase y = (wbase z + (16 - n)) mod 16" "same_srs z y" "xmem y = xmem z"
      "sreg y Windowbase = of_nat (wbase y)" "filled 62 (wbase z) n (fw (reg 3 z) (xmem z)) z y"
      using restore_loop_ok [OF z(4) _ n(1)] False by auto
    note f = y(6) [unfolded filled_def z(1) s(1) view_back z(2,5)]
    have "view B y 0 = reg 0 x" "view B y 1 = reg 1 x"
      using f n(1) vz [of 0] vz [of 1] s(5,6) by simp_all
    moreover have "wbase y = (B + (15 - n)) mod 16"
    proof -
      have "B + 15 + (16 - n) = B + (15 - n) + 16" using n(1) False by simp
      then show ?thesis unfolding y(2) z(1) s(1) mod_add_left_eq by (simp only: mod_add_self2)
    qed
    moreover have "restore_full_interrupt_context x = map_option restore_window (clear_rest y)"
      using r6 y(1) count_nonzero [of n] n(1) False
      by (simp add: restore_full_interrupt_context_def Let_def flip: x1_def z_def del: block_simps)
    moreover have "same_srs x1 y" using y(3) z(3) by (simp add: same_srs_def)
    ultimately show ?thesis using y(4,5) z(2) f by (intro exI [of _ y]) simp
  qed
qed

definition frame_restored :: "u32 \<Rightarrow> memory \<Rightarrow> nat \<Rightarrow> xtensa \<Rightarrow> bool" where
  "frame_restored a m n x \<longleftrightarrow>
     special_restored a m x \<and> xmem x = m \<and> wbase x = unat (fw a m 70) \<and> sreg x Windowstart = fw a m 71 AND 0xFFFF \<and>
     (\<forall>k < 64. 4 \<le> k \<longrightarrow> view (wbase x) x k =
       (if k < 4 * mask_frames (load16 m (a + 288)) \<or> 64 - 4 * n \<le> k then fw a m k else 0))"

lemma restore_ok:
  assumes B: "fw (reg 1 x) (xmem x) 70 = of_nat (wbase x)" and n: "n \<le> 14" "load16 (xmem x) (reg 1 x + 290) = of_nat n"
  shows "\<exists>x'. restore_full_interrupt_context x = Some x' \<and> reg 0 x' = reg 0 x \<and> reg 1 x' = reg 1 x \<and>
    frame_restored (reg 1 x) (xmem x) n x'"
proof -
  let ?B = "wbase x" and ?a = "reg 1 x" and ?m = "xmem x"
  have n15: "n \<le> 15" using n(1) by simp
  note s = switch_window_ok [OF wbase_less B]
  obtain y where y: "restore_full_interrupt_context x = map_option restore_window (clear_rest y)"
    "wbase y = (?B + (15 - n)) mod 16" "sreg y Windowbase = of_nat (wbase y)" "xmem y = ?m" "same_srs (exec_block switch_window x) y"
    "view ?B y 0 = reg 0 x" "view ?B y 1 = ?a" "\<forall>k < 64. 64 - 4 * n \<le> k \<longrightarrow> view ?B y k = fw ?a ?m k"
    using reload_ok [OF wbase_less B n15 n(2)] by (elim exE conjE)
  have e: "sreg y Excsave1 = of_nat ?B" using s(8) y(5) by (simp add: same_srs_def)
  obtain z where z: "clear_rest y = Some z" "wbase z = ?B" "same_srs y z" "xmem z = ?m"
    "\<forall>k < 64. k \<noteq> 3 \<longrightarrow> view ?B z k = (if 4 \<le> k \<and> k < 64 - 4 * n then 0 else view ?B y k)"
    using clear_rest_ok [OF y(2) n(1) wbase_less y(3) e] y(4) by auto
  have z01: "view ?B z 0 = reg 0 x" "view ?B z 1 = ?a" using z(5) y(6,7) n(1) by simp_all
  note w = restore_window_ok [where x = z, unfolded z(2,4)]
  have r1: "reg 1 z = ?a" using z01(2) z(2) by (simp add: reg_def)
  have "reg 0 (restore_window z) = reg 0 x" "reg 1 (restore_window z) = ?a"
    using w(5) [of 0] w(5) [of 1] z01 w(2) by (simp_all add: reg_def)
  moreover have "sreg (restore_window z) Windowstart = fw ?a ?m 71 AND 0xFFFF"
    using w(3) z(3) y(5) s(4) by (simp add: same_srs_def)
  moreover have "view ?B (restore_window z) k =
      (if k < 4 * mask_frames (load16 ?m (?a + 288)) \<or> 64 - 4 * n \<le> k then fw ?a ?m k else 0)" if "k < 64" "4 \<le> k" for k
    using w(5) [of k] z(5) y(8) that unfolding r1 by auto
  moreover have "unat (of_nat ?B :: u32) = ?B" by (rule unat_of_nat_small) (use wbase_less [of x] in linarith)
  ultimately show ?thesis using y(1) z(1) w(1,2,4) r1 B by (auto simp: frame_restored_def)
qed


subsection \<open>Where the restore goes wrong\<close>

text \<open>With fifteen frames to reload, \<^verbatim>\<open>rsr.windowbase a0\<close> is executed in the frame of the return address.\<close>

lemma restore_deep:
  assumes B: "fw (reg 1 x) (xmem x) 70 = of_nat (wbase x)" and n: "load16 (xmem x) (reg 1 x + 290) = 15"
  shows "\<exists>x'. restore_full_interrupt_context x = Some x' \<and> reg 0 x' = of_nat (wbase x)"
proof -
  let ?B = "wbase x"
  have n15: "load16 (xmem x) (reg 1 x + 290) = of_nat 15" using n by simp
  note s = switch_window_ok [OF wbase_less B]
  obtain y where y: "restore_full_interrupt_context x = map_option restore_window (clear_rest y)"
    "wbase y = (?B + (15 - 15)) mod 16" "sreg y Windowbase = of_nat (wbase y)" "same_srs (exec_block switch_window x) y"
    using reload_ok [OF wbase_less B _ n15] by auto
  have e: "sreg y Excsave1 = of_nat ?B" "sreg y Windowbase = of_nat ?B" using s(8) y(2-4) by (simp_all add: same_srs_def)
  then obtain z where z: "clear_rest y = Some z" "reg 0 z = of_nat ?B"
    by (simp add: clear_rest_def)
  have "reg 0 (restore_window z) = reg 0 z"
    using restore_window_ok(2) [of z] restore_window_ok(5) [of 0 z] by (simp add: reg_def)
  then show ?thesis using y(1) z by simp
qed

text \<open>With another task's frame, \<^verbatim>\<open>a2\<close> of that window decides where the clearing ends.\<close>

lemma unat_diff_mod: "w < 16 \<Longrightarrow> unat (of_nat w - g) mod 16 = (w + 16 - unat g mod 16) mod 16" for g :: u32
proof -
  assume w: "w < 16"
  have "unat (of_nat w - g) = (w + (4294967296 - unat g)) mod 4294967296"
  proof -
    have e: "of_nat w - g = of_nat (w + (4294967296 - unat g))"
      using less_imp_le [OF unat_bound32 [of g]] by (simp add: of_nat_diff)
    show ?thesis unfolding e by (simp add: unat_of_nat del: of_nat_add of_nat_diff)
  qed
  then have "unat (of_nat w - g) mod 16 = (w + (4294967296 - unat g)) mod 16"
    by (simp add: mod_mod_cancel)
  moreover have "w + (4294967296 - unat g) = w + 16 - unat g mod 16 + 16 * (268435455 - unat g div 16)"
  proof -
    have "unat g = 16 * (unat g div 16) + unat g mod 16" by simp
    then show ?thesis using unat_bound32 [of g] mod_less_divisor [of 16 "unat g"] by linarith
  qed
  ultimately show ?thesis by (simp only: mod_mult_self2)
qed

lemma clear_rest_base:
  assumes s: "sreg x Windowbase = of_nat (wbase x)"
  defines "t \<equiv> unat (of_nat (wbase x) - sreg x Excsave1) mod 16"
  shows "\<exists>x'. clear_rest x = Some x' \<and>
    wbase x' = (if of_nat (wbase x) = sreg x Excsave1 then wbase x else (wbase x + (16 - max 1 t)) mod 16)"
proof -
  define y where "y = exec_block [RSR Windowbase 0, RSR Excsave1 3, SUB 3 0 3] x"
  define z where "z = exec (EXTUI 3 3 0 4) y"
  have d: "clear_rest x = (if reg 3 y = 0 then Some y else zero_loop z)"
    unfolding clear_rest_def Let_def y_def z_def ..
  have y: "reg 3 y = of_nat (wbase x) - sreg x Excsave1" "wbase y = wbase x" by (simp_all add: y_def s)
  have z: "reg 3 z = of_nat t" "wbase z = wbase x"
    using y by (simp_all add: z_def t_def word_unat_eq_iff take_bit_eq_mod unat_mod)
  show ?thesis
  proof (cases "of_nat (wbase x) = sreg x Excsave1")
    case True
    then show ?thesis using d y by simp
  next
    case False
    then have l: "clear_rest x = zero_loop z" using d y(1) by simp
    show ?thesis
    proof (cases "t = 0")
      case True
      define x1 where "x1 = exec_block zero_body z"
      have "reg 3 x1 = - 1" "wbase x1 = (wbase x + 15) mod 16" using zero_body_regs(1,2) [of z] z True by (simp_all add: x1_def)
      then show ?thesis using l False True by (simp add: zero_loop.simps [of z] flip: x1_def)
    next
      case nz: False
      have "t \<le> 15" using mod_less_divisor [of 16 "unat (of_nat (wbase x) - sreg x Excsave1)"] unfolding t_def by linarith
      then show ?thesis using zero_loop_ok [OF z(1)] nz l False z(2) by (auto simp: max_def)
    qed
  qed
qed

lemma right_stop:
  fixes B r n :: nat
  assumes "B < 16" "r < 16" "n \<le> 13"
  shows "(B + (15 - n)) mod 16 \<noteq> B" "r = (B + (15 - n)) mod 16 \<Longrightarrow> (r + 15) mod 16 \<noteq> B"
proof -
  have "\<forall>B \<in> set [0..<16]. \<forall>n \<in> set [0..<14].
    (B + (15 - n)) mod 16 \<noteq> B \<and> ((B + (15 - n)) mod 16 + 15) mod 16 \<noteq> (B :: nat)"
    by code_simp
  from this [THEN bspec, of B, THEN bspec, of n]
  show "(B + (15 - n)) mod 16 \<noteq> B" "r = (B + (15 - n)) mod 16 \<Longrightarrow> (r + 15) mod 16 \<noteq> B"
    using assms by simp_all
qed

lemma clear_target:
  fixes w r :: nat
  assumes "w < 16" "r < 16"
  shows "(w + (16 - max 1 ((w + 16 - r) mod 16))) mod 16 = (if r = w then (w + 15) mod 16 else r)"
proof -
  have "\<forall>w \<in> set [0..<16]. \<forall>r \<in> set [0..<16].
    (w + (16 - max 1 ((w + 16 - r) mod 16))) mod 16 = (if r = w then (w + 15) mod 16 else (r :: nat))"
    by code_simp
  from this [THEN bspec, of w, THEN bspec, of r] show ?thesis using assms by simp
qed

text \<open>
  The window base after a restore to another window: the reload leaves the window \<open>n + 1\<close> frames below the saved one,
  and the clearing goes from there down to the frame that \<^verbatim>\<open>a2\<close> of the saved window names.
\<close>

definition stopped_base :: "nat \<Rightarrow> nat \<Rightarrow> u32 \<Rightarrow> nat" where
  "stopped_base B n g =
     (let w = (B + (15 - n)) mod 16 in
      if g = of_nat w then w else if unat g mod 16 = w then (w + 15) mod 16 else unat g mod 16)"

lemma stopped_base_right: "B < 16 \<Longrightarrow> n \<le> 13 \<Longrightarrow> stopped_base B n g = B \<longleftrightarrow> unat g mod 16 = B"
  using right_stop [of B "unat g mod 16" n] by (auto simp: stopped_base_def Let_def)

lemma restore_other_base:
  assumes B: "B < 16" "fw (reg 1 x) (xmem x) 70 = of_nat B" "wbase x \<noteq> B"
    and n: "n \<le> 15" "load16 (xmem x) (reg 1 x + 290) = of_nat n"
  shows "\<exists>x'. restore_full_interrupt_context x = Some x' \<and> wbase x' = stopped_base B n (view B x 2)"
proof -
  note s = switch_window_ok [OF B(1,2)]
  obtain y where y: "restore_full_interrupt_context x = map_option restore_window (clear_rest y)"
    "wbase y = (B + (15 - n)) mod 16" "sreg y Windowbase = of_nat (wbase y)" "same_srs (exec_block switch_window x) y"
    using reload_ok [OF B(1,2) n] by auto
  have e: "sreg y Excsave1 = view B x 2" using s(9) y(4) B(3) by (simp add: same_srs_def)
  obtain z where z: "clear_rest y = Some z" "wbase z = (if of_nat (wbase y) = view B x 2 then wbase y
      else (wbase y + (16 - max 1 ((wbase y + 16 - unat (view B x 2) mod 16) mod 16))) mod 16)"
    using clear_rest_base [OF y(3)] unfolding e unat_diff_mod [OF wbase_less] by auto
  have "unat (view B x 2) mod 16 < 16" by (rule mod_less_divisor) simp
  from z(2) [unfolded clear_target [OF wbase_less [of y] this]]
  have "wbase z = stopped_base B n (view B x 2)"
    unfolding stopped_base_def Let_def y(2) [symmetric] eq_commute [of "view B x 2"] by simp
  then show ?thesis using y(1) z(1) restore_window_ok(2) [of z] by auto
qed

end
