(* ===== verification/Trap_Correct.thy ===== *)
theory Trap_Correct
  imports Trap_Restore
begin

section \<open>A trap from entry to exit\<close>

text \<open>
  The entry code, the save, the call of a C handler, the restore and the exit code in sequence.
  The handler is any function that comes back to the window it was called in and leaves the
  saved frame alone.
\<close>

text \<open>The frame lies at the top of the kernel stack of the core, which a bit of \<^verbatim>\<open>prid\<close> names.\<close>

definition kernel_frame :: "trap_symbols \<Rightarrow> xtensa \<Rightarrow> u32" where
  "kernel_frame ld x =
     load32 (xmem x) (4 * take_bit 1 (drop_bit 13 (sreg x Prid)) + g_kernel_stacks ld) - of_nat TASK_REGS_SIZE"

definition frame_bytes :: "u32 \<Rightarrow> memory \<Rightarrow> memory \<Rightarrow> bool" where
  "frame_bytes a m m' \<longleftrightarrow> (\<forall>y \<in> region a TASK_REGS_SIZE. m' y = m y)"

text \<open>The contract of the C handlers, whose calling convention is the compiler's.\<close>

definition handler_returns :: "(xtensa \<Rightarrow> xtensa run) \<Rightarrow> nat \<Rightarrow> u32 \<Rightarrow> bool" where
  "handler_returns handler b a \<longleftrightarrow> (\<forall>y. wbase y = b \<and> reg 1 y = a \<longrightarrow>
     (\<exists>z. handler y = Inr z \<and> wbase z = b \<and> reg 1 z = a \<and> frame_bytes a (xmem y) (xmem z)))"

lemma frame_bytes_trans: "frame_bytes a m m' \<Longrightarrow> frame_bytes a m' m'' \<Longrightarrow> frame_bytes a m m''"
  by (simp add: frame_bytes_def)

lemma frame_bytes_words:
  assumes "frame_bytes a m m'"
  shows "j < 73 \<Longrightarrow> fw a m' j = fw a m j"
    "d = 288 \<or> d = 290 \<Longrightarrow> load16 m' (a + d) = load16 m (a + d)"
proof -
  have b: "m' y = m y" if "unat (y - a) < 292" for y
    using assms that by (simp add: frame_bytes_def region_def TASK_REGS_SIZE_def)
  show "d = 288 \<or> d = 290 \<Longrightarrow> load16 m' (a + d) = load16 m (a + d)"
    by (intro load16_cong b) (auto simp: add.assoc)
  show "fw a m' j = fw a m j" if j: "j < 73"
    unfolding fw_def
  proof (rule load32_cong)
    fix y assume "y \<in> region (a + of_nat (4 * j)) 4"
    then obtain i where i: "i < 4" "y = a + of_nat (4 * j) + of_nat i"
      by (intro that [of "unat (y - (a + of_nat (4 * j)))"]) (simp_all add: region_def)
    have "y - a = of_nat (4 * j + i)" by (simp add: i)
    moreover have "unat (of_nat (4 * j + i) :: u32) = 4 * j + i" by (rule unat_of_nat_small) (use j i in linarith)
    ultimately have "unat (y - a) = 4 * j + i" by (simp del: of_nat_add)
    then show "m' y = m y" using b i j by simp
  qed
qed

lemma user_exception_mem:
  "xmem (exec_block (user_exception ld) x) =
     store32 (kernel_frame ld x + 12) (view (wbase x) x 3) (store32 (kernel_frame ld x + 8) (view (wbase x) x 2)
       (store32 (kernel_frame ld x + 4) (view (wbase x) x 1) (store32 (kernel_frame ld x + 0) (view (wbase x) x 0) (xmem x))))"
  unfolding user_exception_def TASK_REGS_AR_def by (simp add: sr_mask_def kernel_frame_def, simp add: reg_def)

lemma user_exception_ok:
  defines "x1 \<equiv> \<lambda>ld x. exec_block (user_exception ld) x"
  shows "wbase (x1 ld x) = wbase x" "reg 1 (x1 ld x) = kernel_frame ld x"
    "3 \<le> k \<Longrightarrow> k < 64 \<Longrightarrow> view (wbase x) (x1 ld x) k = view (wbase x) x k"
    "r \<noteq> Excsave1 \<Longrightarrow> r \<noteq> Depc \<Longrightarrow> sreg (x1 ld x) r = sreg x r"
    "j < 72 \<Longrightarrow> fw (kernel_frame ld x) (xmem (x1 ld x)) j = (if j < 4 then view (wbase x) x j else fw (kernel_frame ld x) (xmem x) j)"
    "load16 (xmem (x1 ld x)) (kernel_frame ld x + 290) = load16 (xmem x) (kernel_frame ld x + 290)"
proof -
  have a: "load32 (xmem x) (4 * take_bit (Suc 0) (drop_bit 13 (sreg x Prid)) + g_kernel_stacks ld) + - of_nat TASK_REGS_SIZE = kernel_frame ld x"
    by (simp add: kernel_frame_def)
  note d = x1_def user_exception_def TASK_REGS_AR_def
  show "wbase (x1 ld x) = wbase x" "reg 1 (x1 ld x) = kernel_frame ld x"
    "3 \<le> k \<Longrightarrow> k < 64 \<Longrightarrow> view (wbase x) (x1 ld x) k = view (wbase x) x k"
    "r \<noteq> Excsave1 \<Longrightarrow> r \<noteq> Depc \<Longrightarrow> sreg (x1 ld x) r = sreg x r"
    unfolding d by (simp_all add: kernel_frame_def)
  note m = x1_def user_exception_mem
  have "j < 4 \<Longrightarrow> j = 0 \<or> j = 1 \<or> j = 2 \<or> j = 3" by linarith
  then show "j < 72 \<Longrightarrow> fw (kernel_frame ld x) (xmem (x1 ld x)) j = (if j < 4 then view (wbase x) x j else fw (kernel_frame ld x) (xmem x) j)"
    unfolding m by (auto simp del: add_0_right)
  show "load16 (xmem (x1 ld x)) (kernel_frame ld x + 290) = load16 (xmem x) (kernel_frame ld x + 290)"
    unfolding m by (simp add: load16_store32 del: add_0_right)
qed

subsection \<open>Up to the restore\<close>

definition frame_word :: "trap_symbols \<Rightarrow> xtensa \<Rightarrow> nat \<Rightarrow> u32" where
  "frame_word ld x j =
     (if 64 \<le> j then special_word x j else if live_reg x j then view (wbase x) x j
      else fw (kernel_frame ld x) (xmem x) j)"

definition window_count :: "trap_symbols \<Rightarrow> xtensa \<Rightarrow> u32" where
  "window_count ld x =
     (if outer x < 16 then of_nat (16 - outer x) else load16 (xmem x) (kernel_frame ld x + 290))"

lemma same_window_state:
  assumes "wbase y = wbase x" "\<forall>r. r \<noteq> Excsave1 \<and> r \<noteq> Depc \<longrightarrow> sreg y r = sreg x r"
  shows "live_frame y = live_frame x" "outer y = outer x" "live_reg y = live_reg x" "windows_ok y = windows_ok x"
    "64 \<le> j \<Longrightarrow> j < 72 \<Longrightarrow> special_word y j = special_word x j"
proof -
  show l: "live_frame y = live_frame x" using assms by (simp add: live_frame_def fun_eq_iff)
  then show o: "outer y = outer x" by (simp add: outer_def)
  then show "live_reg y = live_reg x" by (simp add: live_reg_def fun_eq_iff)
  show "windows_ok y = windows_ok x" using assms l by (simp add: windows_ok_def)
  show "special_word y j = special_word x j" if "64 \<le> j" "j < 72"
    using eight [OF that] assms(2) by (auto simp: special_word_def)
qed

lemma call0_keeps:
  "f (set_reg 0 ra x) = Some y \<Longrightarrow> reg 0 y = ra \<Longrightarrow> call0 ra f x = Inr y"
  by (simp add: call0_def)

lemma exceptions_ok:
  "call0 ra (Some \<circ> exec_block enable_kernel_exceptions) x = Inr (exec_block enable_kernel_exceptions (set_reg 0 ra x))"
  "call0 ra (Some \<circ> exec_block disable_kernel_exceptions) x = Inr (exec_block disable_kernel_exceptions (set_reg 0 ra x))"
  "wbase (exec_block enable_kernel_exceptions x) = wbase x" "xmem (exec_block enable_kernel_exceptions x) = xmem x"
  "k < 2 \<Longrightarrow> reg k (exec_block enable_kernel_exceptions x) = reg k x"
  "wbase (exec_block disable_kernel_exceptions x) = wbase x" "xmem (exec_block disable_kernel_exceptions x) = xmem x"
  "k < 2 \<Longrightarrow> reg k (exec_block disable_kernel_exceptions x) = reg k x"
  by (simp_all add: call0_def enable_kernel_exceptions_def disable_kernel_exceptions_def)

lemma trap_reaches_exit:
  assumes ok: "windows_ok x"
    and h: "handler_returns handler (wbase x) (kernel_frame ld x)"
  shows "\<exists>y. trap_body ld handler (exec_block (user_exception ld) x) =
      andthen (call0 (return_address ld 3) restore_full_interrupt_context y) (\<lambda>z. Inr (exec_block (return_from_trap ld) z)) \<and>
    wbase y = wbase x \<and> reg 1 y = kernel_frame ld x \<and>
    (\<forall>j < 72. fw (kernel_frame ld x) (xmem y) j = frame_word ld x j) \<and>
    load16 (xmem y) (kernel_frame ld x + 288) = rotated (sreg x Windowstart) (sreg x Windowbase) \<and>
    load16 (xmem y) (kernel_frame ld x + 290) = window_count ld x"
proof -
  let ?a = "kernel_frame ld x"
  define x1 where "x1 = set_reg 0 (return_address ld 0) (exec_block (user_exception ld) x)"
  have x1: "wbase x1 = wbase x" "reg 1 x1 = ?a" "reg 0 x1 = return_address ld 0" "xmem x1 = xmem (exec_block (user_exception ld) x)"
    "sreg x1 = sreg (exec_block (user_exception ld) x)"
    "\<And>k. 3 \<le> k \<Longrightarrow> k < 64 \<Longrightarrow> view (wbase x) x1 k = view (wbase x) x k"
    using user_exception_ok(1-4) [where ld = ld and x = x] by (simp_all add: x1_def)
  have sr: "\<forall>r. r \<noteq> Excsave1 \<and> r \<noteq> Depc \<longrightarrow> sreg x1 r = sreg x r"
    unfolding x1(5) using user_exception_ok(4) by blast
  note same = same_window_state [OF x1(1) sr]
  obtain x2 where x2: "save_full_interrupt_context x1 = Some x2" "frame_saved x1 x2"
    using save_ok same(4) ok by blast
  note s = x2(2) [unfolded frame_saved_def x1(1,2,3) same(2,3)]
  have words: "fw ?a (xmem x2) j = frame_word ld x j" if "j < 72" for j
    using s same(5) x1(4,6) user_exception_ok(5) [OF that, where ld = ld and x = x] that outer_less(1) [of x]
    by (auto simp: frame_word_def live_reg_def)
  have halves: "load16 (xmem x2) (?a + 288) = rotated (sreg x Windowstart) (sreg x Windowbase)"
    "load16 (xmem x2) (?a + 290) = window_count ld x"
    using s x1(4) sr user_exception_ok(6) [where ld = ld and x = x] by (simp_all add: window_count_def)
  have c1: "call0 (return_address ld 0) save_full_interrupt_context (exec_block (user_exception ld) x) = Inr x2"
    using x2(1) s by (intro call0_keeps) (simp_all add: x1_def)
  define x3 where "x3 = exec (MOV 6 1) (exec_block enable_kernel_exceptions (set_reg 0 (return_address ld 1) x2))"
  have x3: "wbase x3 = wbase x" "reg 1 x3 = ?a" "xmem x3 = xmem x2"
    using s by (simp_all add: x3_def exceptions_ok)
  obtain z where z: "handler x3 = Inr z" "wbase z = wbase x" "reg 1 z = ?a" "frame_bytes ?a (xmem x2) (xmem z)"
    using h x3 by (auto simp: handler_returns_def)
  define y where "y = exec_block disable_kernel_exceptions (set_reg 0 (return_address ld 2) z)"
  have y: "wbase y = wbase x" "reg 1 y = ?a" "xmem y = xmem z" using z by (simp_all add: y_def exceptions_ok)
  have "trap_body ld handler (exec_block (user_exception ld) x) =
      andthen (call0 (return_address ld 3) restore_full_interrupt_context y) (\<lambda>z. Inr (exec_block (return_from_trap ld) z))"
    unfolding trap_body_def c1 using z(1) by (simp add: exceptions_ok(1,2) x3_def y_def)
  then show ?thesis
    using y words halves frame_bytes_words [OF z(4)] by (intro exI [of _ y]) simp
qed

subsection \<open>Back to the program\<close>

lemma unat_wbase [simp]: "unat (of_nat (wbase x) :: u32) = wbase x"
  by (rule unat_of_nat_small) (use wbase_less [of x] in linarith)

lemma return_ok:
  assumes d: "region (reg 1 x) TASK_REGS_SIZE \<inter> region (PIDCTRL_PID_CONFIRM ld) 4 = {}"
  defines "x1 \<equiv> exec_block (return_from_trap ld) x"
  shows "wbase x1 = wbase x" "sreg x1 = sreg x" "frame_bytes (reg 1 x) (xmem x) (xmem x1)"
    "k < 64 \<Longrightarrow> view (wbase x) x1 k = (if k < 4 then fw (reg 1 x) (xmem x) k else view (wbase x) x k)"
proof -
  let ?a = "reg 1 x"
  have m: "xmem x1 = store32 (PIDCTRL_PID_CONFIRM ld) 1 (xmem x)"
    unfolding x1_def return_from_trap_def by simp
  have fb: "frame_bytes ?a (xmem x) (store32 (PIDCTRL_PID_CONFIRM ld) 1 (xmem x))"
    using d by (auto simp: frame_bytes_def intro!: store32_other)
  then show "frame_bytes (reg 1 x) (xmem x) (xmem x1)" unfolding m .
  have w: "load32 (store32 (PIDCTRL_PID_CONFIRM ld) 1 (xmem x)) (?a + TASK_REGS_AR k) = fw ?a (xmem x) k" if "k < 4" for k
    using frame_bytes_words(1) [OF fb, of k] that by (simp add: fw_def TASK_REGS_AR_def mult.commute)
  have "k < 4 \<Longrightarrow> k = 0 \<or> k = 1 \<or> k = 2 \<or> k = 3" by linarith
  then show "k < 64 \<Longrightarrow> view (wbase x) x1 k = (if k < 4 then fw ?a (xmem x) k else view (wbase x) x k)"
    unfolding x1_def return_from_trap_def using w [of 0] w [of 1] w [of 2] w [of 3] by (cases "k < 4") auto
  show "wbase x1 = wbase x" "sreg x1 = sreg x"
    unfolding x1_def return_from_trap_def by simp_all
qed

lemma mask_frames_rotated:
  "windows_ok x \<Longrightarrow> mask_frames (rotated (sreg x Windowstart) (sreg x Windowbase)) = min (outer x) 4"
proof -
  assume ok: "windows_ok x"
  have b: "bit (rotated (sreg x Windowstart) (sreg x Windowbase)) f \<longleftrightarrow> live_frame x f" if "f < 16" for f
    using rotated_live [OF ok] that by simp
  have o: "live_frame x f \<Longrightarrow> 0 < f \<Longrightarrow> outer x \<le> f" for f using before_outer by (meson not_le)
  consider "outer x = 1" | "outer x = 2" | "outer x = 3" | "4 \<le> outer x" using outer_less(1) [of x] by linarith
  then show ?thesis
  proof cases
    case 1
    then show ?thesis using outer_live [of x] b [of 1] by (simp add: mask_frames_def)
  next
    case 2
    then show ?thesis using outer_live [of x] before_outer [of 1 x] b [of 1] b [of 2] by (simp add: mask_frames_def)
  next
    case 3
    then show ?thesis using outer_live [of x] before_outer [of 1 x] before_outer [of 2 x] b [of 1] b [of 2] b [of 3]
      by (simp add: mask_frames_def)
  next
    case 4
    then show ?thesis using before_outer [of 1 x] before_outer [of 2 x] before_outer [of 3 x] b [of 1] b [of 2] b [of 3]
      by (simp add: mask_frames_def)
  qed
qed

lemma frame_word_special:
  "special_restored (kernel_frame ld x) m y \<Longrightarrow> \<forall>j < 72. fw (kernel_frame ld x) m j = frame_word ld x j \<Longrightarrow>
   sreg y Epc1 = sreg x Epc1 \<and> sreg y Ps = sreg x Ps \<and> sreg y Sar = sreg x Sar AND 0x3F \<and>
   sreg y Lbeg = sreg x Lbeg \<and> sreg y Lend = sreg x Lend \<and> sreg y Lcount = sreg x Lcount"
  by (simp add: special_restored_def frame_word_def special_word_def)

lemma windows_base: "windows_ok x \<Longrightarrow> sreg x Windowbase = of_nat (wbase x)"
  by (simp add: windows_ok_def wbase_def word_less_nat_alt word_unat_eq_iff)

lemma windowstart_masked: "windows_ok x \<Longrightarrow> sreg x Windowstart AND 0xFFFF = sreg x Windowstart"
proof -
  assume ok: "windows_ok x"
  have "sreg x Windowstart AND 0xFFFF = take_bit 16 (sreg x Windowstart)" by (simp add: take_bit_eq_mask mask_eq_exp_minus_1)
  also have "\<dots> = sreg x Windowstart"
    using ok bit_small by (intro bit_word_eqI) (auto simp: windows_ok_def bit_take_bit_iff)
  finally show ?thesis .
qed

lemma trap_restored:
  assumes ok: "windows_ok x"
    and h: "handler_returns handler (wbase x) (kernel_frame ld x)"
    and d: "region (kernel_frame ld x) TASK_REGS_SIZE \<inter> region (PIDCTRL_PID_CONFIRM ld) 4 = {}"
    and n: "n \<le> 14" "window_count ld x = of_nat n"
  shows "\<exists>y. trap_body ld handler (exec_block (user_exception ld) x) = Inr y \<and>
    wbase y = wbase x \<and> sreg y Windowstart = sreg x Windowstart \<and> sreg y Epc1 = sreg x Epc1 \<and> sreg y Ps = sreg x Ps \<and>
    sreg y Sar = sreg x Sar AND 0x3F \<and> sreg y Lbeg = sreg x Lbeg \<and> sreg y Lend = sreg x Lend \<and>
    sreg y Lcount = sreg x Lcount \<and>
    (\<forall>k < 64. view (wbase x) y k =
      (if k < 4 * min (outer x) 4 \<or> 64 - 4 * n \<le> k then frame_word ld x k else 0))"
proof -
  let ?a = "kernel_frame ld x"
  obtain y where y: "trap_body ld handler (exec_block (user_exception ld) x) =
      andthen (call0 (return_address ld 3) restore_full_interrupt_context y) (\<lambda>z. Inr (exec_block (return_from_trap ld) z))"
    "wbase y = wbase x" "reg 1 y = ?a" "\<forall>j < 72. fw ?a (xmem y) j = frame_word ld x j"
    "load16 (xmem y) (?a + 288) = rotated (sreg x Windowstart) (sreg x Windowbase)"
    "load16 (xmem y) (?a + 290) = window_count ld x"
    using trap_reaches_exit [OF ok h] by blast
  define y1 where "y1 = set_reg 0 (return_address ld 3) y"
  have y1: "wbase y1 = wbase x" "reg 1 y1 = ?a" "xmem y1 = xmem y" "reg 0 y1 = return_address ld 3"
    using y(2,3) by (simp_all add: y1_def)
  note base = windows_base [OF ok]
  then have f70: "fw (reg 1 y1) (xmem y1) 70 = of_nat (wbase y1)"
    using y(4) y1 by (simp add: frame_word_def special_word_def)
  have n': "load16 (xmem y1) (reg 1 y1 + 290) = of_nat n" using y(6) y1 n(2) by simp
  obtain z where z: "restore_full_interrupt_context y1 = Some z" "reg 0 z = return_address ld 3" "reg 1 z = ?a"
    "frame_restored ?a (xmem y) n z"
    using restore_ok [OF f70 n(1) n'] y1 by auto
  have c: "call0 (return_address ld 3) restore_full_interrupt_context y = Inr z"
    using z(1,2) by (simp add: call0_def flip: y1_def)
  note fr = z(4) [unfolded frame_restored_def]
  have wz: "wbase z = wbase x" using fr y(4) base by (simp add: frame_word_def special_word_def)
  have ws: "sreg z Windowstart = sreg x Windowstart"
    using fr y(4) windowstart_masked [OF ok] by (simp add: frame_word_def special_word_def)
  note r = return_ok [of z ld, unfolded z(3), OF d]
  have views: "view (wbase x) (exec_block (return_from_trap ld) z) k =
      (if k < 4 * min (outer x) 4 \<or> 64 - 4 * n \<le> k then frame_word ld x k else 0)" if "k < 64" for k
    using r(4) [OF that] fr y(4) that wz outer_less(1) [of x] mask_frames_rotated [OF ok] y(5) by auto
  have "trap_body ld handler (exec_block (user_exception ld) x) = Inr (exec_block (return_from_trap ld) z)"
    unfolding y(1) c by simp
  then show ?thesis
    using views r(1,2) wz ws frame_word_special [of ld x "xmem y" z] fr y(4) by auto
qed

text \<open>The reset code leaves the register windows as the trap entry needs them.\<close>

lemma start_ok:
  "windows_ok (exec_block (start_asm vec stack) x)" "outer (exec_block (start_asm vec stack) x) = 16"
  "reg 1 (exec_block (start_asm vec stack) x) = stack + 4096" "sreg (exec_block (start_asm vec stack) x) Vecbase = vec"
proof -
  define y where "y = exec_block (start_asm vec stack) x"
  have w: "wbase y = 0" "sreg y Windowbase = 0" "sreg y Windowstart = 1"
    unfolding y_def start_asm_def by (simp_all add: sr_mask_def)
  have live: "live_frame y f \<longleftrightarrow> f = 0" if "f < 16" for f
    using that by (simp add: live_frame_def w bit_1_iff)
  then show "windows_ok (exec_block (start_asm vec stack) x)" using w by (simp add: windows_ok_def flip: y_def)
  show "outer (exec_block (start_asm vec stack) x) = 16"
    unfolding y_def [symmetric] outer_def live_frame_def w by (simp add: upt_rec bit_1_iff)
  show "reg 1 (exec_block (start_asm vec stack) x) = stack + 4096" "sreg (exec_block (start_asm vec stack) x) Vecbase = vec"
    unfolding start_asm_def by (simp_all add: sr_mask_def)
qed

subsection \<open>A machine to try\<close>

text \<open>Window base 5, the kernel stack at the end of internal memory, a frame left by an earlier trap.\<close>

definition demo_symbols :: trap_symbols where
  "demo_symbols = \<lparr>g_kernel_stacks = 0x3FFB0000, fast_interrupts = 0x3FFB0100, PIDCTRL_PID_CONFIRM = 0x3FF1F04C,
     return_address = (\<lambda>i. 0x40080000 + 3 * of_nat i)\<rparr>"

definition demo_machine :: "u32 \<Rightarrow> xtensa" where
  "demo_machine ws =
     \<lparr>areg = (\<lambda>i. 100 + of_nat i),
      sreg = (\<lambda>r. case r of Windowbase \<Rightarrow> 5 | Windowstart \<Rightarrow> ws | Epc1 \<Rightarrow> 0x400D0123 | Ps \<Rightarrow> 0x50030 | Sar \<Rightarrow> 7
        | Lbeg \<Rightarrow> 0x400D0100 | Lend \<Rightarrow> 0x400D0126 | Lcount \<Rightarrow> 4 | _ \<Rightarrow> 0),
      xmem = (\<lambda>y. if y = 0x3FFB0003 then 0x40 else if y = 0x3FFFFFFE then 3 else 0)\<rparr>"

lemma demo_frame_at: "kernel_frame demo_symbols (demo_machine ws) = 0x3FFFFEDC"
  by (simp add: kernel_frame_def demo_machine_def demo_symbols_def TASK_REGS_SIZE_def load32_def load_bytes_def
    word_of_bytes_def upt_rec)

lemma demo_base: "wbase (demo_machine ws) = 5"
  by (simp add: wbase_def demo_machine_def)

lemma demo_ok: "windows_ok (demo_machine 0x2A)" "windows_ok (demo_machine 0x60)" "windows_ok (demo_machine 0x20)"
  by (simp_all add: windows_ok_def live_frame_def demo_base) (simp_all add: demo_machine_def bit_simps)

lemma demo_outer: "outer (demo_machine 0x2A) = 12" "outer (demo_machine 0x60) = 1" "outer (demo_machine 0x20) = 16"
  unfolding outer_def live_frame_def demo_base by (simp_all add: demo_machine_def upt_rec bit_simps)

definition demo_handler :: "xtensa \<Rightarrow> xtensa run" where
  "demo_handler x = Inr (set_reg 6 42 x)"

lemma demo_handler_ok: "handler_returns demo_handler b a"
  by (simp add: handler_returns_def demo_handler_def frame_bytes_def)

lemma demo_apart:
  "region (kernel_frame demo_symbols (demo_machine ws)) TASK_REGS_SIZE \<inter> region (PIDCTRL_PID_CONFIRM demo_symbols) 4 = {}"
proof -
  have "False" if "unat (y - 0x3FFFFEDC) < 292" "unat (y - 0x3FF1F04C) < 4" for y :: u32
  proof -
    define j where "j = unat (y - 0x3FF1F04C)"
    have "y = 0x3FF1F04C + of_nat j" by (simp add: j_def)
    moreover have "j = 0 \<or> j = 1 \<or> j = 2 \<or> j = 3" using that(2) unfolding j_def by linarith
    ultimately show False using that(1) by (elim disjE) simp_all
  qed
  then show ?thesis unfolding demo_frame_at by (auto simp: region_def demo_symbols_def TASK_REGS_SIZE_def)
qed


subsection \<open>The frame as the C code sees it\<close>

lemma bytes_halves:
  "ucast p OR push_bit 8 (ucast q) OR push_bit 16 (ucast r) OR push_bit 24 (ucast s) =
     (ucast p OR push_bit 8 (ucast q)) OR push_bit 16 (ucast r OR push_bit 8 (ucast s) :: u32)" for p q r s :: u8
  by (intro bit_word_eqI) (auto simp: bit_simps)

lemma load32_halves: "load32 m a = load16 m a OR push_bit 16 (load16 m (a + 2))"
proof -
  have e: "a + 2 + 1 = a + 3" by simp
  have "load32 m a = ucast (m a) OR push_bit 8 (ucast (m (a + 1))) OR push_bit 16 (ucast (m (a + 2))) OR push_bit 24 (ucast (m (a + 3)))"
    by (simp add: load32_def load_bytes_def word_of_bytes_def upt_rec)
  then show ?thesis unfolding load16_def e bytes_halves .
qed

lemma low_word: "ucast (u OR push_bit 16 v) = (ucast u :: u16)" for u v :: u32
  by (intro bit_word_eqI) (auto simp: bit_simps)

lemma high_word: "ucast (drop_bit 16 (load16 m a OR push_bit 16 v)) = (ucast v :: u16)"
proof (rule bit_word_eqI)
  fix n assume "n < LENGTH(16)"
  have "\<not> bit (load16 m a) (16 + n)" unfolding load16_def by (auto simp: bit_simps dest: bit_imp_le_length)
  then show "bit (ucast (drop_bit 16 (load16 m a OR push_bit 16 v)) :: u16) n = bit (ucast v :: u16) n"
    using \<open>n < LENGTH(16)\<close> by (auto simp: bit_simps)
qed

lemma read_regs_frame:
  "read_regs a m =
     \<lparr>ar = map (fw a m) [0..<64], sar = fw a m 64, lbeg = fw a m 65, lend = fw a m 66, lcount = fw a m 67, pc = fw a m 68,
      ps = fw a m 69, windowbase = fw a m 70, windowstart = fw a m 71,
      windowmask = ucast (load16 m (a + 288)), windowsize = ucast (load16 m (a + 290))\<rparr>"
proof -
  have w: "load_words m a 73 = map (fw a m) [0..<73]"
    by (simp add: load_words_def fw_def)
  have "fw a m 72 = load16 m (a + 288) OR push_bit 16 (load16 m (a + 290))"
    using load32_halves [of m "a + 288"] by (simp add: fw_def add.assoc)
  then have h: "ucast (fw a m 72) = (ucast (load16 m (a + 288)) :: u16)"
    "ucast (drop_bit 16 (fw a m 72)) = (ucast (load16 m (a + 290)) :: u16)"
    by (simp_all only: low_word high_word)
  show ?thesis unfolding read_regs_def words_regs_def w using h by (simp add: take_map)
qed

subsection \<open>Properties\<close>

text \<open>C12: The entry code and the save together: the frame on the kernel stack, read as the C handlers read it, holds the special
  registers and every live register of the current window and the outer frames, and keeps its old words for the others; it holds
  the mask of the live frames and, when there are outer frames, their number (else the old one stays); the window, the frame
  pointer and the return address are in place, only the current frame is marked live, and no byte outside the 292 bytes of the
  frame changes.\<close>

theorem save_keeps_live_registers:
  assumes ok: "windows_ok x"
  shows "\<exists>x' r. save_full_interrupt_context (set_reg 0 ra (exec_block (user_exception ld) x)) = Some x' \<and>
    read_regs (kernel_frame ld x) (xmem x') = r \<and>
    pc r = sreg x Epc1 \<and> ps r = sreg x Ps \<and> sar r = sreg x Sar \<and>
    lbeg r = sreg x Lbeg \<and> lend r = sreg x Lend \<and> lcount r = sreg x Lcount \<and>
    windowbase r = sreg x Windowbase \<and> windowstart r = sreg x Windowstart \<and>
    (\<forall>k < 64. ar r ! k = (if live_reg x k then view (wbase x) x k else load32 (xmem x) (kernel_frame ld x + 4 * of_nat k))) \<and>
    (\<forall>f < 16. bit (windowmask r) f \<longleftrightarrow> live_frame x f) \<and>
    windowsize r = (if outer x < 16 then of_nat (16 - outer x) else ucast (load16 (xmem x) (kernel_frame ld x + 290))) \<and>
    wbase x' = wbase x \<and> sreg x' Windowstart = push_bit (wbase x) 1 \<and> reg 0 x' = ra \<and> reg 1 x' = kernel_frame ld x \<and>
    (\<forall>y. 292 \<le> unat (y - kernel_frame ld x) \<longrightarrow> xmem x' y = xmem x y)"
proof -
  let ?e = "exec_block (user_exception ld) x"
  define a where "a = kernel_frame ld x"
  define y where "y = set_reg 0 ra ?e"
  have y: "wbase y = wbase x" "reg 1 y = a" "reg 0 y = ra" "xmem y = xmem ?e" "sreg y = sreg ?e"
    "\<And>k. 4 \<le> k \<Longrightarrow> k < 64 \<Longrightarrow> view (wbase x) y k = view (wbase x) x k"
    using user_exception_ok(1-4) [where ld = ld and x = x] by (simp_all add: y_def a_def)
  have sr: "\<forall>r. r \<noteq> Excsave1 \<and> r \<noteq> Depc \<longrightarrow> sreg y r = sreg x r"
    using user_exception_ok(4) [where ld = ld and x = x] y(5) by simp
  note same = same_window_state [OF y(1) sr]
  obtain x' where x': "save_full_interrupt_context y = Some x'" "frame_saved y x'" using save_ok same(4) ok by blast
  note s = x'(2) [unfolded frame_saved_def y(1,2,3,4) same(2,3)]
  note e = user_exception_ok(5,6) [where ld = ld and x = x, folded a_def]
  define r where "r = read_regs a (xmem x')"
  have word: "ar r ! k = (if live_reg x k then view (wbase x) x k else load32 (xmem x) (a + 4 * of_nat k))" if "k < 64" for k
    using that s e(1) [of k] y(6) [of k] outer_less(1) [of x] by (auto simp: r_def read_regs_frame live_reg_def fw_def)
  have mask: "bit (windowmask r) f \<longleftrightarrow> live_frame x f" if "f < 16" for f
    using s that rotated_live [OF ok, of f] sr by (simp add: r_def read_regs_frame bit_simps)
  have "ucast (of_nat (16 - outer x) :: u32) = (of_nat (16 - outer x) :: u16)"
    by (simp add: unsigned_of_nat take_bit_nat_eq_self del: of_nat_diff)
  then have size: "windowsize r = (if outer x < 16 then of_nat (16 - outer x) else ucast (load16 (xmem x) (a + 290)))"
    using s e(2) by (simp add: r_def read_regs_frame del: of_nat_diff)
  have out: "xmem x' u = xmem x u" if "292 \<le> unat (u - a)" for u
    using that s unfolding user_exception_mem a_def by (simp add: store32_off del: add_0_right)
  show ?thesis
    unfolding y_def [symmetric] a_def [symmetric]
    using x'(1) s sr word mask size out
    by (intro exI [of _ x'] exI [of _ r]) (simp add: r_def read_regs_frame special_word_def)
qed

theorem save_keeps_live_registers_witness:
  "\<exists>x' r. save_full_interrupt_context (set_reg 0 0x40080000 (exec_block (user_exception demo_symbols) (demo_machine 0x2A))) = Some x' \<and>
     read_regs 0x3FFFFEDC (xmem x') = r \<and> ar r ! 1 = 121 \<and> ar r ! 50 = 106 \<and> windowsize r = 4"
proof -
  have "live_reg (demo_machine 0x2A) 50" "live_reg (demo_machine 0x2A) 1" by (simp_all add: live_reg_def demo_outer)
  moreover have "view (wbase (demo_machine 0x2A)) (demo_machine 0x2A) 50 = 106"
    "view (wbase (demo_machine 0x2A)) (demo_machine 0x2A) 1 = 121"
    unfolding demo_base by (simp_all add: view_def demo_machine_def)
  ultimately show ?thesis
    using save_keeps_live_registers [OF demo_ok(1), of "0x40080000" demo_symbols] unfolding demo_frame_at by (auto simp: demo_outer)
qed

text \<open>C5: From the entry of a trap to its end, around any handler that returns and leaves the frame alone, for a program whose
  next live frame is not directly after the current one, and which, if the current frame is the only live one, finds at most
  fourteen in the frame count an earlier trap left: the trap returns, and the program finds all its live registers, its program counter,
  status and loop registers, the six bits of its shift register and its window as they were; when there were outer
  frames, the other registers are zero. (Without the first condition no trap returns; the second is what the reload loop can do.)\<close>

theorem trap_returns_registers:
  assumes ok: "windows_ok x"
    and h: "handler_returns handler (wbase x) (kernel_frame ld x)"
    and d: "region (kernel_frame ld x) TASK_REGS_SIZE \<inter> region (PIDCTRL_PID_CONFIRM ld) 4 = {}"
    and n: "1 < outer x" "outer x = 16 \<Longrightarrow> unat (load16 (xmem x) (kernel_frame ld x + 290)) \<le> 14"
  shows "\<exists>y. trap_body ld handler (exec_block (user_exception ld) x) = Inr y \<and>
    wbase y = wbase x \<and> sreg y Windowstart = sreg x Windowstart \<and> sreg y Epc1 = sreg x Epc1 \<and> sreg y Ps = sreg x Ps \<and>
    sreg y Sar = sreg x Sar AND 0x3F \<and> sreg y Lbeg = sreg x Lbeg \<and> sreg y Lend = sreg x Lend \<and>
    sreg y Lcount = sreg x Lcount \<and>
    (\<forall>k < 64. live_reg x k \<longrightarrow> view (wbase x) y k = view (wbase x) x k) \<and>
    (outer x < 16 \<longrightarrow> (\<forall>k < 64. \<not> live_reg x k \<longrightarrow> view (wbase x) y k = 0))"
proof -
  define n where "n = unat (window_count ld x)"
  have c: "window_count ld x = of_nat n" "n \<le> 14"
    using n outer_less [of x] by (auto simp: n_def window_count_def simp flip: of_nat_diff)
  have o: "outer x < 16 \<Longrightarrow> 64 - 4 * n = 4 * outer x"
    using n(1) by (simp add: n_def window_count_def flip: of_nat_diff)
  have all: "live_reg x k \<longleftrightarrow> k < 4 * min (outer x) 4 \<or> 64 - 4 * n \<le> k" if "outer x < 16" for k
    using o that by (simp add: live_reg_def)
  have six: "live_reg x k \<longleftrightarrow> k < 16" if "\<not> outer x < 16" "k < 64" for k
    using outer_less [of x] that by (auto simp: live_reg_def)
  obtain y where y: "trap_body ld handler (exec_block (user_exception ld) x) = Inr y" "wbase y = wbase x"
    "sreg y Windowstart = sreg x Windowstart" "sreg y Epc1 = sreg x Epc1" "sreg y Ps = sreg x Ps"
    "sreg y Sar = sreg x Sar AND 0x3F" "sreg y Lbeg = sreg x Lbeg" "sreg y Lend = sreg x Lend" "sreg y Lcount = sreg x Lcount"
    "\<forall>k < 64. view (wbase x) y k = (if k < 4 * min (outer x) 4 \<or> 64 - 4 * n \<le> k then frame_word ld x k else 0)"
    using trap_restored [OF ok h d c(2,1)] by (elim exE conjE)
  have "view (wbase x) y k = view (wbase x) x k" if "k < 64" "live_reg x k" for k
  proof (cases "outer x < 16")
    case True
    then show ?thesis using y(10) that all [of k] by (auto simp: frame_word_def)
  next
    case False
    then have "outer x = 16" "k < 16" using outer_less(2) [of x] six [of k] that by simp_all
    then show ?thesis using y(10) that by (auto simp: frame_word_def)
  qed
  moreover have "view (wbase x) y k = 0" if "k < 64" "\<not> live_reg x k" "outer x < 16" for k
    using y(10) that all [of k] by auto
  ultimately show ?thesis using y(1-9) by (intro exI [of _ y]) simp
qed

theorem trap_returns_registers_witness:
  "\<exists>y. trap_body demo_symbols demo_handler (exec_block (user_exception demo_symbols) (demo_machine 0x2A)) = Inr y \<and>
     view 5 y 50 = 106 \<and> view 5 y 20 = 0 \<and> sreg y Lcount = 4"
proof -
  have l: "live_reg (demo_machine 0x2A) 50" "\<not> live_reg (demo_machine 0x2A) 20" by (simp_all add: live_reg_def demo_outer)
  have v: "view 5 (demo_machine 0x2A) 50 = 106" "sreg (demo_machine 0x2A) Lcount = 4"
    by (simp_all add: view_def demo_machine_def)
  have t: "\<exists>y. trap_body demo_symbols demo_handler (exec_block (user_exception demo_symbols) (demo_machine 0x2A)) = Inr y \<and>
    sreg y Lcount = sreg (demo_machine 0x2A) Lcount \<and>
    (\<forall>k < 64. live_reg (demo_machine 0x2A) k \<longrightarrow> view 5 y k = view 5 (demo_machine 0x2A) k) \<and>
    (outer (demo_machine 0x2A) < 16 \<longrightarrow> (\<forall>k < 64. \<not> live_reg (demo_machine 0x2A) k \<longrightarrow> view 5 y k = 0))"
    using trap_returns_registers [OF demo_ok(1) demo_handler_ok demo_apart]
    unfolding demo_outer demo_base by auto
  then show ?thesis using l v by (auto simp: demo_outer)
qed


text \<open>C20: When the frame after the current one still belongs to an outer call, fifteen frames are reloaded, the rotation
  comes back to the current window, and reading the window base overwrites the return address of the restore routine, unless
  that address is itself a window base, below 16: no trap returns.\<close>

theorem trap_loses_return_address:
  assumes ok: "windows_ok x" and o: "outer x = 1"
    and h: "handler_returns handler (wbase x) (kernel_frame ld x)"
    and ra: "16 \<le> return_address ld 3"
  shows "trap_body ld handler (exec_block (user_exception ld) x) = Inl (Undefined ''ret'')"
proof -
  obtain y where y: "trap_body ld handler (exec_block (user_exception ld) x) =
      andthen (call0 (return_address ld 3) restore_full_interrupt_context y) (\<lambda>z. Inr (exec_block (return_from_trap ld) z))"
    "wbase y = wbase x" "reg 1 y = kernel_frame ld x" "\<forall>j < 72. fw (kernel_frame ld x) (xmem y) j = frame_word ld x j"
    "load16 (xmem y) (kernel_frame ld x + 290) = window_count ld x"
    using trap_reaches_exit [OF ok h] by (elim exE conjE)
  define y1 where "y1 = set_reg 0 (return_address ld 3) y"
  have y1: "wbase y1 = wbase x" "reg 1 y1 = kernel_frame ld x" "xmem y1 = xmem y" using y(2,3) by (simp_all add: y1_def)
  have "fw (reg 1 y1) (xmem y1) 70 = of_nat (wbase y1)"
    using y(4) y1 windows_base [OF ok] by (simp add: frame_word_def special_word_def)
  moreover have "load16 (xmem y1) (reg 1 y1 + 290) = 15" using y(5) y1 o by (simp add: window_count_def)
  ultimately obtain z where z: "restore_full_interrupt_context y1 = Some z" "reg 0 z = of_nat (wbase y1)"
    using restore_deep by blast
  have "(of_nat (wbase y1) :: u32) < 16" using wbase_less [of y1] by (simp add: word_less_nat_alt)
  then have "of_nat (wbase y1) \<noteq> return_address ld 3" using ra by auto
  then show ?thesis unfolding y(1) using z by (simp add: call0_def flip: y1_def)
qed

theorem trap_loses_return_address_witness:
  "trap_body demo_symbols demo_handler (exec_block (user_exception demo_symbols) (demo_machine 0x60)) = Inl (Undefined ''ret'')"
  by (rule trap_loses_return_address [OF demo_ok(2) demo_outer(2) demo_handler_ok]) (simp add: demo_symbols_def)



text \<open>C22: Restoring a saved file whose window base is not the current one, as after a switch to another task, with at most
  fifteen frames to reload: the routine ends, but in a window that the third register of the saved window decides, as
  that window finds it. With at most thirteen frames the window is the saved one only if the low four bits of that register happen to
  be its number.\<close>

theorem restore_stops_in_wrong_window:
  assumes B: "B < 16" "fw (reg 1 x) (xmem x) 70 = of_nat B" "wbase x \<noteq> B"
    and n: "n \<le> 15" "load16 (xmem x) (reg 1 x + 290) = of_nat n"
  shows "\<exists>x'. restore_full_interrupt_context x = Some x' \<and> wbase x' = stopped_base B n (view B x 2) \<and>
    (n \<le> 13 \<longrightarrow> (wbase x' = B \<longleftrightarrow> unat (view B x 2) mod 16 = B))"
  using restore_other_base [OF assms] stopped_base_right [OF B(1)] by metis

theorem restore_stops_in_wrong_window_witness:
  "\<exists>x'. restore_full_interrupt_context (demo_machine 0x20) = Some x' \<and> wbase x' \<noteq> 0"
proof -
  have r: "reg 1 (demo_machine 0x20) = 121" by (simp add: reg_def demo_base view_def) (simp add: demo_machine_def)
  have f: "fw (reg 1 (demo_machine 0x20)) (xmem (demo_machine 0x20)) 70 = of_nat 0"
    unfolding r by (simp add: fw_def load32_def load_bytes_def word_of_bytes_def upt_rec demo_machine_def)
  have n: "load16 (xmem (demo_machine 0x20)) (reg 1 (demo_machine 0x20) + 290) = of_nat 0"
    unfolding r by (simp add: load16_def demo_machine_def)
  have "unat (view 0 (demo_machine 0x20) 2) mod 16 \<noteq> 0" by (simp add: view_def demo_machine_def)
  then show ?thesis using restore_stops_in_wrong_window [OF _ f _ _ n] by (auto simp: demo_base)
qed

text \<open>The instruction after the system call, or the start of the loop it ended.\<close>

definition next_pc :: "u32 \<Rightarrow> xtensa \<Rightarrow> u32" where
  "next_pc len x =
     (let pc = sreg x Epc1 + len in if pc = sreg x Lend \<and> sreg x Lcount \<noteq> 0 then sreg x Lbeg else pc)"

text \<open>A system call continues behind its three-byte instruction or, at the end of a hardware loop with turns left, at
  the loop's start with one turn less, as the processor itself would; nothing else changes but two scratch registers.\<close>

theorem syscall_continues_after_instruction:
  "sreg (skip_syscall x) Epc1 = next_pc 3 x \<and>
   sreg (skip_syscall x) Lcount =
     (if sreg x Epc1 + 3 = sreg x Lend \<and> sreg x Lcount \<noteq> 0 then sreg x Lcount - 1 else sreg x Lcount) \<and>
   (\<forall>r. r \<noteq> Epc1 \<and> r \<noteq> Lcount \<longrightarrow> sreg (skip_syscall x) r = sreg x r) \<and> xmem (skip_syscall x) = xmem x \<and>
   (\<forall>k < 64. k \<noteq> 0 \<and> k \<noteq> 2 \<longrightarrow> view (wbase x) (skip_syscall x) k = view (wbase x) x k)"
  by (simp add: skip_syscall_def next_pc_def Let_def sr_mask_def)

theorem syscall_continues_after_instruction_witness:
  "sreg (skip_syscall (demo_machine 0x20)) Epc1 = 0x400D0100 \<and> sreg (skip_syscall (demo_machine 0x20)) Lcount = 3 \<and>
   view 5 (skip_syscall (demo_machine 0x20)) 1 = 121"
proof -
  let ?x = "demo_machine 0x20"
  have n: "next_pc 3 ?x = 0x400D0100" "sreg ?x Epc1 + 3 = sreg ?x Lend" "sreg ?x Lcount = 4" "view 5 ?x 1 = 121"
    by (simp_all add: next_pc_def demo_machine_def view_def)
  from syscall_continues_after_instruction [of ?x] have
    "sreg (skip_syscall ?x) Epc1 = next_pc 3 ?x"
    "sreg (skip_syscall ?x) Lcount = (if sreg ?x Epc1 + 3 = sreg ?x Lend \<and> sreg ?x Lcount \<noteq> 0 then sreg ?x Lcount - 1 else sreg ?x Lcount)"
    "\<forall>k < 64. k \<noteq> 0 \<and> k \<noteq> 2 \<longrightarrow> view (wbase ?x) (skip_syscall ?x) k = view (wbase ?x) ?x k"
    by simp_all
  then show ?thesis using n by (simp add: demo_base)
qed

end
