(* ===== verification/Trap_System.thy ===== *)
theory Trap_System
  imports Trap_Correct Progress Example
begin

section \<open>Traps and the C handlers\<close>

text \<open>
  The assembly and the models of the C handlers put together: what a handler sees is the register
  file of the interrupted program, and the program continues with the file the handler leaves.
\<close>

subsection \<open>The register file a handler sees\<close>

definition trap_exit :: "trap_symbols \<Rightarrow> xtensa \<Rightarrow> xtensa run" where
  "trap_exit ld x =
     andthen (call0 (return_address ld 2) (Some \<circ> exec_block disable_kernel_exceptions) x) (\<lambda>x4.
     andthen (call0 (return_address ld 3) restore_full_interrupt_context x4) (\<lambda>x5.
     Inr (exec_block (return_from_trap ld) x5)))"

definition saved_file :: "xtensa \<Rightarrow> task_regs" where
  "saved_file x =
     \<lparr>ar = map (\<lambda>k. if 4 \<le> k \<and> live_reg x k then view (wbase x) x k else fw (reg 1 x) (xmem x) k) [0..<64],
      sar = sreg x Sar, lbeg = sreg x Lbeg, lend = sreg x Lend, lcount = sreg x Lcount, pc = sreg x Epc1, ps = sreg x Ps,
      windowbase = sreg x Windowbase, windowstart = sreg x Windowstart,
      windowmask = ucast (rotated (sreg x Windowstart) (sreg x Windowbase)),
      windowsize = ucast (if outer x < 16 then of_nat (16 - outer x) else load16 (xmem x) (reg 1 x + 290))\<rparr>"

lemma trap_enters:
  assumes ok: "windows_ok x"
  shows "\<exists>y. trap_body ld handler x = andthen (handler y) (trap_exit ld) \<and> wbase y = wbase x \<and>
    reg 1 y = reg 1 x \<and> reg 6 y = reg 1 x \<and> read_regs (reg 1 x) (xmem y) = saved_file x \<and>
    (\<forall>u. 292 \<le> unat (u - reg 1 x) \<longrightarrow> xmem y u = xmem x u)"
proof -
  define x1 where "x1 = set_reg 0 (return_address ld 0) x"
  have x1: "wbase x1 = wbase x" "reg 1 x1 = reg 1 x" "reg 0 x1 = return_address ld 0" "xmem x1 = xmem x" "sreg x1 = sreg x"
    "\<And>k. 0 < k \<Longrightarrow> k < 64 \<Longrightarrow> view (wbase x) x1 k = view (wbase x) x k"
    by (simp_all add: x1_def)
  have sr: "\<forall>r. r \<noteq> Excsave1 \<and> r \<noteq> Depc \<longrightarrow> sreg x1 r = sreg x r" using x1(5) by simp
  note same = same_window_state [OF x1(1) sr]
  obtain x2 where x2: "save_full_interrupt_context x1 = Some x2" "frame_saved x1 x2"
    using save_ok same(4) ok by blast
  note s = x2(2) [unfolded frame_saved_def x1(1,2,3,4) same(2,3)]
  define y where "y = exec (MOV 6 1) (exec_block enable_kernel_exceptions (set_reg 0 (return_address ld 1) x2))"
  have y: "wbase y = wbase x" "reg 1 y = reg 1 x" "reg 6 y = reg 1 x" "xmem y = xmem x2"
    using s by (simp_all add: y_def exceptions_ok)
  have "call0 (return_address ld 0) save_full_interrupt_context x = Inr x2"
    using x2(1) s by (intro call0_keeps) (simp_all add: x1_def)
  then have "trap_body ld handler x = andthen (handler y) (trap_exit ld)"
    unfolding trap_body_def by (simp add: exceptions_ok(1) trap_exit_def [abs_def] y_def)
  moreover have "read_regs (reg 1 x) (xmem y) = saved_file x"
    unfolding read_regs_frame saved_file_def y(4)
    using s x1(6) by (auto simp: special_word_def x1(5))
  moreover have "\<forall>u. 292 \<le> unat (u - reg 1 x) \<longrightarrow> xmem y u = xmem x u" using s y(4) by simp
  ultimately show ?thesis using y(1-3) by blast
qed

text \<open>A machine that continues with the register file \<open>r\<close>.\<close>

definition runs_with :: "task_regs \<Rightarrow> xtensa \<Rightarrow> bool" where
  "runs_with r x \<longleftrightarrow>
     wbase x = unat (windowbase r) \<and> sreg x Windowstart = windowstart r AND 0xFFFF \<and>
     sreg x Epc1 = pc r \<and> sreg x Ps = ps r \<and> sreg x Sar = sar r AND 0x3F \<and>
     sreg x Lbeg = lbeg r \<and> sreg x Lend = lend r \<and> sreg x Lcount = lcount r \<and>
     (\<forall>k < 64. view (wbase x) x k =
       (if k < 4 * mask_frames (ucast (windowmask r)) \<or> 64 - 4 * unat (windowsize r) \<le> k then ar r ! k else 0))"

lemma mask_frames_cast: "mask_frames (ucast (ucast w :: u16)) = mask_frames w"
  by (simp add: mask_frames_def bit_simps)

lemma trap_exits:
  assumes r: "read_regs (reg 1 z) (xmem z) = r" "windowbase r = of_nat (wbase z)" "unat (windowsize r) \<le> 14"
    and d: "region (reg 1 z) TASK_REGS_SIZE \<inter> region (PIDCTRL_PID_CONFIRM ld) 4 = {}"
  shows "\<exists>y. trap_exit ld z = Inr y \<and> runs_with r y"
proof -
  let ?a = "reg 1 z" and ?m = "xmem z" and ?n = "unat (windowsize r)"
  define x1 where "x1 = set_reg 0 (return_address ld 3) (exec_block disable_kernel_exceptions (set_reg 0 (return_address ld 2) z))"
  have x1: "wbase x1 = wbase z" "reg 1 x1 = ?a" "xmem x1 = ?m" "reg 0 x1 = return_address ld 3"
    by (simp_all add: x1_def exceptions_ok)
  note f = r(1) [unfolded read_regs_frame, symmetric]
  have n: "load16 ?m (?a + 290) = of_nat ?n"
  proof -
    have "windowsize r = ucast (load16 ?m (?a + 290))" by (simp add: f)
    moreover have "take_bit 16 (load16 ?m (?a + 290)) = load16 ?m (?a + 290)"
      by (intro bit_word_eqI) (auto simp: load16_def bit_simps dest: bit_imp_le_length)
    moreover have "ucast (ucast w :: u16) = take_bit 16 w" for w :: u32
      by (intro bit_word_eqI) (auto simp: bit_simps)
    moreover have "(of_nat ?n :: u32) = ucast (windowsize r)" by simp
    ultimately show ?thesis by simp
  qed
  have f70: "fw (reg 1 x1) (xmem x1) 70 = of_nat (wbase x1)" using r(2) x1 by (simp add: f)
  have n': "load16 (xmem x1) (reg 1 x1 + 290) = of_nat ?n" using n x1 by simp
  obtain y where y: "restore_full_interrupt_context x1 = Some y" "reg 0 y = return_address ld 3" "reg 1 y = ?a"
    "frame_restored ?a ?m ?n y"
    using restore_ok [OF f70 r(3) n'] x1 by auto
  note fr = y(4) [unfolded frame_restored_def special_restored_def]
  note ret = return_ok [of y ld, unfolded y(3), OF d]
  have e: "trap_exit ld z = Inr (exec_block (return_from_trap ld) y)"
    using y(1,2) by (simp add: trap_exit_def exceptions_ok(2), simp add: call0_def flip: x1_def)
  have m1: "1 \<le> mask_frames w" for w by (simp add: mask_frames_def)
  have "runs_with r (exec_block (return_from_trap ld) y)"
    unfolding runs_with_def ret(1,2)
    using fr ret(4) m1 [of "load16 ?m (?a + 288)"] by (auto simp: f mask_frames_cast)
  then show ?thesis using e by blast
qed

subsection \<open>A trap runs its handler\<close>

text \<open>
  The call of the C function \<open>h\<close> with the address of the frame in \<^verbatim>\<open>a6\<close>: it reads and writes
  the file there, and the compiler's calling convention keeps the window, \<^verbatim>\<open>a0\<close> to \<^verbatim>\<open>a3\<close> and with
  them the stack pointer.
\<close>

definition calls_c :: "(task_regs \<Rightarrow> kernel \<Rightarrow> (task_regs \<times> kernel) run) \<Rightarrow> kernel \<Rightarrow> (xtensa \<Rightarrow> xtensa run) \<Rightarrow> bool" where
  "calls_c h s handler \<longleftrightarrow> (\<forall>y. case h (read_regs (reg 6 y) (xmem y)) (s\<lparr>mem := xmem y\<rparr>) of
     Inl e \<Rightarrow> handler y = Inl e
   | Inr (r, s') \<Rightarrow> regs_wf r \<longrightarrow>
       (\<exists>z. handler y = Inr z \<and> wbase z = wbase y \<and> reg 1 z = reg 1 y \<and> read_regs (reg 6 y) (xmem z) = r))"

definition user_file :: "trap_symbols \<Rightarrow> xtensa \<Rightarrow> task_regs" where
  "user_file ld x =
     \<lparr>ar = map (frame_word ld x) [0..<64],
      sar = sreg x Sar, lbeg = sreg x Lbeg, lend = sreg x Lend, lcount = sreg x Lcount, pc = sreg x Epc1, ps = sreg x Ps,
      windowbase = sreg x Windowbase, windowstart = sreg x Windowstart,
      windowmask = ucast (rotated (sreg x Windowstart) (sreg x Windowbase)), windowsize = ucast (window_count ld x)\<rparr>"

lemma user_exception_outside:
  "292 \<le> unat (u - kernel_frame ld x) \<Longrightarrow> xmem (exec_block (user_exception ld) x) u = xmem x u"
  unfolding user_exception_mem by (simp add: store32_off del: add_0_right)

lemma entered:
  defines "e \<equiv> \<lambda>ld x. exec_block (user_exception ld) x"
  shows "wbase (e ld x) = wbase x" "reg 1 (e ld x) = kernel_frame ld x" "windows_ok (e ld x) = windows_ok x"
    "saved_file (e ld x) = user_file ld x"
proof -
  have w: "wbase (e ld x) = wbase x" and a: "reg 1 (e ld x) = kernel_frame ld x"
    unfolding e_def by (rule user_exception_ok)+
  have sr: "\<forall>r. r \<noteq> Excsave1 \<and> r \<noteq> Depc \<longrightarrow> sreg (e ld x) r = sreg x r"
    unfolding e_def using user_exception_ok(4) by blast
  note same = same_window_state [OF w sr]
  show "wbase (e ld x) = wbase x" "reg 1 (e ld x) = kernel_frame ld x" "windows_ok (e ld x) = windows_ok x"
    by (fact w, fact a, fact same(4))
  have word: "(if 4 \<le> k \<and> live_reg x k then view (wbase x) (e ld x) k else fw (kernel_frame ld x) (xmem (e ld x)) k) = frame_word ld x k"
    if "k < 64" for k
    using that user_exception_ok(3) [where k = k and ld = ld and x = x] user_exception_ok(5) [where j = k and ld = ld and x = x] outer_less(1) [of x]
    by (auto simp: e_def frame_word_def live_reg_def)
  show "saved_file (e ld x) = user_file ld x"
    unfolding saved_file_def user_file_def w a same(2,3)
    using sr word user_exception_ok(6) [where ld = ld and x = x] by (simp add: window_count_def e_def)
qed

lemma trap_runs:
  assumes ok: "windows_ok x" and c: "calls_c h s handler"
    and d: "region (reg 1 x) TASK_REGS_SIZE \<inter> region (PIDCTRL_PID_CONFIRM ld) 4 = {}"
  shows "\<exists>m. (\<forall>u. 292 \<le> unat (u - reg 1 x) \<longrightarrow> m u = xmem x u) \<and>
    (case h (saved_file x) (s\<lparr>mem := m\<rparr>) of
       Inl e \<Rightarrow> trap_body ld handler x = Inl e
     | Inr (r, s') \<Rightarrow> regs_wf r \<and> windowbase r = of_nat (wbase x) \<and> unat (windowsize r) \<le> 14 \<longrightarrow>
         (\<exists>y. trap_body ld handler x = Inr y \<and> runs_with r y))"
proof -
  obtain y where y: "trap_body ld handler x = andthen (handler y) (trap_exit ld)" "wbase y = wbase x" "reg 1 y = reg 1 x"
    "reg 6 y = reg 1 x" "read_regs (reg 1 x) (xmem y) = saved_file x" "\<forall>u. 292 \<le> unat (u - reg 1 x) \<longrightarrow> xmem y u = xmem x u"
    using trap_enters [OF ok, where ld = ld and handler = handler] by (elim exE conjE)
  note cy = c [unfolded calls_c_def, THEN spec, of y, unfolded y(4,5)]
  show ?thesis
  proof (intro exI [of _ "xmem y"] conjI)
    show "\<forall>u. 292 \<le> unat (u - reg 1 x) \<longrightarrow> xmem y u = xmem x u" by (fact y(6))
    show "case h (saved_file x) (s\<lparr>mem := xmem y\<rparr>) of
       Inl e \<Rightarrow> trap_body ld handler x = Inl e
     | Inr (r, s') \<Rightarrow> regs_wf r \<and> windowbase r = of_nat (wbase x) \<and> unat (windowsize r) \<le> 14 \<longrightarrow>
         (\<exists>y. trap_body ld handler x = Inr y \<and> runs_with r y)"
    proof (cases "h (saved_file x) (s\<lparr>mem := xmem y\<rparr>)")
      case (Inl e)
      then show ?thesis using cy y(1) by simp
    next
      case (Inr res)
      obtain r s' where res: "res = (r, s')" by fastforce
      have "\<exists>y. trap_body ld handler x = Inr y \<and> runs_with r y"
        if r: "regs_wf r" "windowbase r = of_nat (wbase x)" "unat (windowsize r) \<le> 14"
      proof -
        obtain z where z: "handler y = Inr z" "wbase z = wbase x" "reg 1 z = reg 1 x" "read_regs (reg 1 x) (xmem z) = r"
          using cy Inr res r(1) y(2,3) by auto
        show ?thesis using trap_exits [of z r ld] z r(2,3) d y(1) by simp
      qed
      then show ?thesis using Inr res by simp
    qed
  qed
qed

subsection \<open>System calls that return to their caller\<close>

lemma same_windows:
  assumes "wbase y = wbase x" "sreg y Windowstart = sreg x Windowstart" "sreg y Windowbase = sreg x Windowbase"
  shows "live_frame y = live_frame x" "outer y = outer x" "live_reg y = live_reg x" "windows_ok y = windows_ok x"
proof -
  show l: "live_frame y = live_frame x" using assms by (simp add: live_frame_def fun_eq_iff)
  then show o: "outer y = outer x" by (simp add: outer_def)
  then show "live_reg y = live_reg x" by (simp add: live_reg_def fun_eq_iff)
  show "windows_ok y = windows_ok x" using assms l by (simp add: windows_ok_def)
qed

definition next_lcount :: "u32 \<Rightarrow> xtensa \<Rightarrow> u32" where
  "next_lcount len x =
     (if sreg x Epc1 + len = sreg x Lend \<and> sreg x Lcount \<noteq> 0 then sreg x Lcount - 1 else sreg x Lcount)"

lemma skip_ok:
  "wbase (skip_syscall x) = wbase x" "xmem (skip_syscall x) = xmem x" "reg 1 (skip_syscall x) = reg 1 x"
  "sreg (skip_syscall x) Epc1 = next_pc 3 x" "sreg (skip_syscall x) Lcount = next_lcount 3 x"
  "r \<notin> {Epc1, Lcount} \<Longrightarrow> sreg (skip_syscall x) r = sreg x r"
  "k < 64 \<Longrightarrow> k \<notin> {0, 2} \<Longrightarrow> view (wbase x) (skip_syscall x) k = view (wbase x) x k"
  by (simp_all add: skip_syscall_def next_pc_def next_lcount_def Let_def sr_mask_def)

lemma saved_file_skip:
  "saved_file (skip_syscall x) = (saved_file x)\<lparr>pc := next_pc 3 x, lcount := next_lcount 3 x\<rparr>"
proof -
  have sr: "sreg (skip_syscall x) Windowstart = sreg x Windowstart" "sreg (skip_syscall x) Windowbase = sreg x Windowbase"
    by (simp_all add: skip_ok)
  note same = same_windows [OF skip_ok(1) sr]
  show ?thesis
    unfolding saved_file_def skip_ok(1-3) same using skip_ok(7) [where x = x] by (simp add: skip_ok)
qed

definition syscall_value :: "u32 \<Rightarrow> u32" where
  "syscall_value n = (if n = SYSCALL_LOG then 0 else - err_code ERROR_INVALID_SYSCALL)"

lemma set_ret_twice [simp]: "set_ret v (set_ret w r) = set_ret v r"
  by (simp add: set_ret_def)

lemma syscall_result:
  assumes "ar r ! 2 \<notin> {SYSCALL_SCHED_PARK, SYSCALL_SCHED_YIELD, SYSCALL_SCHED_DROP}"
    and "ar r ! 2 = SYSCALL_LOG \<Longrightarrow> unat (DATA_PAGE_INDEX (ar r ! 6)) < 16 \<and> tasks s (get_current_task s) \<noteq> None"
  shows "\<exists>s'. common_syscall_handler pf r s = Inr (set_ret (syscall_value (ar r ! 2)) r, s')"
proof (cases "ar r ! 2 = SYSCALL_LOG")
  case True
  then obtain t where t: "tasks s (get_current_task s) = Some t" "unat (DATA_PAGE_INDEX (ar r ! 6)) < 16" using assms(2) by auto
  have a6: "ar (set_ret 0 r) ! 6 = ar r ! 6" by (simp add: set_ret_def SYSCALL_RET_def)
  show ?thesis using log_syscall_ok [OF t(1), of "set_ret 0 r"] t(2) a6 True assms(1)
    by (auto simp: common_syscall_handler_def SYSCALL_NUM_def Let_def syscall_value_def)
next
  case False
  then show ?thesis using unknown_syscall_says [of "set_ret 0 r" s] assms(1)
    by (auto simp: common_syscall_handler_def SYSCALL_NUM_def Let_def syscall_value_def)
qed

lemma window_count_small:
  assumes "1 < outer x" "outer x = 16 \<Longrightarrow> unat (load16 (xmem x) (kernel_frame ld x + 290)) \<le> 14"
  shows "unat (windowsize (user_file ld x)) \<le> 14"
    "outer x < 16 \<Longrightarrow> unat (windowsize (user_file ld x)) = 16 - outer x"
proof -
  define n where "n = unat (window_count ld x)"
  have c: "window_count ld x = of_nat n" "n \<le> 14"
    using assms outer_less [of x] by (auto simp: n_def window_count_def simp flip: of_nat_diff)
  have w: "unat (windowsize (user_file ld x)) = n"
    using c by (simp add: user_file_def unsigned_of_nat unat_of_nat take_bit_nat_eq_self)
  show "unat (windowsize (user_file ld x)) \<le> 14" using w c(2) by simp
  show "unat (windowsize (user_file ld x)) = 16 - outer x" if "outer x < 16"
    using that outer_less(1) [of x] unfolding w by (simp add: n_def window_count_def del: of_nat_diff)
qed

lemma user_file_reg: "k < 64 \<Longrightarrow> ar (user_file ld x) ! k = frame_word ld x k"
  by (simp add: user_file_def)

lemma live_word: "live_reg x k \<Longrightarrow> k < 64 \<Longrightarrow> frame_word ld x k = view (wbase x) x k"
  by (simp add: frame_word_def)

text \<open>The handler as a function of the machine: one that calls \<open>h\<close> and changes no register.\<close>

definition c_call :: "(task_regs \<Rightarrow> kernel \<Rightarrow> (task_regs \<times> kernel) run) \<Rightarrow> kernel \<Rightarrow> xtensa \<Rightarrow> xtensa run" where
  "c_call h s y = andthen (h (read_regs (reg 6 y) (xmem y)) (s\<lparr>mem := xmem y\<rparr>)) (\<lambda>(r, s').
     Inr (y\<lparr>xmem := write_regs (reg 6 y) r (mem s')\<rparr>))"

lemma c_call_ok: "calls_c h s (c_call h s)"
  by (auto simp: calls_c_def c_call_def mem_simps split: sum.split)

text \<open>The common body of the entries, from the entry code on, for any handler that keeps the contract.\<close>

lemma trap_body_handler:
  assumes ok: "windows_ok x" and c: "calls_c h s handler"
    and d: "region (kernel_frame ld x) TASK_REGS_SIZE \<inter> region (PIDCTRL_PID_CONFIRM ld) 4 = {}"
  shows "\<exists>m. (\<forall>u. 292 \<le> unat (u - kernel_frame ld x) \<longrightarrow> m u = xmem x u) \<and>
    (case h (user_file ld x) (s\<lparr>mem := m\<rparr>) of
       Inl e \<Rightarrow> trap_body ld handler (exec_block (user_exception ld) x) = Inl e
     | Inr (r, s') \<Rightarrow> regs_wf r \<and> windowbase r = sreg x Windowbase \<and> unat (windowsize r) \<le> 14 \<longrightarrow>
         (\<exists>y. trap_body ld handler (exec_block (user_exception ld) x) = Inr y \<and> runs_with r y))"
proof -
  have ok': "windows_ok (exec_block (user_exception ld) x)" using ok by (simp add: entered)
  have d': "region (reg 1 (exec_block (user_exception ld) x)) TASK_REGS_SIZE \<inter> region (PIDCTRL_PID_CONFIRM ld) 4 = {}"
    using d by (simp only: entered)
  show ?thesis
    using trap_runs [OF ok' c d'] user_exception_outside [of _ ld x]
    unfolding entered windows_base [OF ok] by auto
qed

lemma syscall_body_returns:
  assumes ok: "windows_ok x" and c: "calls_c (common_syscall_handler pf) s handler"
    and d: "region (kernel_frame ld x) TASK_REGS_SIZE \<inter> region (PIDCTRL_PID_CONFIRM ld) 4 = {}"
    and o: "1 < outer x" "outer x = 16 \<Longrightarrow> unat (load16 (xmem x) (kernel_frame ld x + 290)) \<le> 14"
    and n: "view (wbase x) x 2 \<notin> {SYSCALL_SCHED_PARK, SYSCALL_SCHED_YIELD, SYSCALL_SCHED_DROP}"
    and l: "view (wbase x) x 2 = SYSCALL_LOG \<Longrightarrow>
      unat (DATA_PAGE_INDEX (view (wbase x) x 6)) < 16 \<and> tasks s (get_current_task s) \<noteq> None"
  shows "\<exists>y. trap_body ld handler (skip_syscall (exec_block (user_exception ld) x)) = Inr y \<and>
    view (wbase x) y 2 = syscall_value (view (wbase x) x 2) \<and>
    (\<forall>k < 64. live_reg x k \<and> k \<noteq> 2 \<longrightarrow> view (wbase x) y k = view (wbase x) x k) \<and>
    wbase y = wbase x \<and> sreg y Epc1 = next_pc 3 x \<and> sreg y Lcount = next_lcount 3 x \<and>
    sreg y Ps = sreg x Ps \<and> sreg y Sar = sreg x Sar AND 0x3F \<and> sreg y Lbeg = sreg x Lbeg \<and> sreg y Lend = sreg x Lend \<and>
    sreg y Windowstart = sreg x Windowstart"
proof -
  let ?e = "skip_syscall (exec_block (user_exception ld) x)"
  let ?f = "(user_file ld x)\<lparr>pc := next_pc 3 x, lcount := next_lcount 3 x\<rparr>"
  have sr: "sreg (exec_block (user_exception ld) x) r = sreg x r" if "r \<noteq> Excsave1" "r \<noteq> Depc" for r
    using user_exception_ok(4) that .
  have e: "wbase ?e = wbase x" "reg 1 ?e = kernel_frame ld x" by (simp_all only: skip_ok entered)
  have oke: "windows_ok ?e"
    using ok same_windows(4) [of ?e x] e(1) by (simp add: skip_ok sr)
  have fe: "saved_file ?e = ?f"
    unfolding saved_file_skip entered by (simp add: next_pc_def next_lcount_def sr Let_def)
  have live: "live_reg x 2" "live_reg x 6" using o(1) by (auto simp: live_reg_def)
  have a: "ar ?f ! 2 = view (wbase x) x 2" "ar ?f ! 6 = view (wbase x) x 6"
    using live by (simp_all add: user_file_reg live_word)
  have d': "region (reg 1 ?e) TASK_REGS_SIZE \<inter> region (PIDCTRL_PID_CONFIRM ld) 4 = {}" using d by (simp only: e)
  obtain m where m: "case common_syscall_handler pf ?f (s\<lparr>mem := m\<rparr>) of
       Inl err \<Rightarrow> trap_body ld handler ?e = Inl err
     | Inr (r, s') \<Rightarrow> regs_wf r \<and> windowbase r = of_nat (wbase x) \<and> unat (windowsize r) \<le> 14 \<longrightarrow>
         (\<exists>y. trap_body ld handler ?e = Inr y \<and> runs_with r y)"
    using trap_runs [OF oke c d'] unfolding fe e(1) by blast
  have "tasks (s\<lparr>mem := m\<rparr>) (get_current_task (s\<lparr>mem := m\<rparr>)) = tasks s (get_current_task s)"
    by (simp add: get_current_task_def get_cpu_context_def get_cpu_index_def)
  then obtain s' where h: "common_syscall_handler pf ?f (s\<lparr>mem := m\<rparr>) = Inr (set_ret (syscall_value (view (wbase x) x 2)) ?f, s')"
    using syscall_result [of ?f "s\<lparr>mem := m\<rparr>" pf] n l unfolding a by auto
  define r where "r = set_ret (syscall_value (view (wbase x) x 2)) ?f"
  have r: "regs_wf r" "windowbase r = of_nat (wbase x)" "windowsize r = windowsize (user_file ld x)"
    "windowmask r = windowmask (user_file ld x)"
    using windows_base [OF ok] by (simp_all add: r_def set_ret_def regs_wf_def user_file_def)
  obtain y where y: "trap_body ld handler ?e = Inr y" "runs_with r y"
    using m h r window_count_small(1) [OF o] by (auto simp flip: r_def)
  note w = y(2) [unfolded runs_with_def]
  have rr: "ar r ! k = (if k = 2 then syscall_value (view (wbase x) x 2) else frame_word ld x k)" if "k < 64" for k
    using that by (simp add: r_def set_ret_def SYSCALL_RET_def user_file_reg nth_list_update user_file_def)
  have mf: "mask_frames (ucast (windowmask r)) = min (outer x) 4"
    by (simp add: r(4) user_file_def mask_frames_cast mask_frames_rotated [OF ok])
  have wy: "wbase y = wbase x" using w r(2) by simp
  have views: "view (wbase x) y k = ar r ! k" if "k < 64" "live_reg x k" for k
  proof -
    have "k < 4 * min (outer x) 4 \<or> 64 - 4 * unat (windowsize r) \<le> k"
      using that outer_less [of x] window_count_small(2) [OF o] by (auto simp: live_reg_def r(3))
    moreover have "view (wbase x) y k =
        (if k < 4 * min (outer x) 4 \<or> 64 - 4 * unat (windowsize r) \<le> k then ar r ! k else 0)"
      using w that(1) unfolding mf wy by blast
    ultimately show ?thesis by simp
  qed
  have ws: "sreg y Windowstart = sreg x Windowstart"
    using w windowstart_masked [OF ok] by (simp add: r_def set_ret_def user_file_def)
  show ?thesis
    using y(1) w wy ws views rr live live_word
    by (intro exI [of _ y]) (simp add: r_def set_ret_def user_file_def)
qed

end
