(* ===== verification/Trap_Dispatch.thy ===== *)
theory Trap_Dispatch
  imports Trap_System
begin

section \<open>From a trap to its handler and back\<close>

text \<open>
  The vector for traps from user mode jumps to the entry that \<^verbatim>\<open>g_fast_interrupts\<close> has for the cause.
  With the table in memory this is the whole way of a trap, from the interrupted instruction to the
  one that is executed next.
\<close>

subsection \<open>The three entries\<close>

text \<open>
  \<^verbatim>\<open>common_exception_entry\<close> and \<^verbatim>\<open>common_interrupt_entry\<close> have the same body and differ in the C function they
  call; the entry of a system call first moves the program counter.
\<close>

definition interrupt_entry_code :: "trap_symbols \<Rightarrow> (xtensa \<Rightarrow> xtensa run) \<Rightarrow> xtensa \<Rightarrow> xtensa run" where
  "interrupt_entry_code ld handler x = trap_body ld handler x"

definition syscall_entry_code :: "trap_symbols \<Rightarrow> (xtensa \<Rightarrow> xtensa run) \<Rightarrow> xtensa \<Rightarrow> xtensa run" where
  "syscall_entry_code ld handler x = trap_body ld handler (skip_syscall x)"

text \<open>What the linker and the compiler add: the addresses of the entries, and the compiled C handlers.\<close>

record trap_code =
  entry_address :: "trap_entry \<Rightarrow> u32"
  exception_handler :: "xtensa \<Rightarrow> xtensa run"
  interrupt_handler :: "xtensa \<Rightarrow> xtensa run"
  syscall_handler :: "xtensa \<Rightarrow> xtensa run"

definition take_trap :: "trap_symbols \<Rightarrow> trap_code \<Rightarrow> xtensa \<Rightarrow> xtensa run" where
  "take_trap ld tc x =
     (let e = exec_block (user_exception ld) x in
      if reg 0 e = entry_address tc syscall_entry then syscall_entry_code ld (syscall_handler tc) e
      else if reg 0 e = entry_address tc common_interrupt_entry then interrupt_entry_code ld (interrupt_handler tc) e
      else if reg 0 e = entry_address tc common_exception_entry then trap_body ld (exception_handler tc) e
      else Inl (Undefined ''jx a0''))"

subsection \<open>Dispatch\<close>

text \<open>
  The table \<^verbatim>\<open>g_fast_interrupts\<close> is in memory, apart from the frame on the kernel stack and that apart from the
  register the exit code writes.
\<close>

definition trap_image :: "trap_symbols \<Rightarrow> trap_code \<Rightarrow> xtensa \<Rightarrow> bool" where
  "trap_image ld tc x \<longleftrightarrow> inj (entry_address tc) \<and>
     load_words (xmem x) (fast_interrupts ld) 64 = map (entry_address tc) g_fast_interrupts \<and>
     region (kernel_frame ld x) TASK_REGS_SIZE \<inter> region (fast_interrupts ld) 256 = {} \<and>
     region (kernel_frame ld x) TASK_REGS_SIZE \<inter> region (PIDCTRL_PID_CONFIRM ld) 4 = {}"

lemma length_interrupts: "length g_fast_interrupts = 64"
  by (simp add: g_fast_interrupts_def)

lemma entry_loaded:
  assumes img: "trap_image ld tc x" and k: "unat (sreg x Exccause) < 64"
  shows "reg 0 (exec_block (user_exception ld) x) = entry_address tc (g_fast_interrupts ! unat (sreg x Exccause))"
proof -
  let ?k = "unat (sreg x Exccause)" and ?e = "exec_block (user_exception ld) x"
  let ?a = "fast_interrupts ld + 4 * of_nat ?k"
  have "reg 0 ?e = load32 (xmem ?e) ?a"
    unfolding user_exception_def by (simp add: add.commute)
  also have "\<dots> = load32 (xmem x) ?a"
  proof (rule load32_cong)
    fix u assume "u \<in> region ?a 4"
    then obtain i where i: "i < 4" "u = ?a + of_nat i"
      by (intro that [of "unat (u - ?a)"]) (simp_all add: region_def)
    have "u - fast_interrupts ld = of_nat (4 * ?k + i)" by (simp add: i)
    moreover have "unat (of_nat (4 * ?k + i) :: u32) = 4 * ?k + i" by (rule unat_of_nat_small) (use i k in linarith)
    ultimately have "unat (u - fast_interrupts ld) < 256" using i k by simp
    then have "u \<notin> region (kernel_frame ld x) TASK_REGS_SIZE"
      using img by (auto simp: trap_image_def region_def)
    then show "xmem ?e u = xmem x u"
      by (intro user_exception_outside) (simp add: region_def TASK_REGS_SIZE_def)
  qed
  also have "\<dots> = load_words (xmem x) (fast_interrupts ld) 64 ! ?k" using k by (simp add: load_words_def)
  also have "\<dots> = entry_address tc (g_fast_interrupts ! ?k)"
    using img k by (simp add: trap_image_def length_interrupts)
  finally show ?thesis .
qed

lemma take_trap_entry:
  assumes img: "trap_image ld tc x" and k: "unat (sreg x Exccause) < 64"
  shows "take_trap ld tc x = (let e = exec_block (user_exception ld) x in
    if unat (sreg x Exccause) = SyscallCause then trap_body ld (syscall_handler tc) (skip_syscall e)
    else if unat (sreg x Exccause) = Level1InterruptCause then trap_body ld (interrupt_handler tc) e
    else trap_body ld (exception_handler tc) e)"
proof -
  have inj: "entry_address tc p = entry_address tc q \<longleftrightarrow> p = q" for p q
    using img by (auto simp: trap_image_def dest: injD)
  show ?thesis
    unfolding take_trap_def entry_loaded [OF assms] syscall_entry_code_def interrupt_entry_code_def Let_def inj
    using k by (auto simp: g_fast_interrupts_def nth_list_update SyscallCause_def Level1InterruptCause_def)
qed

subsection \<open>The kernel stacks\<close>

text \<open>
  \<^verbatim>\<open>g_kernel_stacks\<close> as \<^verbatim>\<open>main.c\<close> initialises it: the ends of the two stacks. The frame of a trap is then the top of
  the stack of the core it happens on.
\<close>

definition kernel_stacks :: "u32 \<Rightarrow> u32 \<Rightarrow> u32 list" where
  "kernel_stacks g_pro_cpu_stack g_app_cpu_stack = [g_pro_cpu_stack + of_nat STACK_SIZE, g_app_cpu_stack + of_nat STACK_SIZE]"

lemma frame_on_stack:
  assumes "load_words (xmem x) (g_kernel_stacks ld) 2 = kernel_stacks pro app"
  shows "kernel_frame ld x = (if bit (sreg x Prid) 13 then app else pro) + of_nat (STACK_SIZE - TASK_REGS_SIZE)"
proof -
  have "take_bit 1 (drop_bit 13 (sreg x Prid)) = of_bool (bit (sreg x Prid) 13)"
    by (rule bit_word_eqI) (auto simp: bit_simps simp flip: bit_iff_odd_drop_bit)
  moreover have "load32 (xmem x) (g_kernel_stacks ld) = pro + 4096" "load32 (xmem x) (g_kernel_stacks ld + 4) = app + 4096"
    using assms by (simp_all add: load_words_def kernel_stacks_def STACK_SIZE_def upt_rec)
  ultimately show ?thesis
    by (simp add: kernel_frame_def STACK_SIZE_def TASK_REGS_SIZE_def add.commute)
qed

subsection \<open>A machine with the table\<close>

definition demo_entry :: "trap_entry \<Rightarrow> u32" where
  "demo_entry e = (case e of common_exception_entry \<Rightarrow> 0x40080400 | common_interrupt_entry \<Rightarrow> 0x40080500 | syscall_entry \<Rightarrow> 0x40080600)"

definition demo_code :: trap_code where
  "demo_code =
     \<lparr>entry_address = demo_entry, exception_handler = c_call (\<lambda>r. common_exception_handler r 0 0) (snd demo_two),
      interrupt_handler = c_call common_interrupt_handler (raise_wdt 0 (snd demo_two)),
      syscall_handler = c_call (common_syscall_handler demo_pf) (snd demo_two)\<rparr>"

definition demo_trap :: "u32 \<Rightarrow> xtensa" where
  "demo_trap cause = (demo_machine 0x2A)\<lparr>sreg := (sreg (demo_machine 0x2A))(Exccause := cause),
     xmem := store_words 0x3FFB0100 (map demo_entry g_fast_interrupts) (xmem (demo_machine 0x2A))\<rparr>"

lemma demo_trap_windows:
  "wbase (demo_trap k) = 5" "live_reg (demo_trap k) = live_reg (demo_machine 0x2A)" "outer (demo_trap k) = 12"
  "windows_ok (demo_trap k)" "view b (demo_trap k) j = view b (demo_machine 0x2A) j"
proof -
  have w: "wbase (demo_trap k) = wbase (demo_machine 0x2A)" by (simp add: demo_trap_def wbase_def)
  have sr: "sreg (demo_trap k) Windowstart = sreg (demo_machine 0x2A) Windowstart"
    "sreg (demo_trap k) Windowbase = sreg (demo_machine 0x2A) Windowbase" by (simp_all add: demo_trap_def)
  note same = same_windows [OF w sr]
  show "wbase (demo_trap k) = 5" "live_reg (demo_trap k) = live_reg (demo_machine 0x2A)" "outer (demo_trap k) = 12"
    "windows_ok (demo_trap k)" using w same demo_base demo_outer demo_ok by simp_all
  show "view b (demo_trap k) j = view b (demo_machine 0x2A) j" by (simp add: view_def demo_trap_def)
qed

lemma demo_trap_frame: "kernel_frame demo_symbols (demo_trap k) = 0x3FFFFEDC"
proof -
  let ?m = "xmem (demo_machine 0x2A)"
  have "load32 (store_words 0x3FFB0100 (map demo_entry g_fast_interrupts) ?m) 0x3FFB0000 = load32 ?m 0x3FFB0000"
  proof (rule load32_cong)
    fix u :: u32 assume "u \<in> region 0x3FFB0000 4"
    then have "unat u < 0x3FFB0004" using region_bounds [of u "0x3FFB0000" 4] by simp
    moreover have "0x3FFB0100 \<le> unat u" if "u \<in> region 0x3FFB0100 256"
      using region_bounds [OF that] by simp
    ultimately have "u \<notin> region 0x3FFB0100 256" by force
    then show "store_words 0x3FFB0100 (map demo_entry g_fast_interrupts) ?m u = ?m u"
      by (simp add: store_words_other length_interrupts)
  qed
  then have "kernel_frame demo_symbols (demo_trap k) = kernel_frame demo_symbols (demo_machine 0x2A)"
    by (simp add: kernel_frame_def demo_trap_def demo_symbols_def demo_machine_def)
  then show ?thesis by (simp add: demo_frame_at)
qed

lemma demo_trap_image: "trap_image demo_symbols demo_code (demo_trap k)"
proof -
  have "inj demo_entry" by (auto simp: inj_def demo_entry_def split: trap_entry.splits)
  moreover have "load_words (xmem (demo_trap k)) 0x3FFB0100 64 = map demo_entry g_fast_interrupts"
    using load_store_words [of "map demo_entry g_fast_interrupts" "0x3FFB0100" "xmem (demo_machine 0x2A)"]
    by (simp add: demo_trap_def length_interrupts)
  moreover have "u \<notin> region 0x3FFB0100 256" if "u \<in> region (0x3FFFFEDC :: u32) 292" for u
    using region_bounds [OF that] region_bounds [of u "0x3FFB0100" 256] by force
  ultimately show ?thesis
    using demo_apart [of "0x2A", unfolded demo_frame_at]
    unfolding trap_image_def demo_trap_frame by (auto simp: demo_code_def demo_symbols_def TASK_REGS_SIZE_def)
qed

subsection \<open>Properties\<close>

text \<open>C6: A trap is a call of the C handler on the interrupted program's register file. From the instruction an exception
  or interrupt stops to the one that runs next: the handler that g_fast_interrupts has for the cause sees a file with the
  registers, special registers and window of the program, and memory changed only inside the frame on the kernel
  stack; if it never returns neither does the trap, and if it returns a file with the same window base and at most
  fourteen frames to reload, the trap returns to a machine that runs with that file.\<close>

theorem trap_runs_handler:
  assumes ok: "windows_ok x" and img: "trap_image ld tc x"
    and cause: "unat (sreg x Exccause) < 64" "unat (sreg x Exccause) \<noteq> SyscallCause"
    and c: "calls_c h s (if unat (sreg x Exccause) = Level1InterruptCause then interrupt_handler tc else exception_handler tc)"
  shows "\<exists>m. (\<forall>u. 292 \<le> unat (u - kernel_frame ld x) \<longrightarrow> m u = xmem x u) \<and>
    (case h (user_file ld x) (s\<lparr>mem := m\<rparr>) of
       Inl e \<Rightarrow> take_trap ld tc x = Inl e
     | Inr (r, s') \<Rightarrow> regs_wf r \<and> windowbase r = sreg x Windowbase \<and> unat (windowsize r) \<le> 14 \<longrightarrow>
         (\<exists>y. take_trap ld tc x = Inr y \<and> runs_with r y))"
proof -
  let ?h = "if unat (sreg x Exccause) = Level1InterruptCause then interrupt_handler tc else exception_handler tc"
  have t: "take_trap ld tc x = trap_body ld ?h (exec_block (user_exception ld) x)"
    using take_trap_entry [OF img cause(1)] cause(2) by (simp add: Let_def)
  have d: "region (kernel_frame ld x) TASK_REGS_SIZE \<inter> region (PIDCTRL_PID_CONFIRM ld) 4 = {}"
    using img by (simp add: trap_image_def)
  show ?thesis unfolding t by (rule trap_body_handler [OF ok c d])
qed

theorem trap_runs_handler_witness:
  "\<exists>y. take_trap demo_symbols demo_code (demo_trap 4) = Inr y \<and> runs_with (user_file demo_symbols (demo_trap 4)) y"
proof -
  let ?x = "demo_trap 4" and ?s = "raise_wdt 0 (snd demo_two)"
  let ?f = "user_file demo_symbols ?x"
  have k: "sreg ?x Exccause = 4" by (simp add: demo_trap_def)
  have c: "calls_c common_interrupt_handler ?s
      (if unat (sreg ?x Exccause) = Level1InterruptCause then interrupt_handler demo_code else exception_handler demo_code)"
    by (simp add: k Level1InterruptCause_def demo_code_def c_call_ok)
  obtain m where m: "case common_interrupt_handler ?f (?s\<lparr>mem := m\<rparr>) of
       Inl e \<Rightarrow> take_trap demo_symbols demo_code ?x = Inl e
     | Inr (r, s') \<Rightarrow> regs_wf r \<and> windowbase r = sreg ?x Windowbase \<and> unat (windowsize r) \<le> 14 \<longrightarrow>
         (\<exists>y. take_trap demo_symbols demo_code ?x = Inr y \<and> runs_with r y)"
    using trap_runs_handler [OF demo_trap_windows(4) demo_trap_image _ _ c] by (auto simp: k SyscallCause_def)
  have "wdt_handle (timg (?s\<lparr>mem := m\<rparr>)) = (False, timg (?s\<lparr>mem := m\<rparr>))"
    by (simp add: wdt_handle_def raise_wdt_def)
  then obtain s' where "common_interrupt_handler ?f (?s\<lparr>mem := m\<rparr>) = Inr (?f, s')"
    using dport_log_interrupt_says [of "?s\<lparr>mem := m\<rparr>"] by (auto simp: common_interrupt_handler_def)
  moreover have "unat (windowsize ?f) \<le> 14" by (rule window_count_small) (simp_all add: demo_trap_windows)
  moreover have "regs_wf ?f" "windowbase ?f = sreg ?x Windowbase" by (simp_all add: regs_wf_def user_file_def)
  ultimately show ?thesis using m by simp
qed

text \<open>C7: A system call other than park, yield and drop returns to its caller, from the instruction to the one that runs
  next, for a program whose next live frame is not directly after the current one, which, if the current frame is the only live
  one, finds at most fourteen in the frame count an earlier trap left, and, for the log call, while a task runs and with a pointer to one of the
  sixteen data pages: the result is in a2, every other live register, the window, the program status, the six bits of the shift
  register and the loop bounds are as they were, and the program continues behind the instruction or at the start of the
  hardware loop it closes, with one turn less.\<close>

theorem system_call_returns:
  assumes ok: "windows_ok x" and img: "trap_image ld tc x" and cause: "unat (sreg x Exccause) = SyscallCause"
    and c: "calls_c (common_syscall_handler pf) s (syscall_handler tc)"
    and o: "1 < outer x" "outer x = 16 \<Longrightarrow> unat (load16 (xmem x) (kernel_frame ld x + 290)) \<le> 14"
    and n: "view (wbase x) x 2 \<notin> {SYSCALL_SCHED_PARK, SYSCALL_SCHED_YIELD, SYSCALL_SCHED_DROP}"
    and l: "view (wbase x) x 2 = SYSCALL_LOG \<Longrightarrow>
      unat (DATA_PAGE_INDEX (view (wbase x) x 6)) < 16 \<and> tasks s (get_current_task s) \<noteq> None"
  shows "\<exists>y. take_trap ld tc x = Inr y \<and> view (wbase x) y 2 = syscall_value (view (wbase x) x 2) \<and>
    (\<forall>k < 64. live_reg x k \<and> k \<noteq> 2 \<longrightarrow> view (wbase x) y k = view (wbase x) x k) \<and>
    wbase y = wbase x \<and> sreg y Epc1 = next_pc 3 x \<and> sreg y Lcount = next_lcount 3 x \<and>
    sreg y Ps = sreg x Ps \<and> sreg y Sar = sreg x Sar AND 0x3F \<and> sreg y Lbeg = sreg x Lbeg \<and> sreg y Lend = sreg x Lend \<and>
    sreg y Windowstart = sreg x Windowstart"
proof -
  have t: "take_trap ld tc x = trap_body ld (syscall_handler tc) (skip_syscall (exec_block (user_exception ld) x))"
    using take_trap_entry [OF img] cause by (simp add: Let_def SyscallCause_def)
  have d: "region (kernel_frame ld x) TASK_REGS_SIZE \<inter> region (PIDCTRL_PID_CONFIRM ld) 4 = {}"
    using img by (simp add: trap_image_def)
  show ?thesis unfolding t by (rule syscall_body_returns [OF ok c d o n l])
qed

theorem system_call_returns_witness:
  "\<exists>y. take_trap demo_symbols demo_code (demo_trap 1) = Inr y \<and>
    view 5 y 2 = - 4 \<and> view 5 y 50 = 106 \<and> sreg y Epc1 = 0x400D0100 \<and> sreg y Lcount = 3"
proof -
  let ?x = "demo_trap 1"
  have v: "view 5 ?x 2 = 122" "view 5 ?x 50 = 106" "live_reg ?x 50"
    by (simp_all add: demo_trap_windows live_reg_def demo_outer demo_base) (simp_all add: view_def demo_machine_def)
  have n: "next_pc 3 ?x = 0x400D0100" "next_lcount 3 ?x = 3" "unat (sreg ?x Exccause) = SyscallCause"
    by (simp_all add: next_pc_def next_lcount_def demo_machine_def demo_trap_def SyscallCause_def)
  have s: "(122 :: u32) \<notin> {SYSCALL_SCHED_PARK, SYSCALL_SCHED_YIELD, SYSCALL_SCHED_DROP}" "(122 :: u32) \<noteq> SYSCALL_LOG"
    by (simp_all add: SYSCALL_SCHED_PARK_def SYSCALL_SCHED_YIELD_def SYSCALL_SCHED_DROP_def SYSCALL_LOG_def)
  have c: "calls_c (common_syscall_handler demo_pf) (snd demo_two) (syscall_handler demo_code)"
    by (simp add: demo_code_def c_call_ok)
  obtain y where "take_trap demo_symbols demo_code ?x = Inr y"
    "view 5 y 2 = syscall_value (view 5 ?x 2)" "\<forall>k < 64. live_reg ?x k \<and> k \<noteq> 2 \<longrightarrow> view 5 y k = view 5 ?x k"
    "sreg y Epc1 = next_pc 3 ?x" "sreg y Lcount = next_lcount 3 ?x"
    using system_call_returns [OF demo_trap_windows(4) demo_trap_image n(3) c] s
    unfolding demo_trap_windows(1,3) v by auto
  then show ?thesis using v n s by (auto simp: syscall_value_def)
qed

end
