(* ===== verification/Window_Vectors.thy ===== *)
theory Window_Vectors
  imports Xtensa
begin

section \<open>Window overflow and underflow\<close>

text \<open>
  \<^verbatim>\<open>vdso/vectors.S\<close>: when a call runs into a frame that is still in use, the processor rotates to
  that frame and its registers go to the stack; on the return they come back.
  \<^verbatim>\<open>s32e\<close> and \<^verbatim>\<open>l32e\<close> store and load with the privilege of the interrupted program.
\<close>

definition window_overflow_4 :: "instr list" where
  "window_overflow_4 = [S32I 0 5 (- 16), S32I 1 5 (- 12), S32I 2 5 (- 8), S32I 3 5 (- 4)]"

definition window_underflow_4 :: "instr list" where
  "window_underflow_4 = [L32I 0 5 (- 16), L32I 1 5 (- 12), L32I 2 5 (- 8), L32I 3 5 (- 4)]"

definition window_overflow_8 :: "instr list" where
  "window_overflow_8 =
    [S32I 0 9 (- 16), L32I 0 1 (- 12), S32I 1 9 (- 12), S32I 2 9 (- 8), S32I 3 9 (- 4),
     S32I 4 0 (- 32), S32I 5 0 (- 28), S32I 6 0 (- 24), S32I 7 0 (- 20)]"

definition window_underflow_8 :: "instr list" where
  "window_underflow_8 =
    [L32I 0 9 (- 16), L32I 1 9 (- 12), L32I 2 9 (- 8), L32I 7 1 (- 12), L32I 3 9 (- 4),
     L32I 4 7 (- 32), L32I 5 7 (- 28), L32I 6 7 (- 24), L32I 7 7 (- 20)]"

definition window_overflow_12 :: "instr list" where
  "window_overflow_12 =
    [S32I 0 13 (- 16), L32I 0 1 (- 12), S32I 1 13 (- 12), S32I 2 13 (- 8), S32I 3 13 (- 4),
     S32I 4 0 (- 48), S32I 5 0 (- 44), S32I 6 0 (- 40), S32I 7 0 (- 36),
     S32I 8 0 (- 32), S32I 9 0 (- 28), S32I 10 0 (- 24), S32I 11 0 (- 20)]"

definition window_underflow_12 :: "instr list" where
  "window_underflow_12 =
    [L32I 0 13 (- 16), L32I 1 13 (- 12), L32I 2 13 (- 8), L32I 11 1 (- 12), L32I 3 13 (- 4),
     L32I 4 11 (- 48), L32I 5 11 (- 44), L32I 6 11 (- 40), L32I 7 11 (- 36),
     L32I 8 11 (- 32), L32I 9 11 (- 28), L32I 10 11 (- 24), L32I 11 11 (- 20)]"

text \<open>The three pairs in the vector table, by the number of registers.\<close>

definition window_overflow :: "nat \<Rightarrow> instr list" where
  "window_overflow n = (if n = 4 then window_overflow_4 else if n = 8 then window_overflow_8 else window_overflow_12)"

definition window_underflow :: "nat \<Rightarrow> instr list" where
  "window_underflow n = (if n = 4 then window_underflow_4 else if n = 8 then window_underflow_8 else window_underflow_12)"

text \<open>
  The returns clear or set the frame's bit and go back to the window of the interrupted
  instruction, which the processor keeps in \<^verbatim>\<open>PS.OWB\<close>.
\<close>

definition back_to_window :: "xtensa \<Rightarrow> xtensa" where
  "back_to_window x = set_sreg Ps (sreg x Ps AND NOT 0x10) (set_sreg Windowbase (take_bit 4 (drop_bit 8 (sreg x Ps))) x)"

definition rfwo :: "xtensa \<Rightarrow> xtensa" where
  "rfwo x = back_to_window (set_sreg Windowstart (sreg x Windowstart AND NOT (push_bit (wbase x) 1)) x)"

definition rfwu :: "xtensa \<Rightarrow> xtensa" where
  "rfwu x = back_to_window (set_sreg Windowstart (sreg x Windowstart OR push_bit (wbase x) 1) x)"

text \<open>The words the handlers for \<open>n\<close> registers touch; the caller's stack pointer is in the first save area.\<close>

definition spill_words :: "nat \<Rightarrow> xtensa \<Rightarrow> u32 list" where
  "spill_words n x =
     (let s = reg (n + 1) x; c = load32 (xmem x) (reg 1 x - 12) in
      [s - 16, s - 12, s - 8, s - 4] @
      (if n = 4 then [] else (reg 1 x - 12) # map (\<lambda>i. c - of_nat (4 * (n - i))) [0..<n - 4]))"

fun apart :: "u32 list \<Rightarrow> bool" where
  "apart [] \<longleftrightarrow> True"
| "apart (p # qs) \<longleftrightarrow> (\<forall>q \<in> set qs. 4 \<le> unat (p - q) \<and> 4 \<le> unat (q - p)) \<and> apart qs"

lemma load_store_apart: "4 \<le> unat (q - p) \<Longrightarrow> 4 \<le> unat (p - q) \<Longrightarrow> load32 (store32 p v m) q = load32 m q"
  using load_store_offset [of p q 0 v m] by (cases "p = q") simp_all

lemma window_4_comes_back:
  assumes "wbase y = wbase x" "reg 5 y = reg 5 x"
    "\<forall>q \<in> set (spill_words 4 x). load32 (xmem y) q = load32 (xmem (exec_block window_overflow_4 x)) q"
    "apart (spill_words 4 x)" "k < 4"
  shows "reg k (exec_block window_underflow_4 y) = reg k x"
proof -
  have "k = 0 \<or> k = 1 \<or> k = 2 \<or> k = 3" using assms(5) by linarith
  then show ?thesis using assms(1-4)
    by (elim disjE) (simp_all add: window_underflow_4_def window_overflow_4_def spill_words_def Let_def load_store_apart load_store32)
qed

lemma window_8_comes_back:
  assumes "wbase y = wbase x" "reg 9 y = reg 9 x"
    "\<forall>q \<in> set (spill_words 8 x). load32 (xmem y) q = load32 (xmem (exec_block window_overflow_8 x)) q"
    "apart (spill_words 8 x)" "k < 8"
  shows "reg k (exec_block window_underflow_8 y) = reg k x"
proof -
  have "k = 0 \<or> k = 1 \<or> k = 2 \<or> k = 3 \<or> k = 4 \<or> k = 5 \<or> k = 6 \<or> k = 7" using assms(5) by linarith
  then show ?thesis using assms(1-4)
    by (elim disjE) (simp_all add: window_underflow_8_def window_overflow_8_def spill_words_def Let_def upt_rec load_store_apart load_store32)
qed


lemma window_12_comes_back:
  assumes "wbase y = wbase x" "reg 13 y = reg 13 x"
    "\<forall>q \<in> set (spill_words 12 x). load32 (xmem y) q = load32 (xmem (exec_block window_overflow_12 x)) q"
    "apart (spill_words 12 x)" "k < 12"
  shows "reg k (exec_block window_underflow_12 y) = reg k x"
proof -
  have "k = 0 \<or> k = 1 \<or> k = 2 \<or> k = 3 \<or> k = 4 \<or> k = 5 \<or> k = 6 \<or> k = 7 \<or> k = 8 \<or> k = 9 \<or> k = 10 \<or> k = 11"
    using assms(5) by presburger
  then show ?thesis using assms(1-4)
    by (elim disjE) (simp_all add: window_underflow_12_def window_overflow_12_def spill_words_def Let_def upt_rec load_store_apart load_store32)
qed

subsection \<open>The round trip\<close>

lemma overflow_keeps: "wbase (exec_block (window_overflow n) x) = wbase x" "sreg (exec_block (window_overflow n) x) = sreg x"
  by (simp_all add: window_overflow_def window_overflow_4_def window_overflow_8_def window_overflow_12_def)

lemma underflow_keeps: "wbase (exec_block (window_underflow n) x) = wbase x" "sreg (exec_block (window_underflow n) x) = sreg x"
  by (simp_all add: window_underflow_def window_underflow_4_def window_underflow_8_def window_underflow_12_def)

lemma low_half: "(0xFFFF :: u32) = mask 16"
  by (simp add: mask_eq_exp_minus_1)

lemma rfwo_bit: "\<not> bit (sreg (rfwo x) Windowstart) (wbase x)"
  by (simp add: rfwo_def back_to_window_def sr_mask_def low_half bit_simps bit_1_iff)

lemma rfwu_bit: "bit (sreg (rfwu x) Windowstart) (wbase x)"
  using wbase_less [of x]
  by (simp add: rfwu_def back_to_window_def sr_mask_def low_half bit_simps bit_1_iff del: wbase_less)

lemma view_rfwu [simp]: "view b (rfwu x) k = view b x k"
  by (simp add: rfwu_def back_to_window_def)

text \<open>C19: A frame of four, eight or twelve registers that an overflow put on the stack comes back with the matching
  underflow, whatever used the registers in between, if the words it was put in are kept and do not overlap: all its registers
  are as before, and its bit is cleared by the overflow and set by the underflow.\<close>

theorem spilled_window_comes_back:
  assumes n: "n \<in> {4, 8, 12}" and a: "apart (spill_words n x)"
    and y: "wbase y = wbase x" "reg (n + 1) y = reg (n + 1) x"
      "\<forall>q \<in> set (spill_words n x). load32 (xmem y) q = load32 (xmem (exec_block (window_overflow n) x)) q"
  shows "\<not> bit (sreg (rfwo (exec_block (window_overflow n) x)) Windowstart) (wbase x) \<and>
    bit (sreg (rfwu (exec_block (window_underflow n) y)) Windowstart) (wbase x) \<and>
    (\<forall>k < n. view (wbase x) (rfwu (exec_block (window_underflow n) y)) k = view (wbase x) x k)"
proof (intro conjI allI impI)
  show "\<not> bit (sreg (rfwo (exec_block (window_overflow n) x)) Windowstart) (wbase x)"
    using rfwo_bit [of "exec_block (window_overflow n) x"] by (simp add: overflow_keeps)
  show "bit (sreg (rfwu (exec_block (window_underflow n) y)) Windowstart) (wbase x)"
    using rfwu_bit [of "exec_block (window_underflow n) y"] y(1) by (simp add: underflow_keeps)
  fix k assume k: "k < n"
  have "reg k (exec_block (window_underflow n) y) = reg k x"
    using n window_4_comes_back [of y x k] window_8_comes_back [of y x k] window_12_comes_back [of y x k] y a k
    by (auto simp: window_overflow_def window_underflow_def)
  then show "view (wbase x) (rfwu (exec_block (window_underflow n) y)) k = view (wbase x) x k"
    by (simp add: reg_def underflow_keeps y(1))
qed

definition spill_demo :: xtensa where
  "spill_demo = \<lparr>areg = (\<lambda>i. 0x3FFB0000 + 0x100 * of_nat i), sreg = (\<lambda>r. if r = Windowstart then 5 else 0), xmem = (\<lambda>_. 0)\<rparr>"

definition reused_demo :: xtensa where
  "reused_demo = spill_demo\<lparr>areg := (\<lambda>i. if i < 8 then 0 else areg spill_demo i),
     xmem := xmem (exec_block (window_overflow 8) spill_demo)\<rparr>"

lemma spill_demo_simps: "wbase spill_demo = 0" "wbase reused_demo = 0" "reg i spill_demo = 0x3FFB0000 + 0x100 * of_nat (i mod 64)"
  by (simp_all add: spill_demo_def reused_demo_def wbase_def reg_def view_def)

theorem spilled_window_comes_back_witness: "view 0 (rfwu (exec_block (window_underflow 8) reused_demo)) 3 = 0x3FFB0300"
proof -
  have z: "load32 (\<lambda>_. 0) q = 0" for q by (simp add: load32_def load_bytes_def word_of_bytes_def upt_rec)
  have "apart (spill_words 8 spill_demo)"
    by (simp add: spill_words_def Let_def spill_demo_simps upt_rec z) (simp add: spill_demo_def z)
  moreover have "reg 9 reused_demo = reg 9 spill_demo"
    by (simp add: reg_def spill_demo_simps(1,2)) (simp add: view_def reused_demo_def)
  moreover have "xmem reused_demo = xmem (exec_block (window_overflow 8) spill_demo)" by (simp add: reused_demo_def)
  ultimately have "\<forall>k < 8. view 0 (rfwu (exec_block (window_underflow 8) reused_demo)) k = view 0 spill_demo k"
    using spilled_window_comes_back [of 8 spill_demo reused_demo] by (simp add: spill_demo_simps(1,2))
  then show ?thesis by (simp add: view_def spill_demo_def)
qed

end
