(* ===== verification/Registers.thy ===== *)
theory Registers
  imports Timg Trace Trap_Correct
begin

section \<open>Registers as bit fields\<close>

text \<open>
  The hardware registers that \<^verbatim>\<open>drivers/*.c\<close> and \<^verbatim>\<open>arch/intrin.h\<close> declare as a union of
  a word and a structure of bit fields. A layout lists the fields with their widths, lowest bits
  first, which is the order the compiler gives them on this little-endian machine. The operations of
  the other theories work on bits and masks; here they are shown to be field accesses.
\<close>

subsection \<open>Layouts\<close>

type_synonym layout = "(string \<times> nat) list"

fun field_at :: "nat \<Rightarrow> layout \<Rightarrow> string \<Rightarrow> (nat \<times> nat) option" where
  "field_at o0 [] f = None"
| "field_at o0 ((g, n) # l) f = (if f = g then Some (o0, n) else field_at (o0 + n) l f)"

definition get_field :: "layout \<Rightarrow> string \<Rightarrow> u32 \<Rightarrow> u32" where
  "get_field l f w = (case field_at 0 l f of None \<Rightarrow> 0 | Some (i, n) \<Rightarrow> drop_bit i w AND mask n)"

definition set_field :: "layout \<Rightarrow> string \<Rightarrow> u32 \<Rightarrow> u32 \<Rightarrow> u32" where
  "set_field l f v w = (case field_at 0 l f of None \<Rightarrow> w
     | Some (i, n) \<Rightarrow> (w AND NOT (push_bit i (mask n))) OR push_bit i (v AND mask n))"

text \<open>A designated initializer: the fields it does not name are zero.\<close>

definition initializer :: "layout \<Rightarrow> (string \<times> u32) list \<Rightarrow> u32" where
  "initializer l fs = fold (\<lambda>(f, v). set_field l f v) fs 0"

definition field_width :: "layout \<Rightarrow> string \<Rightarrow> nat" where
  "field_width l f = (case field_at 0 l f of None \<Rightarrow> 0 | Some (i, n) \<Rightarrow> n)"

definition layout_wf :: "layout \<Rightarrow> bool" where
  "layout_wf l \<longleftrightarrow> distinct (map fst l) \<and> sum_list (map snd l) = 32 \<and> list_all (\<lambda>(f, n). 0 < n) l"

subsection \<open>The declared registers\<close>

definition TIMG_CONFIG_REG :: layout where
  "TIMG_CONFIG_REG =
     [(''_reserved0'', 10), (''alarm_en'', 1), (''level_int_en'', 1), (''edge_int_en'', 1), (''divider'', 16),
      (''autoreload'', 1), (''increase'', 1), (''en'', 1)]"

definition TIMG_WDTCONFIG_REG :: layout where
  "TIMG_WDTCONFIG_REG =
     [(''_reserved'', 14), (''flashboot_mod_en'', 1), (''sys_reset_length'', 3), (''cpu_reset_length'', 3),
      (''level_int_en'', 1), (''edge_int_en'', 1), (''stg3'', 2), (''stg2'', 2), (''stg1'', 2), (''stg0'', 2), (''en'', 1)]"

definition TIMG_INT_REG :: layout where
  "TIMG_INT_REG = [(''t0_int'', 1), (''t1_int'', 1), (''wdt_int'', 1), (''_reserved'', 29)]"

definition DPORT_CACHE_CTRL_REG :: layout where
  "DPORT_CACHE_CTRL_REG =
     [(''_reserved0'', 3), (''cache_enable'', 1), (''cache_flush_ena'', 1), (''cache_flush_done'', 1), (''_reserved1'', 4),
      (''single_iram_enable'', 1), (''dram_split'', 1), (''_reserved2'', 4), (''dram_hl'', 1), (''_reserved3'', 15)]"

definition DPORT_MMU_TABLE_REG :: layout where
  "DPORT_MMU_TABLE_REG = [(''address'', 4), (''access_rights'', 3), (''_reserved'', 25)]"

definition ps_t :: layout where
  "ps_t =
     [(''intlevel'', 4), (''excm'', 1), (''um'', 1), (''ring'', 2), (''owb'', 4), (''_reserved0'', 4), (''callinc'', 2),
      (''woe'', 1), (''_reserved1'', 13)]"

definition UART_STATUS_REG :: layout where
  "UART_STATUS_REG =
     [(''rxfifo_cnt'', 8), (''st_urx_out'', 4), (''_reserved0'', 1), (''dsrn'', 1), (''ctsn'', 1), (''rxd'', 1),
      (''txfifo_cnt'', 8), (''st_utx_out'', 4), (''_reserved1'', 1), (''dtrn'', 1), (''rtsn'', 1), (''txd'', 1)]"

definition UART_INT_REG :: layout where
  "UART_INT_REG =
     [(''rxfifo_full'', 1), (''txfifo_empty'', 1), (''parity_err'', 1), (''frm_err'', 1), (''rxfifo_ovf'', 1),
      (''dsr_chg'', 1), (''cts_chg'', 1), (''brk_det'', 1), (''rxfifo_tout'', 1), (''sw_xon'', 1), (''sw_xoff'', 1),
      (''glitch_det'', 1), (''tx_brk_done'', 1), (''tx_brk_idle'', 1), (''tx_done'', 1), (''rs485_parity_err'', 1),
      (''rs485_frm_err'', 1), (''rs485_clash'', 1), (''at_cmd_char_det'', 1), (''_reserved'', 13)]"

definition RTC_CNTL_SLP_TIMER1_REG :: layout where
  "RTC_CNTL_SLP_TIMER1_REG = [(''slp_val_hi'', 16), (''main_timer_alarm_en'', 1), (''_reserved'', 15)]"

definition RTC_CNTL_INT_REG :: layout where
  "RTC_CNTL_INT_REG =
     [(''slp_wakeup_int'', 1), (''slp_reject_int'', 1), (''sdio_idle_int'', 1), (''wdt_int'', 1), (''time_valid_int'', 1),
      (''ulp_cp_int'', 1), (''touch_int'', 1), (''brown_out_int'', 1), (''main_timer_int'', 1), (''_reserved'', 23)]"

definition RTC_CNTL_TIME_UPDATE_REG :: layout where
  "RTC_CNTL_TIME_UPDATE_REG = [(''_reserved'', 30), (''time_valid'', 1), (''time_update'', 1)]"

definition RTC_CNTL_WDTCONFIG0_REG :: layout where
  "RTC_CNTL_WDTCONFIG0_REG =
     [(''_reserved0'', 7), (''pause_in_slp'', 1), (''appcpu_reset_en'', 1), (''procpu_reset_en'', 1),
      (''fashboot_mod_en'', 1), (''sys_reset_length'', 3), (''cpu_reset_length'', 3), (''_reserved1'', 1),
      (''_reserved2'', 1), (''stg3'', 3), (''stg2'', 3), (''stg1'', 3), (''stg0'', 3), (''en'', 1)]"

lemmas layout_defs = TIMG_CONFIG_REG_def TIMG_WDTCONFIG_REG_def TIMG_INT_REG_def DPORT_CACHE_CTRL_REG_def
  DPORT_MMU_TABLE_REG_def ps_t_def UART_STATUS_REG_def UART_INT_REG_def RTC_CNTL_SLP_TIMER1_REG_def
  RTC_CNTL_INT_REG_def RTC_CNTL_TIME_UPDATE_REG_def RTC_CNTL_WDTCONFIG0_REG_def

definition register_layouts :: "layout list" where
  "register_layouts =
     [TIMG_CONFIG_REG, TIMG_WDTCONFIG_REG, TIMG_INT_REG, DPORT_CACHE_CTRL_REG, DPORT_MMU_TABLE_REG, ps_t,
      UART_STATUS_REG, UART_INT_REG, RTC_CNTL_SLP_TIMER1_REG, RTC_CNTL_INT_REG, RTC_CNTL_TIME_UPDATE_REG,
      RTC_CNTL_WDTCONFIG0_REG]"

lemma layouts_wf: "list_all layout_wf register_layouts"
  by (simp add: register_layouts_def layout_wf_def layout_defs)

subsection \<open>Field access\<close>

lemma field_at_bounds:
  "field_at o0 l f = Some (i, n) \<Longrightarrow> o0 \<le> i \<and> i + n \<le> o0 + sum_list (map snd l) \<and> (f, n) \<in> set l"
  by (induction l arbitrary: o0) (auto split: if_splits, fastforce+)

lemma field_at_apart:
  "field_at o0 l f = Some (i, n) \<Longrightarrow> field_at o0 l g = Some (j, k) \<Longrightarrow> f \<noteq> g \<Longrightarrow> i + n \<le> j \<or> j + k \<le> i"
proof (induction l arbitrary: o0)
  case (Cons h l)
  then show ?case
    by (cases h) (auto split: if_splits dest!: field_at_bounds)
qed simp

lemma field_at_some: "f \<in> fst ` set l \<Longrightarrow> \<exists>i n. field_at o0 l f = Some (i, n)"
  by (induction l arbitrary: o0) (auto, force)

lemma bit_get_field:
  "field_at 0 l f = Some (i, n) \<Longrightarrow> bit (get_field l f w) b \<longleftrightarrow> b < n \<and> bit w (b + i)"
  by (auto simp: get_field_def bit_simps add.commute dest: bit_imp_le_length)

lemma bit_set_field:
  "field_at 0 l f = Some (i, n) \<Longrightarrow> b < 32 \<Longrightarrow>
     bit (set_field l f v w) b \<longleftrightarrow> (if i \<le> b \<and> b < i + n then bit v (b - i) else bit w b)"
  by (auto simp: set_field_def bit_simps)

lemma get_set_field:
  assumes "layout_wf l" "f \<in> fst ` set l"
  shows "get_field l f (set_field l f v w) = v AND mask (field_width l f)"
proof -
  obtain i n where f: "field_at 0 l f = Some (i, n)" using field_at_some assms(2) by metis
  have "i + n \<le> 32" using field_at_bounds [OF f] assms(1) by (simp add: layout_wf_def)
  then show ?thesis
    by (intro bit_word_eqI) (auto simp: bit_get_field [OF f] bit_set_field [OF f] field_width_def f bit_simps)
qed

lemma get_set_other:
  assumes "layout_wf l" "f \<in> fst ` set l" "g \<in> fst ` set l" "f \<noteq> g"
  shows "get_field l g (set_field l f v w) = get_field l g w"
proof -
  obtain i n where f: "field_at 0 l f = Some (i, n)" using field_at_some assms(2) by metis
  obtain j k where g: "field_at 0 l g = Some (j, k)" using field_at_some assms(3) by metis
  have "j + k \<le> 32" using field_at_bounds [OF g] assms(1) by (simp add: layout_wf_def)
  moreover have "i + n \<le> j \<or> j + k \<le> i" using field_at_apart [OF f g assms(4)] .
  ultimately show ?thesis
    by (intro bit_word_eqI) (auto simp: bit_get_field [OF g] bit_set_field [OF f])
qed

text \<open>Every bit of the register belongs to a field, so a word is determined by its fields.\<close>

lemma field_at_covers:
  "distinct (map fst l) \<Longrightarrow> o0 \<le> b \<Longrightarrow> b < o0 + sum_list (map snd l) \<Longrightarrow>
     \<exists>f \<in> fst ` set l. \<exists>i n. field_at o0 l f = Some (i, n) \<and> i \<le> b \<and> b < i + n"
proof (induction l arbitrary: o0)
  case (Cons h l)
  obtain g m where h: "h = (g, m)" by fastforce
  show ?case
  proof (cases "b < o0 + m")
    case True
    then show ?thesis using Cons.prems by (intro bexI [of _ g]) (auto simp: h)
  next
    case False
    then obtain f i n where "f \<in> fst ` set l" "field_at (o0 + m) l f = Some (i, n)" "i \<le> b" "b < i + n"
      using Cons.IH [of "o0 + m"] Cons.prems by (auto simp: h)
    then show ?thesis using Cons.prems by (intro bexI [of _ f]) (auto simp: h)
  qed
qed simp

lemma fields_determine:
  assumes "layout_wf l" "\<And>f. f \<in> fst ` set l \<Longrightarrow> get_field l f v = get_field l f w"
  shows "v = w"
proof (rule bit_word_eqI)
  fix b assume "b < LENGTH(32)"
  then obtain f i n where f: "f \<in> fst ` set l" "field_at 0 l f = Some (i, n)" "i \<le> b" "b < i + n"
    using field_at_covers [of l 0 b] assms(1) by (auto simp: layout_wf_def)
  then have "bit (get_field l f v) (b - i) \<longleftrightarrow> bit v b" "bit (get_field l f w) (b - i) \<longleftrightarrow> bit w b"
    by (auto simp: bit_get_field [OF f(2)])
  then show "bit v b \<longleftrightarrow> bit w b" using assms(2) [OF f(1)] by simp
qed

subsection \<open>Operations and their fields\<close>

text \<open>A field of one bit is a bit of the word.\<close>

lemma bit_field:
  assumes "field_at 0 l f = Some (i, 1)" "i < 32"
  shows "set_field l f 1 w = w OR push_bit i 1" "set_field l f 0 w = w AND NOT (push_bit i 1)"
    "get_field l f w = of_bool (bit w i)"
  using assms by (auto simp: set_field_def get_field_def bit_simps intro!: bit_word_eqI)

lemma one_bit_fields:
  "field_at 0 TIMG_WDTCONFIG_REG ''en'' = Some (31, 1)" "field_at 0 TIMG_INT_REG ''wdt_int'' = Some (2, 1)"
  "field_at 0 DPORT_CACHE_CTRL_REG ''cache_enable'' = Some (3, 1)"
  "field_at 0 DPORT_CACHE_CTRL_REG ''cache_flush_ena'' = Some (4, 1)"
  "field_at 0 DPORT_CACHE_CTRL_REG ''cache_flush_done'' = Some (5, 1)"
  by (simp_all add: layout_defs)

lemma poll_fields:
  "poll_flush_done rd n =
     (if get_field DPORT_CACHE_CTRL_REG ''cache_flush_done'' (rd n) = 1 then Some (Suc n) else poll_flush_done rd (Suc n))"
  using poll_flush_done.simps [of rd n] by (simp add: bit_field [OF one_bit_fields(5)])

lemma txfifo_field: "txfifo_cnt w = get_field UART_STATUS_REG ''txfifo_cnt'' w"
  by (simp add: txfifo_cnt_def get_field_def UART_STATUS_REG_def mask_eq_exp_minus_1)

lemma wdtconfig_fields:
  "wdtconfig_init = initializer TIMG_WDTCONFIG_REG [(''level_int_en'', 1), (''stg0'', 1), (''stg1'', 3)]"
  by (simp add: wdtconfig_init_def initializer_def set_field_def TIMG_WDTCONFIG_REG_def mask_eq_exp_minus_1)

lemma ps_fields:
  "ps_bits 0 excm um woe = initializer ps_t [(''excm'', of_bool excm), (''um'', of_bool um), (''woe'', of_bool woe)]"
  by (cases excm; cases um; cases woe) (simp_all add: ps_bits_def initializer_def set_field_def ps_t_def mask_eq_exp_minus_1)

text \<open>The record that stands for an entry of the MMU tables, read from the register's word.\<close>

definition mmu_table_of :: "u32 \<Rightarrow> mmu_table_reg" where
  "mmu_table_of w =
     \<lparr>address = ucast (get_field DPORT_MMU_TABLE_REG ''address'' w),
      access_rights = ucast (get_field DPORT_MMU_TABLE_REG ''access_rights'' w),
      mmu_reserved = ucast (get_field DPORT_MMU_TABLE_REG ''_reserved'' w)\<rparr>"

lemma mmu_table_fields:
  "mmu_table_of (set_field DPORT_MMU_TABLE_REG ''address'' v w) = (mmu_table_of w)\<lparr>address := ucast v\<rparr>"
  "mmu_table_of (set_field DPORT_MMU_TABLE_REG ''access_rights'' v w) = (mmu_table_of w)\<lparr>access_rights := ucast v\<rparr>"
proof -
  have wf: "layout_wf DPORT_MMU_TABLE_REG" using layouts_wf by (simp add: register_layouts_def)
  have names: "''address'' \<in> fst ` set DPORT_MMU_TABLE_REG" "''access_rights'' \<in> fst ` set DPORT_MMU_TABLE_REG"
    "''_reserved'' \<in> fst ` set DPORT_MMU_TABLE_REG"
    by (simp_all add: DPORT_MMU_TABLE_REG_def)
  have widths: "field_width DPORT_MMU_TABLE_REG ''address'' = 4" "field_width DPORT_MMU_TABLE_REG ''access_rights'' = 3"
    by (simp_all add: field_width_def DPORT_MMU_TABLE_REG_def)
  have cut: "ucast (v AND mask 4) = (ucast v :: 4 word)" "ucast (v AND mask 3) = (ucast v :: 3 word)"
    by (auto intro!: bit_word_eqI simp: bit_simps)
  show "mmu_table_of (set_field DPORT_MMU_TABLE_REG ''address'' v w) = (mmu_table_of w)\<lparr>address := ucast v\<rparr>"
    using cut(1) by (simp add: mmu_table_of_def get_set_field wf names widths get_set_other)
  show "mmu_table_of (set_field DPORT_MMU_TABLE_REG ''access_rights'' v w) = (mmu_table_of w)\<lparr>access_rights := ucast v\<rparr>"
    using cut(2) by (simp add: mmu_table_of_def get_set_field wf names widths get_set_other)
qed

lemma rights_field: "uint (access_rights (mmu_table_of w)) = uint (get_field DPORT_MMU_TABLE_REG ''access_rights'' w)"
proof -
  have "uint (ucast (v AND mask 3) :: 3 word) = uint (v AND mask 3)" for v :: u32
    by (simp add: unsigned_ucast_eq unsigned_take_bit_eq flip: take_bit_eq_mask)
  then show ?thesis by (simp add: mmu_table_of_def get_field_def DPORT_MMU_TABLE_REG_def)
qed

lemma clear_rights_fields:
  "clear_rights hw (mmu_table_of w) =
     (if get_field DPORT_MMU_TABLE_REG ''access_rights'' w = ucast hw
      then mmu_table_of (set_field DPORT_MMU_TABLE_REG ''access_rights'' 0 w) else mmu_table_of w)"
proof -
  have "uint (ucast hw :: u32) = uint hw"
    using unsigned_less [of hw, where ?'a = int] by (simp add: unsigned_ucast_eq take_bit_int_eq_self_iff)
  then have "uint v = uint hw \<longleftrightarrow> v = ucast hw" for v :: u32 by (metis word_uint_eq_iff)
  then show ?thesis unfolding clear_rights_def rights_field by (simp add: mmu_table_fields(2))
qed

subsection \<open>Numbered tables\<close>

text \<open>
  \<^verbatim>\<open>mpu_peripheral\<close>, the addresses that \<^verbatim>\<open>dport.c\<close> asserts for its members relative to
  the base of the DPORT registers, \<^verbatim>\<open>interrupt_source\<close> and \<^verbatim>\<open>exception_cause\<close>.
\<close>

definition mpu_peripherals :: "(string \<times> nat) list" where
  "mpu_peripherals =
     [(''MPU_UART'', 0), (''MPU_SPI1'', 1), (''MPU_SPI0'', 2), (''MPU_GPIO'', 3), (''MPU_RTC'', 7), (''MPU_IO_MUX'', 8),
      (''MPU_HINF'', 10), (''MPU_UHCI1'', 11), (''MPU_I2S0'', 14), (''MPU_UART1'', 15), (''MPU_I2C_EXT0'', 18),
      (''MPU_UHCI0'', 19), (''MPU_SLCHOST'', 20), (''MPU_RMT'', 21), (''MPU_PCNT'', 22), (''MPU_SLC'', 23),
      (''MPU_LEDC'', 24), (''MPU_EFUSE'', 25), (''MPU_SPI_ENCRYPT'', 26), (''MPU_PWM0'', 28), (''MPU_TIMERGROUP'', 29),
      (''MPU_TIMERGROUP1'', 30), (''MPU_SPI2'', 31), (''MPU_SPI3'', 32), (''MPU_APB_CTRL'', 33), (''MPU_I2C_EXT1'', 34),
      (''MPU_SDIO_HOST'', 35), (''MPU_EMAC'', 36), (''MPU_PWM1'', 38), (''MPU_I2S1'', 39), (''MPU_UART2'', 40),
      (''MPU_PWR'', 46)]"

definition mpu_addresses :: "(string \<times> nat) list" where
  "mpu_addresses =
     [(''MPU_UART'', 0x32C), (''MPU_SPI1'', 0x330), (''MPU_SPI0'', 0x334), (''MPU_GPIO'', 0x338), (''MPU_RTC'', 0x348),
      (''MPU_IO_MUX'', 0x34C), (''MPU_HINF'', 0x354), (''MPU_UHCI1'', 0x358), (''MPU_I2S0'', 0x364), (''MPU_UART1'', 0x368),
      (''MPU_I2C_EXT0'', 0x374), (''MPU_UHCI0'', 0x378), (''MPU_SLCHOST'', 0x37C), (''MPU_RMT'', 0x380),
      (''MPU_PCNT'', 0x384), (''MPU_SLC'', 0x388), (''MPU_LEDC'', 0x38C), (''MPU_EFUSE'', 0x390),
      (''MPU_SPI_ENCRYPT'', 0x394), (''MPU_PWM0'', 0x39C), (''MPU_TIMERGROUP'', 0x3A0), (''MPU_TIMERGROUP1'', 0x3A4),
      (''MPU_SPI2'', 0x3A8), (''MPU_SPI3'', 0x3AC), (''MPU_APB_CTRL'', 0x3B0), (''MPU_I2C_EXT1'', 0x3B4),
      (''MPU_SDIO_HOST'', 0x3B8), (''MPU_EMAC'', 0x3BC), (''MPU_PWM1'', 0x3C4), (''MPU_I2S1'', 0x3C8),
      (''MPU_UART2'', 0x3CC), (''MPU_PWR'', 0x3E4)]"

definition interrupt_sources :: "(string \<times> int) list" where
  "interrupt_sources =
     [(''INVALID_INT_SOURCE'', - 1), (''TG_T0_LEVEL_INT'', 14), (''TG_T1_LEVEL_INT'', 15), (''TG_WDT_LEVEL_INT'', 16),
      (''TG_LACT_LEVEL_INT'', 17), (''TG1_T0_LEVEL_INT'', 18), (''TG1_T1_LEVEL_INT'', 19), (''TG1_WDT_LEVEL_INT'', 20),
      (''TG1_LACT_LEVEL_INT'', 21), (''GPIO_INTERRUPT'', 22), (''GPIO_INTERRUPT_NMI'', 23), (''SPI_INTR_0'', 28),
      (''SPI_INTR_1'', 29), (''SPI_INTR_2'', 30), (''SPI_INTR_3'', 31), (''UART_INTR'', 34), (''UART1_INTR'', 35),
      (''UART2_INTR'', 36), (''I2C_EXT0_INTR'', 49), (''I2C_EXT1_INTR'', 50), (''MMU_IA_INT'', 66), (''MPU_IA_INT'', 67),
      (''CACHE_IA_INT'', 68), (''INTERRUPT_SOURCE_MAX'', 69)]"

definition exception_causes :: "(string \<times> nat) list" where
  "exception_causes =
     [(''IllegalInstructionCause'', 0), (''SyscallCause'', 1), (''InstructionFetchErrorCause'', 2),
      (''LoadStoreErrorCause'', 3), (''Level1InterruptCause'', 4), (''AllocaCause'', 5), (''IntegerDivideByZero'', 6),
      (''PrivilegedCause'', 8), (''LoadStoreAlignmentCause'', 9), (''InstrPIFDataErrorCause'', 12),
      (''LoadStorePIFDataErrorCause'', 13), (''InstrPIFAddrErrorCause'', 14), (''LoadStorePIFAddrErrorCause'', 15),
      (''InstTLBMissCause'', 16), (''InstTLBMultiHitCause'', 17), (''InstFetchPrivilegeCause'', 18),
      (''InstFetchProhibitedCause'', 20), (''LoadStoreTLBMissCause'', 24), (''LoadStoreTLBMultiHitCause'', 25),
      (''LoadStorePrivilegeCause'', 26), (''LoadProhibitedCause'', 28), (''StoreProhibitedCause'', 29),
      (''Coprocessor0Disabled'', 32), (''Coprocessor1Disabled'', 33), (''Coprocessor2Disabled'', 34),
      (''Coprocessor3Disabled'', 35), (''Coprocessor4Disabled'', 36), (''Coprocessor5Disabled'', 37),
      (''Coprocessor6Disabled'', 38), (''Coprocessor7Disabled'', 39)]"

text \<open>Every asserted address is the peripheral's entry of the table at \<^verbatim>\<open>0x32C\<close>, inside it.\<close>

lemma mpu_table_addresses:
  "map (\<lambda>(p, n). (p, 0x32C + n * 4)) mpu_peripherals = mpu_addresses"
  "list_all (\<lambda>(p, n). n < MPU_LAST) mpu_peripherals"
  by (simp_all add: mpu_peripherals_def mpu_addresses_def MPU_LAST_def)

text \<open>The exception report has a name for exactly the causes of the enumeration, and the right one.\<close>

lemma cause_names:
  "m_cause_str = map (\<lambda>n. map_of (map (\<lambda>(c, k). (k, c)) exception_causes) n) [0..<40]"
  by code_simp

text \<open>Every source but the two marks has an entry in the maps of the interrupt matrix.\<close>

lemma interrupt_source_range:
  "distinct (map snd interrupt_sources)"
  "list_all (\<lambda>(s, n). s = ''INVALID_INT_SOURCE'' \<or> s = ''INTERRUPT_SOURCE_MAX'' \<or> 0 \<le> n \<and> n < int INTERRUPT_SOURCE_MAX)
     interrupt_sources"
  "map_of interrupt_sources ''TG_WDT_LEVEL_INT'' = Some TG_WDT_LEVEL_INT"
  "map_of interrupt_sources ''INTERRUPT_SOURCE_MAX'' = Some (int INTERRUPT_SOURCE_MAX)"
  by (simp_all add: interrupt_sources_def INTERRUPT_SOURCE_MAX_def TG_WDT_LEVEL_INT_def)

subsection \<open>The register file as a structure\<close>

text \<open>
  \<^verbatim>\<open>task_regs_t\<close> with its fields' sizes in bytes, and the offsets that \<^verbatim>\<open>task.h\<close> asserts for the
  constants the assembly uses.
\<close>

definition task_regs_t :: layout where
  "task_regs_t =
     [(''ar'', 4 * 64), (''sar'', 4), (''lbeg'', 4), (''lend'', 4), (''lcount'', 4), (''pc'', 4), (''ps'', 4),
      (''windowbase'', 4), (''windowstart'', 4), (''windowmask'', 2), (''windowsize'', 2)]"

definition task_regs_offsets :: "(string \<times> u32) list" where
  "task_regs_offsets =
     [(''sar'', TASK_REGS_SAR), (''lbeg'', TASK_REGS_LBEG), (''lend'', TASK_REGS_LEND), (''lcount'', TASK_REGS_LCOUNT),
      (''pc'', TASK_REGS_PC), (''ps'', TASK_REGS_PS), (''windowbase'', TASK_REGS_WINDOWBASE),
      (''windowstart'', TASK_REGS_WINDOWSTART), (''windowmask'', TASK_REGS_WINDOWMASK)]"

lemmas TASK_REGS_defs = TASK_REGS_SAR_def TASK_REGS_LBEG_def TASK_REGS_LEND_def TASK_REGS_LCOUNT_def TASK_REGS_PC_def
  TASK_REGS_PS_def TASK_REGS_WINDOWBASE_def TASK_REGS_WINDOWSTART_def TASK_REGS_WINDOWMASK_def TASK_REGS_WINDOWSIZE_def

lemma task_regs_asserts:
  "list_all (\<lambda>(f, o1). map_option (\<lambda>(i, n). of_nat i) (field_at 0 task_regs_t f) = Some o1) task_regs_offsets"
  "sum_list (map snd task_regs_t) = TASK_REGS_SIZE"
  "field_at 0 task_regs_t ''windowsize'' = Some (unat TASK_REGS_WINDOWSIZE, 2)"
  by (simp_all add: task_regs_t_def task_regs_offsets_def TASK_REGS_defs TASK_REGS_SIZE_def)

text \<open>The record the C handlers work on is read and written at these offsets.\<close>

lemma read_regs_offsets:
  "read_regs a m =
     \<lparr>ar = map (\<lambda>k. load32 m (a + TASK_REGS_AR k)) [0..<64], sar = load32 m (a + TASK_REGS_SAR),
      lbeg = load32 m (a + TASK_REGS_LBEG), lend = load32 m (a + TASK_REGS_LEND), lcount = load32 m (a + TASK_REGS_LCOUNT),
      pc = load32 m (a + TASK_REGS_PC), ps = load32 m (a + TASK_REGS_PS), windowbase = load32 m (a + TASK_REGS_WINDOWBASE),
      windowstart = load32 m (a + TASK_REGS_WINDOWSTART), windowmask = ucast (load16 m (a + TASK_REGS_WINDOWMASK)),
      windowsize = ucast (load16 m (a + TASK_REGS_WINDOWSIZE))\<rparr>"
  by (simp add: read_regs_frame fw_def TASK_REGS_defs TASK_REGS_AR_def mult.commute)

text \<open>The registers of a timer, one word each.\<close>

definition TIMG_REG :: layout where
  "TIMG_REG =
     [(''config'', 4), (''lo'', 4), (''hi'', 4), (''update'', 4), (''alarmlo'', 4), (''alarmhi'', 4), (''loadlo'', 4),
      (''loadhi'', 4), (''load'', 4)]"

lemma timg_reg_assert: "sum_list (map snd TIMG_REG) = 0x24"
  by (simp add: TIMG_REG_def)

text \<open>
  The bits of the fields, from the highest, as the technical reference manual of the chip and the instruction set manual (for
  \<^verbatim>\<open>ps\<close>) document them; the reserved ones are what is left.
\<close>

definition documented_bits :: "(layout \<times> (string \<times> nat \<times> nat) list) list" where
  "documented_bits =
     [(TIMG_CONFIG_REG,
       [(''en'', 31, 31), (''increase'', 30, 30), (''autoreload'', 29, 29), (''divider'', 28, 13),
        (''edge_int_en'', 12, 12), (''level_int_en'', 11, 11), (''alarm_en'', 10, 10),
        (''_reserved0'', 9, 0)]),
      (TIMG_WDTCONFIG_REG,
       [(''en'', 31, 31), (''stg0'', 30, 29), (''stg1'', 28, 27), (''stg2'', 26, 25), (''stg3'', 24, 23),
        (''edge_int_en'', 22, 22), (''level_int_en'', 21, 21), (''cpu_reset_length'', 20, 18),
        (''sys_reset_length'', 17, 15), (''flashboot_mod_en'', 14, 14), (''_reserved'', 13, 0)]),
      (TIMG_INT_REG,
       [(''_reserved'', 31, 3), (''wdt_int'', 2, 2), (''t1_int'', 1, 1), (''t0_int'', 0, 0)]),
      (DPORT_CACHE_CTRL_REG,
       [(''_reserved3'', 31, 17), (''dram_hl'', 16, 16), (''_reserved2'', 15, 12), (''dram_split'', 11, 11),
        (''single_iram_enable'', 10, 10), (''_reserved1'', 9, 6), (''cache_flush_done'', 5, 5),
        (''cache_flush_ena'', 4, 4), (''cache_enable'', 3, 3), (''_reserved0'', 2, 0)]),
      (DPORT_MMU_TABLE_REG,
       [(''_reserved'', 31, 7), (''access_rights'', 6, 4), (''address'', 3, 0)]),
      (ps_t,
       [(''_reserved1'', 31, 19), (''woe'', 18, 18), (''callinc'', 17, 16), (''_reserved0'', 15, 12),
        (''owb'', 11, 8), (''ring'', 7, 6), (''um'', 5, 5), (''excm'', 4, 4), (''intlevel'', 3, 0)]),
      (UART_STATUS_REG,
       [(''txd'', 31, 31), (''rtsn'', 30, 30), (''dtrn'', 29, 29), (''_reserved1'', 28, 28),
        (''st_utx_out'', 27, 24), (''txfifo_cnt'', 23, 16), (''rxd'', 15, 15), (''ctsn'', 14, 14),
        (''dsrn'', 13, 13), (''_reserved0'', 12, 12), (''st_urx_out'', 11, 8), (''rxfifo_cnt'', 7, 0)]),
      (UART_INT_REG,
       [(''_reserved'', 31, 19), (''at_cmd_char_det'', 18, 18), (''rs485_clash'', 17, 17),
        (''rs485_frm_err'', 16, 16), (''rs485_parity_err'', 15, 15), (''tx_done'', 14, 14),
        (''tx_brk_idle'', 13, 13), (''tx_brk_done'', 12, 12), (''glitch_det'', 11, 11),
        (''sw_xoff'', 10, 10), (''sw_xon'', 9, 9), (''rxfifo_tout'', 8, 8), (''brk_det'', 7, 7),
        (''cts_chg'', 6, 6), (''dsr_chg'', 5, 5), (''rxfifo_ovf'', 4, 4), (''frm_err'', 3, 3),
        (''parity_err'', 2, 2), (''txfifo_empty'', 1, 1), (''rxfifo_full'', 0, 0)]),
      (RTC_CNTL_SLP_TIMER1_REG,
       [(''_reserved'', 31, 17), (''main_timer_alarm_en'', 16, 16), (''slp_val_hi'', 15, 0)]),
      (RTC_CNTL_INT_REG,
       [(''_reserved'', 31, 9), (''main_timer_int'', 8, 8), (''brown_out_int'', 7, 7), (''touch_int'', 6, 6),
        (''ulp_cp_int'', 5, 5), (''time_valid_int'', 4, 4), (''wdt_int'', 3, 3), (''sdio_idle_int'', 2, 2),
        (''slp_reject_int'', 1, 1), (''slp_wakeup_int'', 0, 0)]),
      (RTC_CNTL_TIME_UPDATE_REG,
       [(''time_update'', 31, 31), (''time_valid'', 30, 30), (''_reserved'', 29, 0)]),
      (RTC_CNTL_WDTCONFIG0_REG,
       [(''en'', 31, 31), (''stg0'', 30, 28), (''stg1'', 27, 25), (''stg2'', 24, 22), (''stg3'', 21, 19),
        (''_reserved2'', 18, 18), (''_reserved1'', 17, 17), (''cpu_reset_length'', 16, 14),
        (''sys_reset_length'', 13, 11), (''fashboot_mod_en'', 10, 10), (''procpu_reset_en'', 9, 9),
        (''appcpu_reset_en'', 8, 8), (''pause_in_slp'', 7, 7), (''_reserved0'', 6, 0)])]"

lemma documented_layouts:
  "list_all (\<lambda>(l, bs). map fst bs = rev (map fst l) \<and> layout_wf l) documented_bits"
  "list_all (\<lambda>(l, bs). list_all (\<lambda>(f, hi, lo). lo \<le> hi \<and> hi < 32 \<and> field_at 0 l f = Some (lo, Suc hi - lo)) bs) documented_bits"
  by (simp_all add: documented_bits_def layout_wf_def layout_defs)

lemma documented_field:
  assumes "(l, bs) \<in> set documented_bits" "(f, hi, lo) \<in> set bs"
  shows "layout_wf l" "f \<in> fst ` set l" "lo \<le> hi" "hi < 32" "field_at 0 l f = Some (lo, Suc hi - lo)"
proof -
  have "map fst bs = rev (map fst l) \<and> layout_wf l" using documented_layouts(1) assms(1) by (auto simp: list_all_iff)
  then have "fst ` set bs = fst ` set l" and wf: "layout_wf l" by (metis list.set_map set_rev, simp)
  then show "f \<in> fst ` set l" "layout_wf l" using assms(2) by force+
  show "lo \<le> hi" "hi < 32" "field_at 0 l f = Some (lo, Suc hi - lo)"
    using documented_layouts(2) assms by (auto simp: list_all_iff)
qed

subsection \<open>Properties\<close>

text \<open>C29: The bit fields of the twelve register unions lie where the hardware has them: the field a declaration gives the name
  is the one at the documented bits, so reading it gives those bits of the register, and writing it puts the value, cut to
  the width, there and leaves every other bit of the register as it was.\<close>

theorem register_fields:
  assumes "(l, bs) \<in> set documented_bits" "(f, hi, lo) \<in> set bs"
  shows "get_field l f w = drop_bit lo (take_bit (Suc hi) w) \<and>
    get_field l f (set_field l f v w) = take_bit (Suc hi - lo) v \<and>
    (\<forall>b < 32. b < lo \<or> hi < b \<longrightarrow> bit (set_field l f v w) b = bit w b)"
proof (intro conjI allI impI)
  note d = documented_field [OF assms]
  show "get_field l f w = drop_bit lo (take_bit (Suc hi) w)"
    by (rule bit_word_eqI) (use d(3) in \<open>auto simp: bit_get_field [OF d(5)] bit_simps add.commute\<close>)
  show "get_field l f (set_field l f v w) = take_bit (Suc hi - lo) v"
    using get_set_field [OF d(1,2)] by (simp add: field_width_def d(5) take_bit_eq_mask)
  show "bit (set_field l f v w) b = bit w b" if "b < 32" "b < lo \<or> hi < b" for b
    using that d(3) by (auto simp: bit_set_field [OF d(5)])
qed

theorem register_fields_witness:
  "get_field TIMG_WDTCONFIG_REG ''stg0'' 0x20000000 = 1 \<and>
   get_field TIMG_WDTCONFIG_REG ''stg0'' (set_field TIMG_WDTCONFIG_REG ''stg0'' 7 0x80000000) = 3 \<and>
   bit (set_field TIMG_WDTCONFIG_REG ''stg0'' 7 0x80000000) 31"
proof -
  define bs where "bs = snd (documented_bits ! 1)"
  have "1 < length documented_bits" "documented_bits ! 1 = (TIMG_WDTCONFIG_REG, bs)" by (simp_all add: documented_bits_def bs_def)
  then have "(TIMG_WDTCONFIG_REG, bs) \<in> set documented_bits" by (metis nth_mem)
  moreover have "(''stg0'', 30, 29) \<in> set bs" by (simp add: documented_bits_def bs_def)
  ultimately have m: "(TIMG_WDTCONFIG_REG, bs) \<in> set documented_bits" "(''stg0'', 30, 29) \<in> set bs" .
  from register_fields [OF m, of "0x20000000" 7] register_fields [OF m, of "0x80000000" 7]
  show ?thesis by (simp add: bit_simps)
qed

text \<open>C30: The masks and bits of the drivers are the declared fields: enabling and disabling the watchdog write its
  en field, its first configuration is the designated initializer, its handler tests wdt_int, the cache loop polls
  cache_flush_done and the cache is enabled through cache_enable, revoking a page clears access_rights, the serial
  port reads txfifo_cnt, and a new task's program status sets um and woe.\<close>

theorem operations_use_fields:
  "timg_regs (wdt_enable t) TIMG0_WDTCONFIG = set_field TIMG_WDTCONFIG_REG ''en'' 1 (timg_regs t TIMG0_WDTCONFIG) \<and>
   timg_regs (wdt_disable t) TIMG0_WDTCONFIG = set_field TIMG_WDTCONFIG_REG ''en'' 0 (timg_regs t TIMG0_WDTCONFIG) \<and>
   wdtconfig_init = initializer TIMG_WDTCONFIG_REG [(''level_int_en'', 1), (''stg0'', 1), (''stg1'', 3)] \<and>
   fst (wdt_handle t) = (get_field TIMG_INT_REG ''wdt_int'' (timg_regs t TIMG0_INT_ST) = 1) \<and>
   poll_flush_done rd n =
     (if get_field DPORT_CACHE_CTRL_REG ''cache_flush_done'' (rd n) = 1 then Some (Suc n) else poll_flush_done rd (Suc n)) \<and>
   flushed_and_enabled rd = andthen (loop_result (poll_flush_done rd 1))
     (\<lambda>n. Inr (set_field DPORT_CACHE_CTRL_REG ''cache_enable'' 1 (rd n))) \<and>
   clear_rights hw (mmu_table_of w) =
     (if get_field DPORT_MMU_TABLE_REG ''access_rights'' w = ucast hw
      then mmu_table_of (set_field DPORT_MMU_TABLE_REG ''access_rights'' 0 w) else mmu_table_of w) \<and>
   txfifo_cnt w = get_field UART_STATUS_REG ''txfifo_cnt'' w \<and>
   ps_bits 0 excm um woe =
     initializer ps_t [(''excm'', of_bool excm), (''um'', of_bool um), (''woe'', of_bool woe)]"
proof -
  note b = bit_field [OF one_bit_fields(1)] bit_field [OF one_bit_fields(2)] bit_field [OF one_bit_fields(3)]
    bit_field [OF one_bit_fields(5)]
  show ?thesis
    by (intro conjI poll_fields)
      (simp_all add: b wdt_enable_def wdt_disable_def wdt_handle_def wdt_defs wdtconfig_fields flushed_and_enabled_def
        txfifo_field ps_fields clear_rights_fields)
qed

end
