(* ===== verification/Macros.thy ===== *)
theory Macros
  imports Dport Trace User_Pages
begin

section \<open>Helper macros\<close>

text \<open>
  \<^verbatim>\<open>util/defs.h\<close>: the named bits and sizes. \<^verbatim>\<open>util/cpp_magic.h\<close>: the logic of the
  preprocessor that the \<^verbatim>\<open>CHECK\<close> macros of \<^verbatim>\<open>util/except.h\<close> use to print a message
  only when they are given one. The looping macros of that file are used nowhere.
\<close>

subsection \<open>Bits and sizes\<close>

definition BITS :: "u64 list" where
  "BITS =
     [
      0x00000001, 0x00000002, 0x00000004, 0x00000008, 0x00000010,
      0x00000020, 0x00000040, 0x00000080, 0x00000100, 0x00000200,
      0x00000400, 0x00000800, 0x00001000, 0x00002000, 0x00004000,
      0x00008000, 0x00010000, 0x00020000, 0x00040000, 0x00080000,
      0x00100000, 0x00200000, 0x00400000, 0x00800000, 0x01000000,
      0x02000000, 0x04000000, 0x08000000, 0x10000000, 0x20000000,
      0x40000000, 0x80000000, 0x0000000100000000, 0x0000000200000000, 0x0000000400000000,
      0x0000000800000000, 0x0000001000000000, 0x0000002000000000, 0x0000004000000000, 0x0000008000000000,
      0x0000010000000000, 0x0000020000000000, 0x0000040000000000, 0x0000080000000000, 0x0000100000000000,
      0x0000200000000000, 0x0000400000000000, 0x0000800000000000, 0x0001000000000000, 0x0002000000000000,
      0x0004000000000000, 0x0008000000000000, 0x0010000000000000, 0x0020000000000000, 0x0040000000000000,
      0x0080000000000000, 0x0100000000000000, 0x0200000000000000, 0x0400000000000000, 0x0800000000000000,
      0x1000000000000000, 0x2000000000000000, 0x4000000000000000, 0x8000000000000000
     ]"

definition SIZES :: "u64 list" where
  "SIZES =
     [
      0x00000400, 0x00000800, 0x00001000, 0x00002000, 0x00004000,
      0x00008000, 0x00010000, 0x00020000, 0x00040000, 0x00080000,
      0x00100000, 0x00200000, 0x00400000, 0x00800000, 0x01000000,
      0x02000000, 0x04000000, 0x08000000, 0x10000000, 0x20000000,
      0x40000000, 0x80000000, 0x0000000100000000, 0x0000000200000000, 0x0000000400000000,
      0x0000000800000000, 0x0000001000000000, 0x0000002000000000, 0x0000004000000000, 0x0000008000000000,
      0x0000010000000000, 0x0000020000000000, 0x0000040000000000, 0x0000080000000000, 0x0000100000000000,
      0x0000200000000000, 0x0000400000000000, 0x0000800000000000, 0x0001000000000000, 0x0002000000000000,
      0x0004000000000000, 0x0008000000000000, 0x0010000000000000, 0x0020000000000000, 0x0040000000000000,
      0x0080000000000000, 0x0100000000000000, 0x0200000000000000, 0x0400000000000000, 0x0800000000000000,
      0x1000000000000000, 0x2000000000000000, 0x4000000000000000, 0x8000000000000000
     ]"

definition BASES :: "u64 list" where
  "BASES =
     [
      0x00000400, 0x00000800, 0x00001000, 0x00002000, 0x00004000,
      0x00008000, 0x00010000, 0x00020000, 0x00040000, 0x00080000,
      0x00100000, 0x00200000, 0x00400000, 0x00800000, 0x01000000,
      0x02000000, 0x04000000, 0x08000000, 0x10000000, 0x20000000,
      0x40000000, 0x80000000, 0x0000000100000000, 0x0000000200000000, 0x0000000400000000,
      0x0000000800000000, 0x0000001000000000, 0x0000002000000000, 0x0000004000000000, 0x0000008000000000,
      0x0000010000000000, 0x0000020000000000, 0x0000040000000000, 0x0000080000000000, 0x0000100000000000,
      0x0000200000000000, 0x0000400000000000, 0x0000800000000000, 0x0001000000000000, 0x0002000000000000,
      0x0004000000000000, 0x0008000000000000, 0x0010000000000000, 0x0020000000000000, 0x0040000000000000,
      0x0080000000000000, 0x0100000000000000, 0x0200000000000000, 0x0400000000000000, 0x0800000000000000,
      0x1000000000000000, 0x2000000000000000, 0x4000000000000000, 0x8000000000000000
     ]"

lemma sizes_doubled: "SIZES = map (\<lambda>i. push_bit i 1024) [0..<54]"
  by (simp add: SIZES_def upt_rec)

lemma bases_are_sizes: "BASES = SIZES"
  by (simp add: BASES_def SIZES_def)

lemma bits_in_order: "BITS = map (\<lambda>i. push_bit i 1) [0..<64]"
  by (simp add: BITS_def upt_rec)


text \<open>The masks of the drivers, written there with the named bits.\<close>

lemma masks_of_bits:
  "ucast (initial_free_interrupts) = BITS ! 0 OR BITS ! 1 OR BITS ! 2 OR BITS ! 3 OR BITS ! 4 OR BITS ! 5 OR BITS ! 8 OR
     BITS ! 9 OR BITS ! 10 OR BITS ! 12 OR BITS ! 13 OR BITS ! 17 OR BITS ! 18"
  "ucast PERIPHERALS_EDGE_TRIGGERED = BITS ! 10 OR BITS ! 22 OR BITS ! 28 OR BITS ! 30"
  by (simp_all add: initial_free_interrupts_def PERIPHERALS_EDGE_TRIGGERED_def bits_def bits_in_order)

subsection \<open>The logic of the preprocessor\<close>

text \<open>
  Tokens: names and numbers, string literals, and a parenthesised argument list as one token. A macro
  is a function of its arguments, which are expanded before they are substituted;
  \<^const>\<open>None\<close> is an invalid use, the pasting of a name with a literal or a parenthesis.
\<close>

datatype tok = Tok string | Lit string | Parens "tok list list"

definition cpp_CAT :: "string \<Rightarrow> tok list \<Rightarrow> tok list option" where
  "cpp_CAT a ts = (case ts of [] \<Rightarrow> Some [Tok a] | Tok b # r \<Rightarrow> Some (Tok (a @ b) # r) | _ \<Rightarrow> None)"

definition cpp_FIRST :: "tok list list \<Rightarrow> tok list" where
  "cpp_FIRST args = args ! 0"

definition cpp_SECOND :: "tok list list \<Rightarrow> tok list" where
  "cpp_SECOND args = args ! 1"

definition cpp_IS_PROBE :: "tok list list \<Rightarrow> tok list" where
  "cpp_IS_PROBE args = cpp_SECOND (args @ [[Tok ''0'']])"

text \<open>\<^verbatim>\<open>_NOT_0\<close> expands to the two arguments of \<^verbatim>\<open>PROBE()\<close>; what follows it joins the second.\<close>

definition cpp_PROBE :: "tok list \<Rightarrow> tok list list" where
  "cpp_PROBE r = [[Tok ''~''], Tok ''1'' # r]"

definition cpp_NOT :: "tok list \<Rightarrow> tok list option" where
  "cpp_NOT x = map_option
     (\<lambda>ts. cpp_IS_PROBE (if hd ts = Tok ''_NOT_0'' then cpp_PROBE (tl ts) else [ts])) (cpp_CAT ''_NOT_'' x)"

definition cpp_BOOL :: "tok list \<Rightarrow> tok list option" where
  "cpp_BOOL x = Option.bind (cpp_NOT x) cpp_NOT"

text \<open>\<^verbatim>\<open>IF(c)(body)\<close> and \<^verbatim>\<open>IF_ELSE(c)(t,f)\<close>: the condition picks the macro that takes the next arguments.\<close>

definition cpp_IF :: "tok list \<Rightarrow> tok list \<Rightarrow> tok list option" where
  "cpp_IF c body = Option.bind (Option.bind (cpp_BOOL c) (cpp_CAT ''_IF_'')) (\<lambda>ts.
     if ts = [Tok ''_IF_1''] then Some body else if ts = [Tok ''_IF_0''] then Some [] else None)"

definition cpp_IF_ELSE :: "tok list \<Rightarrow> tok list \<Rightarrow> tok list \<Rightarrow> tok list option" where
  "cpp_IF_ELSE c t f = Option.bind (Option.bind (cpp_BOOL c) (cpp_CAT ''_IF_ELSE_'')) (\<lambda>ts.
     if ts = [Tok ''_IF_ELSE_1''] then Some t else if ts = [Tok ''_IF_ELSE_0''] then Some f else None)"

definition cpp_OR :: "string \<Rightarrow> string \<Rightarrow> string" where
  "cpp_OR a b = (let n = ''_OR_'' @ a @ b in
     case map_of [(''_OR_00'', ''0''), (''_OR_01'', ''1''), (''_OR_10'', ''1''), (''_OR_11'', ''1'')] n of
       None \<Rightarrow> n | Some v \<Rightarrow> v)"

definition cpp_AND :: "string \<Rightarrow> string \<Rightarrow> string" where
  "cpp_AND a b = (let n = ''_AND_'' @ a @ b in
     case map_of [(''_AND_00'', ''0''), (''_AND_01'', ''0''), (''_AND_10'', ''0''), (''_AND_11'', ''1'')] n of
       None \<Rightarrow> n | Some v \<Rightarrow> v)"

text \<open>
  \<^verbatim>\<open>_END_OF_ARGUMENTS_\<close> is put before the first argument and \<^verbatim>\<open>(0)\<close> after it: the macro takes
  whatever parenthesis follows its name first.
\<close>

definition cpp_END_OF_ARGUMENTS :: "tok list \<Rightarrow> tok list option" where
  "cpp_END_OF_ARGUMENTS ts = (case ts of
     Parens g # r \<Rightarrow> map_option (\<lambda>b. b @ r) (cpp_BOOL (cpp_FIRST g))
   | _ \<Rightarrow> Some (Tok ''_END_OF_ARGUMENTS_'' # ts))"

definition cpp_HAS_ARGS :: "tok list list \<Rightarrow> tok list option" where
  "cpp_HAS_ARGS args =
     Option.bind (cpp_END_OF_ARGUMENTS (cpp_FIRST args @ [Parens [[Tok ''0'']]])) cpp_BOOL"

text \<open>The message of \<^verbatim>\<open>CHECK_ERROR_LABEL\<close>; a call without variable arguments has the one empty argument.\<close>

definition check_message :: "tok list list \<Rightarrow> tok list option" where
  "check_message args = Option.bind (cpp_HAS_ARGS args) (\<lambda>c. cpp_IF c [Tok ''ERROR'', Parens args])"

lemmas cpp_defs = cpp_CAT_def cpp_FIRST_def cpp_SECOND_def cpp_IS_PROBE_def cpp_PROBE_def cpp_NOT_def cpp_BOOL_def
  cpp_IF_def cpp_IF_ELSE_def cpp_END_OF_ARGUMENTS_def cpp_HAS_ARGS_def check_message_def

lemma bool_value:
  "cpp_BOOL [] = Some [Tok ''1'']" "cpp_BOOL (Tok s # r) = Some [Tok (if s = ''0'' then ''0'' else ''1'')]"
  "cpp_BOOL (Lit l # r) = None" "cpp_BOOL (Parens g # r) = None"
  by (simp_all add: cpp_defs)

lemma if_value:
  "cpp_IF [Tok ''1''] body = Some body" "cpp_IF [Tok ''0''] body = Some []"
  "cpp_IF_ELSE [Tok ''1''] t f = Some t" "cpp_IF_ELSE [Tok ''0''] t f = Some f"
  by (simp_all add: cpp_IF_def cpp_IF_ELSE_def bool_value) (simp_all add: cpp_CAT_def)

lemma has_args_value:
  "cpp_HAS_ARGS ([] # args) = Some [Tok ''0'']" "cpp_HAS_ARGS ((Tok s # a) # args) = Some [Tok ''1'']"
  "cpp_HAS_ARGS ((Lit l # a) # args) = Some [Tok ''1'']"
  "cpp_HAS_ARGS ((Parens ((Tok s # b) # bs) # a) # args) = Some [Tok (if s = ''0'' then ''0'' else ''1'')]"
  "cpp_HAS_ARGS ((Parens ((Lit l # b) # bs) # a) # args) = None"
  by (simp_all add: cpp_HAS_ARGS_def cpp_END_OF_ARGUMENTS_def cpp_FIRST_def bool_value)

lemma or_and_value:
  "cpp_OR (if p then ''1'' else ''0'') (if q then ''1'' else ''0'') = (if p \<or> q then ''1'' else ''0'')"
  "cpp_AND (if p then ''1'' else ''0'') (if q then ''1'' else ''0'') = (if p \<and> q then ''1'' else ''0'')"
  by (simp_all add: cpp_OR_def cpp_AND_def)

text \<open>C40: A CHECK macro prints its own message exactly when it is given one: with no variable argument it expands to
  nothing, and with arguments whose first starts with a format string or a name it expands to the call of ERROR with
  them. A first argument that starts with a parenthesis is judged by what is in it: the message is lost when that is
  the token 0, and the expansion is invalid when it is a string.\<close>

theorem check_prints_message:
  "check_message [[]] = Some [] \<and>
   check_message ((Lit fmt # a) # args) = Some [Tok ''ERROR'', Parens ((Lit fmt # a) # args)] \<and>
   check_message ((Tok s # a) # args) = Some [Tok ''ERROR'', Parens ((Tok s # a) # args)] \<and>
   check_message ((Parens ((Tok s # b) # bs) # a) # args) =
     Some (if s = ''0'' then [] else [Tok ''ERROR'', Parens ((Parens ((Tok s # b) # bs) # a) # args)]) \<and>
   check_message ((Parens ((Lit fmt # b) # bs) # a) # args) = None"
  by (simp add: check_message_def has_args_value if_value)

end
