(* ===== verification/Spec2Isabelle.thy ===== *)
theory Spec2Isabelle
  imports Driver_Properties Task_Properties Progress Trap_Dispatch Window_Vectors Registers Macros
begin

text \<open>
  A verification development for esp32-microkernel: a microkernel for one core of the ESP32 that runs
  isolated applications in user mode, its boot loader, its first application and the system call
  wrappers that applications are linked with. Paths below are relative to the repository.

  \<^bold>\<open>The program.\<close> \<^verbatim>\<open>loader/src/main.c\<close> is started by the boot ROM, reads the initial ramdisk and the
  kernel from a littlefs image in flash and jumps to \<^verbatim>\<open>kernel/src/main.c\<close>. \<^verbatim>\<open>kmain\<close> sets up the
  drivers (\<^verbatim>\<open>drivers/dport.c\<close>, \<^verbatim>\<open>pid.c\<close>, \<^verbatim>\<open>timg.c\<close>, \<^verbatim>\<open>uart.c\<close>), the page allocator (\<^verbatim>\<open>mem/umem.c\<close>)
  and the kernel heap (\<^verbatim>\<open>mem/mem.c\<close>), turns every application of the ramdisk into a task
  (\<^verbatim>\<open>task/loader.c\<close>, \<^verbatim>\<open>task/task.c\<close>) and drops into the scheduler (\<^verbatim>\<open>task/scheduler.c\<close>). From
  then on the kernel runs in trap handlers only: the watchdog ends a time slice, a task makes a system
  call (\<^verbatim>\<open>task/syscall.c\<close>), or an exception stops the machine (\<^verbatim>\<open>arch/interrupts.c\<close>); the assembly in
  \<^verbatim>\<open>vdso/vectors.S\<close> and \<^verbatim>\<open>arch/interrupts.S\<close> saves and restores the registers around them. The memory
  protection is the DPORT MMU: sixteen pages of code and sixteen of data, each owned by one of eight
  hardware PIDs; six of these are a cache of address spaces, replaced in LRU order.

  \<^bold>\<open>Conventions.\<close> A \<^verbatim>\<open>struct\<close> is a record, an \<^verbatim>\<open>enum\<close> a datatype, an integer a word of its width. The
  state of the kernel is the record \<open>kernel\<close> of \<open>Kernel_State\<close>: all static variables, the device
  registers the code touches, the tasks by address, and the memory as a function from 32-bit addresses
  to bytes. An operation maps a state to a state; one that can stop returns \<open>stop + 'a\<close> (\<open>Inl\<close>: an
  assertion failed, the kernel spins, idles, or left what C defines), and one with an \<^verbatim>\<open>err_t\<close> result
  returns the error code beside the state, so every \<^verbatim>\<open>CHECK\<close>, \<^verbatim>\<open>ASSERT\<close> and early return is a
  branch. A pointer is a 32-bit word; \<open>0\<close> is \<^verbatim>\<open>NULL\<close>.

  \<^bold>\<open>Parameters.\<close> What is not in the sources is an argument of the definitions that use it: the heap
  \<^verbatim>\<open>umm_malloc\<close> (\<open>platform\<close> in \<open>Task\<close>), littlefs and the flash and ROM routines (the environment of
  \<open>Boot_Loader\<close>), and the registers a device answers with (the DPORT cache flags, the UART status and the
  interrupt status are a state or a list of the values read). What the proofs use of them are the named
  predicates \<open>heap_ok\<close> (the block is fresh and word aligned), \<open>file_env\<close> (seek and read of a file), and
  \<open>flushed_and_enabled\<close>; the machine of theory \<open>Example\<close> satisfies them all. Two definitions state what the hardware
  does and translate no code: \<open>user_writable\<close> (the bytes that the MMU tables grant to the selected PID) and
  \<open>documented_bits\<close> (where the manuals place the fields of the registers). \<open>format_text\<close> and \<open>sched_spec\<close> are
  specifications that the models of the code are shown to meet.

  \<^bold>\<open>Theories\<close>, in the order of their imports, with what their lemmas show.
  \<^item> \<open>Prelude\<close>: words, stops, error codes (\<^verbatim>\<open>util/except.h\<close>), alignment and bit macros (\<^verbatim>\<open>util/defs.h\<close>);
    \<open>Memory\<close>: little-endian bytes, \<^verbatim>\<open>memcpy\<close>, \<^verbatim>\<open>memset\<close>, C strings; \<open>User_Pages\<close>: the bytes of a page.
  \<^item> \<open>Umem\<close>: both page bitmaps. The locale \<open>page_pool\<close> is what a client may rely on and is
    interpreted for code and for data pages: a page handed out was free and is distinct from all others.
  \<^item> \<open>Kernel_State\<close>: the records; \<open>Diagnostics\<close>: the lines of failed checks (\<^verbatim>\<open>util/except.h\<close>) and that
    printing one changes the console only.
  \<^item> \<open>Mmu\<close>: the tables, hardware PID bindings, LRU activation, loading and unloading of a
    space (\<^verbatim>\<open>mmu_activate\<close>, \<^verbatim>\<open>mmu_map\<close>, \<^verbatim>\<open>init_mmu\<close>, \<^verbatim>\<open>pid_prepare\<close>). \<open>Mmu_Tables\<close> specifies one
    table by the owner of each PID, and when the peripheral loop ends; \<open>Mmu_Isolation\<close> has the invariant \<open>mmu_inv\<close>: what the hardware
    grants to a PID is exactly what its space maps, and spaces are disjoint.
  \<^item> \<open>Dport\<close>: cache setup and the routing of peripheral interrupts; \<open>Timg\<close>: the watchdog and its write protection.
  \<^item> \<open>Printf\<close>: \<^verbatim>\<open>util/printf.c\<close> with its output function as a parameter. \<open>Printf_Text\<close> is the reference
    semantics (the text of a format), \<open>Printf_Numbers\<close> the conversions and their round trips.
    \<open>Trace\<close>: \<^verbatim>\<open>util/trace.h\<close>, \<^verbatim>\<open>util/trace.c\<close> and the serial port, \<^verbatim>\<open>drivers/uart.c\<close>.
  \<^item> \<open>Task\<close>: \<^verbatim>\<open>task/task.c\<close>; \<open>Task_Create\<close>: what creation establishes, and \<open>kernel_inv\<close>, the invariant
    of the whole kernel between operations.
  \<^item> \<open>Run_Queue\<close>: the intrusive list of \<^verbatim>\<open>task/scheduler.c\<close> and its global instance; both interpret
    the locale \<open>fifo\<close>, which \<open>run_queue\<close> extends by the membership test.
  \<^item> \<open>Scheduler\<close>: readying, the end of a time slice, park, drop. \<open>Sched_Refinement\<close> has the
    specification \<open>sched_spec\<close> (a list of ready tasks, the running one, everyone's registers), the
    invariant \<open>sched_inv\<close> and the abstraction \<open>sched_abs\<close>; \<open>Sched_Runs\<close> the simulation and sequences of
    time slices; \<open>Sched_Ready\<close> the preservation of \<open>kernel_inv\<close>.
  \<^item> \<open>Syscall\<close>: the system call and interrupt handlers with what they print; \<open>Exceptions\<close>: the exception
    report, register dump, instruction printer and dispatch table; \<open>System\<close>: the machine's step relation
    \<open>system_step\<close> (user code, system calls, interrupts), \<open>reachable\<close>, and the invariant \<open>system_inv\<close>;
    \<open>Progress\<close>: the handlers finish.
  \<^item> \<open>App_Loader\<close>, \<open>Loader_Correct\<close>, \<open>Loader_Load\<close>: \<^verbatim>\<open>task/loader.c\<close> and the correctness of a load.
  \<^item> \<open>Kmain\<close>, \<open>Boot_Correct\<close>: \<^verbatim>\<open>main.c\<close>, \<^verbatim>\<open>initrd.h\<close>, \<^verbatim>\<open>mem/mem.c\<close> and the boot of one application;
    \<open>Boot_Loader\<close>, \<open>Boot_Loader_Correct\<close>, \<open>Boot_Chain\<close>: the boot loader, and from power on to user mode.
  \<^item> \<open>Xtensa\<close>: the register windows and the instructions that \<^verbatim>\<open>arch/interrupts.S\<close>, \<^verbatim>\<open>vdso/vectors.S\<close> and
    \<^verbatim>\<open>main.S\<close> use; \<open>Trap_Entry\<close>: their code. \<open>Trap_Save\<close>: the save stores exactly the live registers
    (\<open>save_ok\<close>, by induction over the spill loop); \<open>Trap_Restore\<close>: the reload and clearing loops, what a
    restore gives, and the three ways it goes wrong; \<open>Trap_Correct\<close>: a whole trap; \<open>Trap_System\<close>: traps
    around the models of the C handlers; \<open>Trap_Dispatch\<close>: the table of handlers and the three entries, from
    the interrupted instruction to the next one, and a system call that returns to its caller;
    \<open>Window_Vectors\<close>: window overflow and underflow.
  \<^item> \<open>Registers\<close>: the bit fields of the device registers (\<^verbatim>\<open>drivers/*.c\<close>, \<^verbatim>\<open>arch/intrin.h\<close>), the numbered
    tables of \<^verbatim>\<open>dport.h\<close> and \<^verbatim>\<open>interrupts.h\<close> and the layout of \<^verbatim>\<open>task_regs_t\<close>, with the static assertions about
    them; its lemmas say that the operations, which work on bits and offsets, access these fields.
    \<open>Macros\<close>: the constants of \<^verbatim>\<open>util/defs.h\<close>, and the macro logic of \<^verbatim>\<open>util/cpp_magic.h\<close> that the \<^verbatim>\<open>CHECK\<close>
    macros use.
  \<^item> \<open>User_Program\<close>: \<^verbatim>\<open>apps/shared/syscall.h\<close>, \<^verbatim>\<open>vdso/vdso.c\<close> and \<^verbatim>\<open>apps/init/main.c\<close>.
  \<^item> \<open>Example\<close>: a concrete flash, heap and reset state, booted to a machine with two tasks: the
    instances of the theorems use it. \<open>Driver_Properties\<close>, \<open>Task_Properties\<close> and this theory hold the properties.

  \<^bold>\<open>Loops.\<close> Loops over constant tables (pages, bindings, interrupts, entries) are recursion on the list or on a
    count. The digit loop, the hex dump and the page copy recurse on their argument with a measure. The loops
    that may not end are \<open>partial_function (option)\<close>, so that not returning is the value \<open>None\<close>, which
    the callers turn into a stop: the waits for a device read a sequence of register values, and the bit loop
    of the MPU code, the status change of a task, the search for a ready task and the loops over register
    windows run on their state. For each there is a lemma saying when it ends, or that it does not. The opcode
    printer of the exception report counts in an \<^verbatim>\<open>int32_t\<close> and stops at its overflow, which C leaves undefined.

  \<^bold>\<open>Not modelled.\<close>
  \<^item> Of the assembly: the C code between the save and the restore of a trap is a parameter of \<open>trap_body\<close>.
    That it does what the model of the C handler does, on the register file in the frame, and comes back to
    its window is the contract \<open>calls_c\<close> (\<open>handler_returns\<close> for one that leaves the frame alone); it
    rests on the compiler. The vectors that only return and the fast path of the system call, which nothing
    reaches, are left out.
  \<^item> The second core: \<^verbatim>\<open>kmain\<close> never starts it. The per-core state is modelled for both and \<open>prid\<close>
    selects one, but steps of two cores are not interleaved; the queue's lock is an empty function in the source.
  \<^item> The line a failed \<^verbatim>\<open>ASSERT\<close> prints before it spins: the stop carries the expression instead. All
    other lines, those of \<^verbatim>\<open>TRACE\<close>, \<^verbatim>\<open>CHECK\<close> and \<^verbatim>\<open>CHECK_AND_RETHROW\<close>, are on the console; those of
    the boot loader are the calls of the ROM's printer with their formats and arguments.
  \<^item> The looping macros of \<^verbatim>\<open>util/cpp_magic.h\<close> and \<^verbatim>\<open>_wstrnlen_s\<close> of \<^verbatim>\<open>printf.c\<close>, which nothing uses.
  \<^item> \<^verbatim>\<open>umm_malloc\<close>, littlefs and the ROM, which are not in the repository.
\<close>

section \<open>The system\<close>

text \<open>C1: The system invariant holds in every state a run can reach, whatever the user programs do within the pages the
  MMU grants them, whatever system calls they make and whenever interrupts arrive: the run queue,
  the tasks' statuses, the address spaces, the MMU tables and the page bitmaps agree with each other, the
  running task exists and owns the selected hardware PID, and its registers are a register file.\<close>

theorem system_invariant:
  assumes "system_inv m" "reachable pf m m'"
  shows "system_inv m'"
  by (rule reachable_inv [OF assms(2,1)])

theorem system_invariant_witness:
  "\<exists>m'. common_syscall_handler demo_pf (set_ret SYSCALL_SCHED_YIELD (fst demo_two)) (snd demo_two) = Inr m' \<and> system_inv m'"
proof -
  let ?r = "set_ret SYSCALL_SCHED_YIELD (fst demo_two)"
  have len: "length (ar (fst demo_two)) = 64" using demo_two(4) by (simp add: regs_wf_def)
  then have n: "ar ?r ! SYSCALL_NUM = SYSCALL_SCHED_YIELD" by (simp add: set_ret_def SYSCALL_RET_def SYSCALL_NUM_def)
  have wf: "regs_wf ?r" "regs_wf (set_ret 0 ?r)" using demo_two(4) by simp_all
  obtain r' s' where sc: "scheduler_on_schedule (set_ret 0 ?r) (snd demo_two) = Inr (r', s')"
    by (rule on_schedule_ok [OF demo_two_sched demo_two(3) _ wf(2)]) auto
  have c: "common_syscall_handler demo_pf ?r (snd demo_two) = Inr (r', s')"
    using n sc by (simp add: common_syscall_handler_def Let_def SYSCALL_SCHED_PARK_def SYSCALL_SCHED_YIELD_def)
  have "system_step demo_pf demo_two (?r, snd demo_two)"
    using system_step.user [of ?r "snd demo_two" "mem (snd demo_two)" demo_pf "fst demo_two"] wf(1) by simp
  moreover have "system_step demo_pf (?r, snd demo_two) (r', s')" using c by (rule system_step.syscall)
  ultimately have "reachable demo_pf demo_two (r', s')"
    by (blast intro: reachable.start reachable.step)
  from system_invariant [OF demo_two(1) this] c show ?thesis by blast
qed

text \<open>C2: In any run during which a task is never the running one, its saved registers and every byte of its pages stay as
  they were: neither the other tasks' code nor the kernel on their behalf changes them.\<close>

theorem suspended_task_kept:
  assumes "system_inv m" "reachable_without pf p m m'"
  shows "system_inv m' \<and> saved_regs (snd m') p = saved_regs (snd m) p \<and>
    (\<forall>x \<in> task_memory (snd m) p. mem (snd m') x = mem (snd m) x)"
proof -
  have k: "system_inv m'" "keeps_task p (snd m) (snd m')" using reachable_without_keeps [OF assms(2,1)] by simp_all
  obtain xs where "kernel_inv (snd m) xs" using assms(1) by (auto simp: system_inv_def case_prod_beta)
  then have "uctx_ok (tasks (snd m))" by (simp add: kernel_inv_def sched_inv_def)
  from keeps_task_regs [OF this k(2)] k show ?thesis by (simp add: keeps_task_def)
qed

theorem suspended_task_kept_witness:
  "\<exists>s'. reachable_without demo_pf demo_b demo_two (zero_regs, s') \<and>
     (\<forall>x \<in> user_writable (snd demo_two). mem s' x = 0) \<and> saved_regs s' demo_b = saved_regs (snd demo_two) demo_b"
proof -
  let ?s = "snd demo_two"
  let ?s' = "?s\<lparr>mem := (\<lambda>x. if x \<in> user_writable ?s then 0 else mem ?s x)\<rparr>"
  have "reachable_without demo_pf demo_b demo_two demo_two"
    by (rule reachable_without.start) (simp add: demo_two(3))
  moreover have "system_step demo_pf demo_two (zero_regs, ?s')"
    using system_step.user [of zero_regs ?s "mem ?s'" demo_pf "fst demo_two"] zero_regs_wf by simp
  moreover have "get_current_task (snd (zero_regs, ?s')) \<noteq> demo_b"
    using demo_two(3) by (simp add: get_current_task_def)
  ultimately have r: "reachable_without demo_pf demo_b demo_two (zero_regs, ?s')" by (rule reachable_without.step)
  from suspended_task_kept [OF demo_two(1) r] r show ?thesis by auto
qed

section \<open>From flash to user mode\<close>

text \<open>C3: Power on. If the file system holds a kernel image and a well-formed application that fit, the flash answers and a
  character arrives on the serial port, then the loader jumps to the kernel's entry point with the kernel's
  sections in place and the ten lines of its progress printed; and a kernel that starts on the ramdisk left in memory, with a heap that works, ends in user
  mode: the system invariant holds, the running task has the application's code and data, byte for byte, and the
  initial registers with its entry point, and its time slice is being timed.\<close>

theorem power_on:
  assumes files: "file_env env files cur" "uart_rx_one_char env k = 0" "esp_rom_spiflash_config_param env = 0"
      "kernel_image (files ''/kernel'')" "app_image (files ''/apps/init'')"
    and n: "n = 76 + length (files ''/apps/init'')" "n \<le> 0xE000"
    and boot: "reset_ok (kern b)" "kmain_init pf bp b = Inr b1" "regs_wf (kmain_regs bp)" "boot_heap pf (kern b1) n"
    and loader: "loader_start env l = Inr (e, l')"
    and kept: "\<And>i. i < n \<Longrightarrow> mem (kern b1) (INITRD_HANDOFF + of_nat i) = lmem l' (m_initrd_buffer + of_nat i)"
  shows "e = entry_point (header_of_bytes (take 20 (files ''/kernel''))) \<and> kernel_loaded (files ''/kernel'') (lmem l') \<and>
    ets_calls l' = ets_calls l @ start_lines @ initrd_lines (of_nat (length (files ''/apps/init''))) @
      kernel_lines (header_of_bytes (take 20 (files ''/kernel''))) \<and>
    (\<exists>p r s. kmain pf bp b = Inr (b1, (r, s)) \<and> system_inv (r, s) \<and> get_current_task s = p \<and>
       r = initial_regs pf (app_entry (app_header_of_bytes (files ''/apps/init''))) \<and>
       runs_app pf (files ''/apps/init'') p s \<and> wdt_enabled (timg s))"
proof -
  have len: "length (files ''/apps/init'') \<le> 0xE000 - 76" using n by simp
  obtain l1 where "loader_start env l = Inr (entry_point (header_of_bytes (take 20 (files ''/kernel''))), l1)"
    "kernel_loaded (files ''/kernel'') (lmem l1)" "initrd_image m_initrd_buffer (files ''/apps/init'') (lmem l1)"
    "ets_calls l1 = ets_calls l @ start_lines @ initrd_lines (of_nat (length (files ''/apps/init''))) @
       kernel_lines (header_of_bytes (take 20 (files ''/kernel'')))"
    by (rule loader_start_ok [OF files(1-4) len, of l])
  then have l': "e = entry_point (header_of_bytes (take 20 (files ''/kernel'')))" "kernel_loaded (files ''/kernel'') (lmem l')"
    "initrd_image m_initrd_buffer (files ''/apps/init'') (lmem l')"
    "ets_calls l' = ets_calls l @ start_lines @ initrd_lines (of_nat (length (files ''/apps/init''))) @
       kernel_lines (header_of_bytes (take 20 (files ''/kernel'')))"
    using loader by simp_all
  obtain p r s where "kmain pf bp b = Inr (b1, (r, s))" "system_inv (r, s)" "get_current_task s = p"
    "r = initial_regs pf (app_entry (app_header_of_bytes (files ''/apps/init'')))"
    "runs_app pf (files ''/apps/init'') p s" "wdt_enabled (timg s)"
    by (rule power_on_ok [OF l'(3) files(5) n boot(1,2) kept boot(4,3)])
  with l' show ?thesis by blast
qed

lemma demo_start: "\<exists>l'. loader_start demo_env demo_loader = Inr (KERNEL_CODE_BASE, l') \<and> lmem l' = demo_flashed"
proof -
  have "length (demo_files ''/apps/init'') \<le> 0xE000 - 76" by (simp add: demo_files_def length_demo_app)
  from loader_start_ok [OF demo_file_env demo_uart demo_flash_config demo_kernel_image this, of demo_loader]
  obtain l' where "loader_start demo_env demo_loader = Inr (KERNEL_CODE_BASE, l')"
    by (auto simp: demo_files_def demo_kernel_header)
  then show ?thesis by (simp add: demo_flashed_def)
qed

theorem power_on_witness:
  "\<exists>r s. kmain demo_pf demo_bp demo_boot = Inr (demo_booted, (r, s)) \<and> system_inv (r, s) \<and>
     r = initial_regs demo_pf USER_CODE_BASE \<and> runs_app demo_pf demo_app (get_current_task s) s"
proof -
  obtain l' where l': "loader_start demo_env demo_loader = Inr (KERNEL_CODE_BASE, l')" "lmem l' = demo_flashed"
    using demo_start by blast
  have f: "demo_files ''/apps/init'' = demo_app" by (simp add: demo_files_def)
  have k: "mem (kern demo_booted) (INITRD_HANDOFF + of_nat i) = lmem l' (m_initrd_buffer + of_nat i)" if "i < 104" for i
    using demo_handoff [OF that] l'(2) by simp
  from power_on [of demo_env demo_files "\<lambda>f. f" 3 104 demo_boot demo_pf demo_bp demo_booted demo_loader _ l',
      OF demo_file_env demo_uart demo_flash_config demo_kernel_image _ _ demo_params(2) demo_reset_boot demo_init
        demo_params(3) demo_boot_heap l'(1) k]
  show ?thesis using demo_app_image demo_params(1) demo_app_header by (auto simp: f)
qed

text \<open>C10: In a state of the running system an interrupt handler always returns, and a system call returns except that the
  drop call stops at the missing release, the park call idles when no other task is ready, and only a log
  call whose pointer is outside the sixteen data pages reads past the array.\<close>

theorem trap_handlers_finish:
  assumes "system_inv (r, s)"
  shows "(\<exists>m. common_interrupt_handler r (raise_wdt v s) = Inr m) \<and>
    syscall_outcome (ar r ! 2) (ar r ! 6) (common_syscall_handler pf r s)"
  using interrupt_progress [OF assms] syscall_progress [OF assms] by blast

theorem trap_handlers_finish_witness:
  "(\<exists>m. common_interrupt_handler (fst demo_two) (raise_wdt 4 (snd demo_two)) = Inr m) \<and>
   (\<exists>m. common_syscall_handler demo_pf (fst demo_two) (snd demo_two) = Inr m)"
proof -
  have i: "system_inv (fst demo_two, snd demo_two)" using demo_two(1) by simp
  have "ar (fst demo_two) ! 2 = USER_CODE_BASE" by (simp add: demo_two(5) initial_regs_def)
  then show ?thesis
    using trap_handlers_finish [OF i, of 4 demo_pf]
    by (auto simp: syscall_outcome_def SYSCALL_SCHED_DROP_def SYSCALL_SCHED_PARK_def SYSCALL_LOG_def USER_CODE_BASE_def)
qed

text \<open>A boot whose ramdisk cannot be loaded stops at the assertion at the end of kmain.\<close>

theorem boot_without_app_stops:
  assumes "kmain_init pf bp b = Inr b1" "load_from_initrd pf (loader_junk bp) (kern b1) = Inr (err, s)" "err \<noteq> NO_ERROR"
  shows "kmain pf bp b = Inl (Assert_failed ''!IS_ERROR(err)'')"
  by (rule kmain_no_app [OF assms])

definition no_heap :: platform where
  "no_heap = demo_pf\<lparr>umm_malloc := (\<lambda>n m. (NULL, m))\<rparr>"

theorem boot_without_app_stops_witness:
  "kmain no_heap demo_bp demo_boot = Inl (Assert_failed ''!IS_ERROR(err)'')"
proof -
  have i: "kmain_init no_heap demo_bp demo_boot = Inr demo_booted"
    using demo_init by (simp add: kmain_init_def init_mem_def no_heap_def)
  obtain s where l: "load_from_initrd no_heap (loader_junk demo_bp) (kern demo_booted) = Inr (ERROR_OUT_OF_RESOURCES, s)"
    by (simp add: load_from_initrd_def malloc_def no_heap_def Let_def)
  show ?thesis by (rule boot_without_app_stops [OF i l]) simp
qed

section \<open>Flash\<close>

text \<open>C39: A read of the file system that the callback lets through starts behind the four blocks of the loader and
  inside the 16 MB chip, or its block number is one of the last four, for which the sum wraps around.\<close>

theorem flash_read_in_file_system:
  assumes "spi_flash_read env block off n = Inr r" "off < LFS_BLOCK_SIZE"
  shows "unat block < 4092 \<and> 0x4000 \<le> unat ((block + 4) * LFS_BLOCK_SIZE + off) \<and>
      unat ((block + 4) * LFS_BLOCK_SIZE + off) < 0x1000000 \<or> 4294967292 \<le> unat block"
  by (rule spi_flash_read_addr [OF assms])

theorem flash_read_in_file_system_witness:
  "(\<exists>r. spi_flash_read demo_env 10 8 4 = Inr r) \<and> 0x4000 \<le> unat (((10 :: u32) + 4) * LFS_BLOCK_SIZE + 8)"
proof -
  have r: "spi_flash_read demo_env 10 8 4 = Inr (0, replicate 4 0)"
    by (simp add: spi_flash_read_def demo_env_def LFS_BLOCK_COUNT_def LFS_ERR_OK_def Let_def)
  have "(8 :: u32) < LFS_BLOCK_SIZE" by (simp add: LFS_BLOCK_SIZE_def)
  from flash_read_in_file_system [OF r this] r show ?thesis by simp
qed

text \<open>The loader's header checks accept a negative section size: the upper bounds are signed comparisons and nothing
  checks the sign.\<close>

theorem negative_size_accepted:
  "\<exists>h. check_kernel_header h \<and> sint (k_data_size h) < 0"
  by (rule negative_data_size)

section \<open>User page allocator\<close>

text \<open>From the boot state, fifteen code page requests are granted fifteen different pages, none of
  them the vDSO page, and the sixteenth reports failure and leaves the bitmaps as they are.\<close>

theorem umem_code_pages:
  "\<exists>ps u. alloc_pages umem_alloc_code_page 15 umem_init = (ps, u) \<and>
     distinct ps \<and> set ps = int ` {..<15} \<and> int VDSO_PAGE_INDEX \<notin> set ps \<and>
     umem_alloc_code_page u = (INVALID_PAGE, u)"
proof -
  obtain ps u where r: "alloc_pages umem_alloc_code_page 15 umem_init = (ps, u)" by fastforce
  have c: "card (code_free umem_init) = 15" by (simp add: code_free_init)
  from code_pool.alloc_pages_distinct [of 15 umem_init ps u] r
  have d: "distinct ps" "length ps = 15" "set ps \<subseteq> int ` {..<15}" by (simp_all add: code_free_init)
  then have s: "set ps = int ` {..<15}"
    by (intro card_subset_eq) (auto simp: distinct_card card_image)
  with code_pool.alloc_pages_exhaust [of umem_init ps u] r c d show ?thesis
    by (auto simp: VDSO_PAGE_INDEX_def)
qed

end
